(* ===== verification/JP_Prelude.thy ===== *)
theory JP_Prelude
  imports Main "HOL-Library.Word" "HOL-Library.AList_Mapping" "HOL-Library.Multiset"
begin

text \<open>
  Shared vocabulary of the JurisPath development: the Go types the sources use (fixed-width
  integers, byte slices, \<open>time.Time\<close>, \<open>time.Duration\<close>), Go's early-return loops, the standard
  library functions the sources call on strings and bytes, and the lemma collections that the
  component theories add to.
\<close>

section \<open>Go types\<close>

text \<open>
  Unsigned integers keep their width.  A Go \<open>int64\<close> is a 64-bit word read through \<open>sint\<close>;
  \<open>+\<close> and \<open>-\<close> wrap as in Go, and the comparisons are the signed ones (\<open><s\<close>, \<open>\<le>s\<close>).
  A Go \<open>string\<close> is a sequence of bytes, which is what HOL's \<open>string\<close> is.  A \<open>[]byte\<close> is
  a list of 8-bit words; where the code distinguishes the nil slice from the empty one the
  model has \<open>bytes option\<close> with \<open>None\<close> for nil.  A fallible Go call returning
  \<open>(T, error)\<close> is a sum with the error on the left; a call returning only \<open>error\<close> is an
  option of an error with \<open>None\<close> for nil.
\<close>

type_synonym uint16 = "16 word"
type_synonym uint64 = "64 word"
type_synonym int64 = "64 word"
type_synonym bytes = "8 word list"

text \<open>
  Instants are integers counting nanoseconds from the Unix epoch; a \<open>Duration\<close> is an \<open>int64\<close>
  number of nanoseconds, so \<open>Time.Sub\<close> clamps at the ends of that range (as Go documents).
  The zero \<open>time.Time\<close> is 1 January of year 1.
\<close>

type_synonym time = int
type_synonym duration = int

definition minDuration :: duration where
  "minDuration = - (2 ^ 63)"

definition maxDuration :: duration where
  "maxDuration = 2 ^ 63 - 1"

definition second :: duration where
  "second = 1000000000"

definition zeroTime :: time where
  "zeroTime = - 62135596800 * 1000000000"

definition time_Sub :: "time \<Rightarrow> time \<Rightarrow> duration" where
  "time_Sub t u = max minDuration (min maxDuration (t - u))"

text \<open>The collections the component proofs rewrite with.\<close>

named_theorems time_simps \<open>clock arithmetic\<close>
named_theorems result_simps \<open>early-return loops and results\<close>
named_theorems frame_simps \<open>fields an operation leaves alone\<close>

lemma time_Sub_gt [time_simps]:
  "w < maxDuration \<Longrightarrow> minDuration \<le> w \<Longrightarrow> w < time_Sub t u \<longleftrightarrow> w < t - u"
  by (auto simp: time_Sub_def minDuration_def maxDuration_def)

lemma time_Sub_gt_imp:
  "minDuration \<le> w \<Longrightarrow> w < time_Sub t u \<Longrightarrow> w < t - u"
  by (auto simp: time_Sub_def minDuration_def maxDuration_def)

lemma time_Sub_exact [time_simps]:
  "minDuration \<le> t - u \<Longrightarrow> t - u \<le> maxDuration \<Longrightarrow> time_Sub t u = t - u"
  by (simp add: time_Sub_def)

lemma time_Sub_bounds: "minDuration \<le> time_Sub t u \<and> time_Sub t u \<le> maxDuration"
  by (simp add: time_Sub_def minDuration_def maxDuration_def)

section \<open>Loops with an early error return\<close>

text \<open>
  The loop \<^verbatim>\<open>for _, x := range xs { y, err := f(x); if err != nil { return err }; out = append(out, y) }\<close>.
\<close>

fun mapErr :: "('a \<Rightarrow> 'e + 'b) \<Rightarrow> 'a list \<Rightarrow> 'e + 'b list" where
  "mapErr f [] = Inr []"
| "mapErr f (x # xs) =
     (case f x of
        Inl e \<Rightarrow> Inl e
      | Inr y \<Rightarrow> (case mapErr f xs of Inl e \<Rightarrow> Inl e | Inr ys \<Rightarrow> Inr (y # ys)))"

lemma mapErr_Inr_iff [result_simps]:
  "mapErr f xs = Inr ys \<longleftrightarrow> list_all2 (\<lambda>x y. f x = Inr y) xs ys"
proof (induction xs arbitrary: ys)
  case Nil
  then show ?case by auto
next
  case (Cons x xs)
  show ?case
    by (auto simp: list_all2_Cons1 Cons.IH [symmetric] split: sum.splits)
qed

lemma mapErr_Inl_iff:
  "(\<exists>e. mapErr f xs = Inl e) \<longleftrightarrow> (\<exists>x\<in>set xs. \<exists>e. f x = Inl e)"
proof (induction xs)
  case Nil
  then show ?case by simp
next
  case (Cons x xs)
  then show ?case by (cases "f x"; cases "mapErr f xs") auto
qed

lemma mapErr_length: "mapErr f xs = Inr ys \<Longrightarrow> length ys = length xs"
  by (auto simp: mapErr_Inr_iff list_all2_lengthD)

lemma mapErr_total: "mapErr (\<lambda>x. Inr (g x)) xs = Inr (map g xs)"
  by (induction xs) auto

text \<open>The first element on which a check that returns an error fails.\<close>

fun firstErr :: "('a \<Rightarrow> 'e option) \<Rightarrow> 'a list \<Rightarrow> 'e option" where
  "firstErr f [] = None"
| "firstErr f (x # xs) = (case f x of Some e \<Rightarrow> Some e | None \<Rightarrow> firstErr f xs)"

lemma firstErr_None_iff [result_simps]: "firstErr f xs = None \<longleftrightarrow> (\<forall>x\<in>set xs. f x = None)"
  by (induction xs) (auto split: option.splits)

text \<open>Linear search in a history.\<close>

lemma find_key_None_iff: "find (\<lambda>r. f r = k) rs = None \<longleftrightarrow> k \<notin> f ` set rs"
  by (auto simp: find_None_iff)

lemma find_snoc: "find p (rs @ [r]) = (case find p rs of None \<Rightarrow> if p r then Some r else None | Some x \<Rightarrow> Some x)"
  by (induction rs) auto

section \<open>Bytes and strings\<close>

definition bytes_of_string :: "string \<Rightarrow> bytes" where
  "bytes_of_string s = map (\<lambda>c. word_of_nat (of_char c)) s"

lemma of_char_word_inj: "(word_of_nat (of_char c) :: 8 word) = word_of_nat (of_char d) \<Longrightarrow> c = d"
proof -
  assume "(word_of_nat (of_char c) :: 8 word) = word_of_nat (of_char d)"
  then have "unat (word_of_nat (of_char c) :: 8 word) = unat (word_of_nat (of_char d) :: 8 word)"
    by simp
  moreover have "of_char c < (256::nat)" "of_char d < (256::nat)"
    by simp_all
  ultimately have "of_char c = (of_char d :: nat)"
    by (simp add: unat_of_nat)
  then show ?thesis by simp
qed

lemma bytes_of_string_inj: "bytes_of_string s = bytes_of_string t \<longleftrightarrow> s = t"
  unfolding bytes_of_string_def
  by (rule inj_map_eq_map) (auto intro: injI of_char_word_inj)

lemma bytes_of_string_append [simp]:
  "bytes_of_string (s @ t) = bytes_of_string s @ bytes_of_string t"
  by (simp add: bytes_of_string_def)

lemma length_bytes_of_string [simp]: "length (bytes_of_string s) = length s"
  by (simp add: bytes_of_string_def)

text \<open>\<^verbatim>\<open>fmt.Sprintf("%x", b)\<close>: two lower-case hexadecimal digits per byte.\<close>

definition hexdigits :: string where
  "hexdigits = ''0123456789abcdef''"

definition hex_byte :: "8 word \<Rightarrow> string" where
  "hex_byte b = [hexdigits ! (unat b div 16), hexdigits ! (unat b mod 16)]"

definition hex :: "bytes \<Rightarrow> string" where
  "hex bs = concat (map hex_byte bs)"

lemma hexdigits_inj:
  assumes "i < 16" "j < 16" "hexdigits ! i = hexdigits ! j"
  shows "i = j"
proof -
  have d: "distinct hexdigits" and l: "length hexdigits = 16" by (simp_all add: hexdigits_def)
  show ?thesis
    using nth_eq_iff_index_eq [OF d, of i j] assms by (simp add: l)
qed

lemma unat_byte_lt: "unat (b :: 8 word) < 256"
  using unsigned_less [of b, where ?'a = nat] by simp

lemma hex_byte_inj: "hex_byte a = hex_byte b \<longleftrightarrow> a = b"
proof
  assume h: "hex_byte a = hex_byte b"
  have "unat a div 16 = unat b div 16"
    by (rule hexdigits_inj) (use h unat_byte_lt [of a] unat_byte_lt [of b] in \<open>auto simp: hex_byte_def\<close>)
  moreover have "unat a mod 16 = unat b mod 16"
    by (rule hexdigits_inj) (use h in \<open>auto simp: hex_byte_def\<close>)
  ultimately have "unat a = unat b" by (metis mod_mult_div_eq)
  then show "a = b" by (simp add: word_unat_eq_iff)
qed simp

lemma length_hex [simp]: "length (hex bs) = 2 * length bs"
  by (induction bs) (auto simp: hex_def hex_byte_def)

lemma hex_inj: "hex a = hex b \<longleftrightarrow> a = b"
proof
  show "hex a = hex b \<Longrightarrow> a = b"
  proof (induction a arbitrary: b)
    case Nil
    then have "length (hex b) = 0" by (simp add: hex_def)
    then show ?case by simp
  next
    case (Cons x a)
    from Cons.prems have "length (hex (x # a)) = length (hex b)" by simp
    then obtain y b' where b: "b = y # b'" by (cases b) auto
    with Cons.prems have "hex_byte x @ hex a = hex_byte y @ hex b'"
      by (simp add: hex_def)
    then have "hex_byte x = hex_byte y" "hex a = hex b'"
      by (simp_all add: hex_byte_def)
    with Cons.IH b show ?case by (simp add: hex_byte_inj)
  qed
qed simp

definition hasPrefix :: "string \<Rightarrow> string \<Rightarrow> bool" where
  "hasPrefix s p \<longleftrightarrow> take (length p) s = p"

definition hasSuffix :: "string \<Rightarrow> string \<Rightarrow> bool" where
  "hasSuffix s p \<longleftrightarrow> length p \<le> length s \<and> drop (length s - length p) s = p"

definition cutPrefix :: "string \<Rightarrow> string \<Rightarrow> string \<times> bool" where
  "cutPrefix s p = (if hasPrefix s p then (drop (length p) s, True) else (s, False))"

lemma hasPrefix_append [simp]: "hasPrefix (p @ s) p"
  by (simp add: hasPrefix_def)

lemma hasPrefix_iff: "hasPrefix s p \<longleftrightarrow> (\<exists>t. s = p @ t)"
  by (metis append_eq_conv_conj append_take_drop_id hasPrefix_def)

lemma cutPrefix_iff: "cutPrefix s p = (t, True) \<longleftrightarrow> s = p @ t"
  by (auto simp: cutPrefix_def hasPrefix_iff)

section \<open>Decimal numerals\<close>

text \<open>\<^verbatim>\<open>%d\<close> of a non-negative number, and \<open>strconv.ParseUint(s, 10, bits)\<close>.\<close>

definition digit_char :: "nat \<Rightarrow> char" where
  "digit_char d = char_of (48 + d)"

fun itoa :: "nat \<Rightarrow> string" where
  "itoa n = (if n < 10 then [digit_char n] else itoa (n div 10) @ [digit_char (n mod 10)])"

declare itoa.simps [simp del]

definition is_digit :: "char \<Rightarrow> bool" where
  "is_digit c \<longleftrightarrow> (48 :: nat) \<le> of_char c \<and> of_char c \<le> (57 :: nat)"

definition digit_val :: "char \<Rightarrow> nat" where
  "digit_val c = of_char c - 48"

definition decimal :: "string \<Rightarrow> nat" where
  "decimal s = foldl (\<lambda>n c. 10 * n + digit_val c) 0 s"

definition parseUint :: "nat \<Rightarrow> string \<Rightarrow> nat option" where
  "parseUint bits s =
     (if s = [] \<or> \<not> list_all is_digit s then None
      else if decimal s < 2 ^ bits then Some (decimal s) else None)"

lemma digit_char_val [simp]: "d < 10 \<Longrightarrow> digit_val (digit_char d) = d"
  by (simp add: digit_val_def digit_char_def)

lemma digit_char_digit [simp]: "d < 10 \<Longrightarrow> is_digit (digit_char d)"
  by (simp add: is_digit_def digit_char_def)

lemma itoa_nonempty [simp]: "itoa n \<noteq> []"
  by (subst itoa.simps) simp

lemma itoa_digits: "list_all is_digit (itoa n)"
proof (induction n rule: itoa.induct)
  case (1 n)
  then show ?case by (cases "n < 10") (simp_all add: itoa.simps [of n])
qed

lemma decimal_itoa [simp]: "decimal (itoa n) = n"
proof (induction n rule: itoa.induct)
  case (1 n)
  show ?case
  proof (cases "n < 10")
    case True
    then show ?thesis by (simp add: itoa.simps [of n] decimal_def)
  next
    case False
    with "1.IH" have "foldl (\<lambda>n c. 10 * n + digit_val c) 0 (itoa (n div 10)) = n div 10"
      by (simp add: decimal_def)
    with False show ?thesis by (simp add: itoa.simps [of n] decimal_def)
  qed
qed

lemma itoa_inj [simp]: "itoa m = itoa n \<longleftrightarrow> m = n"
  by (metis decimal_itoa)

lemma parseUint_itoa: "parseUint bits (itoa n) = (if n < 2 ^ bits then Some n else None)"
  by (simp add: parseUint_def itoa_digits)

lemma parseUint_bound: "parseUint bits s = Some n \<Longrightarrow> n < 2 ^ bits"
  by (auto simp: parseUint_def split: if_splits)

section \<open>Association of Go maps with HOL maps\<close>

text \<open>
  A Go map that is only read and written at single keys is a HOL map.  A map whose entries are
  also walked or counted is a \<open>mapping\<close>, so that the walk stays executable.
\<close>

lemma mapping_is_empty_iff: "Mapping.is_empty m \<longleftrightarrow> (\<forall>k. Mapping.lookup m k = None)"
  unfolding Mapping.is_empty_def by transfer (auto simp: dom_def)

lemma mapping_lookup_delete:
  "Mapping.lookup (Mapping.delete k m) k' = (if k = k' then None else Mapping.lookup m k')"
  by (cases "k = k'") simp_all

lemmas mapping_simps = lookup_filter lookup_map_values mapping_is_empty_iff mapping_lookup_delete
  lookup_update' lookup_empty

end
