(* ===== verification/JP_Ledger.thy ===== *)
theory JP_Ledger
  imports JP_Prelude
begin

text \<open>
  The settlement ledger of \<^verbatim>\<open>internal/dlt\<close> (\<^verbatim>\<open>types.go\<close>, \<^verbatim>\<open>ledger.go\<close>).  The Go code shares
  transactions by pointer: the caller's transaction, the pending and confirmed pools and the
  history all point to the same object.  The model has an explicit store \<open>lg_heap\<close> from
  references to transactions, and the pools hold references.  The pending pool is an association
  list because one operation walks it: Go's unspecified map iteration order is an index argument
  \<open>pick\<close> that selects the entry the walk meets first.  Amounts and balances are 64-bit words with
  Go's wrap-around; comparisons are signed.
\<close>

section \<open>types.go\<close>

datatype TxStatus = TxPending | TxConfirmed | TxRejected | TxNoStatus

text \<open>A message type is a string; \<open>MsgOther\<close> stands for one that is none of the three constants.\<close>

datatype MsgType = MsgPropose | MsgVote | MsgCommit | MsgOther string

record Transaction =
  tx_ID :: string
  tx_From :: string
  tx_To :: string
  tx_Amount :: int64
  tx_Currency :: string
  tx_PolicyID :: string
  tx_PathFingerprint :: string
  tx_RequestDigest :: string
  tx_ReceiptID :: string
  tx_Status :: TxStatus
  tx_Timestamp :: time
  tx_Nonce :: uint64

record ConsensusMessage =
  cm_Type :: MsgType
  cm_TxID :: string
  cm_ValidatorID :: string
  cm_Round :: uint64
  cm_Payload :: string
  cm_Timestamp :: time

record ValidatorState =
  vs_ID :: string
  vs_Address :: string
  vs_Balance :: "string \<rightharpoonup> int64"
  vs_Nonce :: uint64

record ConsensusResult =
  cres_Confirmed :: bool
  cres_Round :: uint64
  cres_Votes :: nat
  cres_TxID :: string

section \<open>ledger.go\<close>

type_synonym txref = nat

record Ledger =
  lg_heap :: "txref \<Rightarrow> Transaction"
  lg_next :: txref
  lg_validators :: "string \<rightharpoonup> ValidatorState"
  lg_pending :: "(string \<times> txref) list"
  lg_confirmed :: "string \<rightharpoonup> txref"
  lg_allTxs :: "txref list"
  lg_seen :: "string \<Rightarrow> bool"
  lg_currentRound :: uint64

datatype LedgerError =
    UnknownSender string
  | UnknownRecipient string
  | AmountNotPositive int64
  | InsufficientBalance string int64 int64
  | UnknownProposer string
  | NoPendingTransactions
  | ExpectedPropose MsgType
  | NotInPendingPool string
  | InsufficientAtCommit
  | NilValidatorPanic
  | TransactionIsPending string
  | ConfirmedNotFound string
  | AlreadyHasReceipt string string
  | NoValidatorsConfigured

definition emptyTx :: Transaction where
  "emptyTx = \<lparr>tx_ID = '''', tx_From = '''', tx_To = '''', tx_Amount = 0, tx_Currency = '''', tx_PolicyID = '''',
     tx_PathFingerprint = '''', tx_RequestDigest = '''', tx_ReceiptID = '''', tx_Status = TxNoStatus,
     tx_Timestamp = zeroTime, tx_Nonce = 0\<rparr>"

text \<open>Reading a Go map at a missing key gives the zero value.\<close>

definition balance_of :: "ValidatorState \<Rightarrow> string \<Rightarrow> int64" where
  "balance_of v c = (case vs_Balance v c of None \<Rightarrow> 0 | Some b \<Rightarrow> b)"

definition setBalance :: "string \<Rightarrow> int64 \<Rightarrow> ValidatorState \<Rightarrow> ValidatorState" where
  "setBalance c b v = v\<lparr>vs_Balance := (vs_Balance v)(c \<mapsto> b)\<rparr>"

definition NewLedger :: "ValidatorState list \<Rightarrow> Ledger" where
  "NewLedger validators =
     \<lparr>lg_heap = (\<lambda>_. emptyTx), lg_next = 0,
      lg_validators = fold (\<lambda>v m. m(vs_ID v \<mapsto> v)) validators Map.empty,
      lg_pending = [], lg_confirmed = Map.empty, lg_allTxs = [], lg_seen = (\<lambda>_. False), lg_currentRound = 0\<rparr>"

text \<open>The caller allocates the transaction object it submits.\<close>

definition newTx :: "Transaction \<Rightarrow> Ledger \<Rightarrow> txref \<times> Ledger" where
  "newTx tx l = (lg_next l, l\<lparr>lg_heap := (lg_heap l)(lg_next l := tx), lg_next := Suc (lg_next l)\<rparr>)"

definition submitLocked :: "txref \<Rightarrow> time \<Rightarrow> Ledger \<Rightarrow> LedgerError option \<times> Ledger" where
  "submitLocked r now l =
     (let tx = lg_heap l r in
      case lg_validators l (tx_From tx) of
        None \<Rightarrow> (Some (UnknownSender (tx_From tx)), l)
      | Some sender \<Rightarrow>
         (case lg_validators l (tx_To tx) of
            None \<Rightarrow> (Some (UnknownRecipient (tx_To tx)), l)
          | Some _ \<Rightarrow>
              if tx_Amount tx \<le>s 0 then (Some (AmountNotPositive (tx_Amount tx)), l)
              else if balance_of sender (tx_Currency tx) <s tx_Amount tx
                   then (Some (InsufficientBalance (tx_Currency tx) (balance_of sender (tx_Currency tx)) (tx_Amount tx)), l)
              else
                let nonce = vs_Nonce sender + 1;
                    tx' = tx\<lparr>tx_Status := TxPending, tx_Nonce := nonce, tx_Timestamp := now\<rparr>
                in (None, l\<lparr>lg_heap := (lg_heap l)(r := tx'),
                            lg_validators := (lg_validators l)(tx_From tx \<mapsto> sender\<lparr>vs_Nonce := nonce\<rparr>),
                            lg_pending := AList.update (tx_ID tx) r (lg_pending l),
                            lg_allTxs := lg_allTxs l @ [r],
                            lg_seen := (lg_seen l)(tx_ID tx := True)\<rparr>)))"

definition SubmitTransaction :: "txref \<Rightarrow> time \<Rightarrow> Ledger \<Rightarrow> LedgerError option \<times> Ledger" where
  "SubmitTransaction r now l = submitLocked r now l"

definition SubmitTransactionIfAbsent ::
  "txref \<Rightarrow> time \<Rightarrow> Ledger \<Rightarrow> (LedgerError + Transaction option) \<times> Ledger" where
  "SubmitTransactionIfAbsent r now l =
     (let tx = lg_heap l r in
      if lg_seen l (tx_ID tx) then
        (case lg_confirmed l (tx_ID tx) of
           Some existing \<Rightarrow> (Inr (Some (lg_heap l existing)), l)
         | None \<Rightarrow>
             (case map_of (lg_pending l) (tx_ID tx) of
                Some existing \<Rightarrow> (Inr (Some (lg_heap l existing)), l)
              | None \<Rightarrow> (Inr (Some (emptyTx\<lparr>tx_ID := tx_ID tx, tx_Status := TxRejected\<rparr>)), l)))
      else
        (case submitLocked r now l of
           (Some e, l') \<Rightarrow> (Inl e, l')
         | (None, l') \<Rightarrow> (Inr None, l')))"

definition CleanupPending :: "string \<Rightarrow> Ledger \<Rightarrow> Ledger" where
  "CleanupPending txID l =
     (case map_of (lg_pending l) txID of
        None \<Rightarrow> l
      | Some r \<Rightarrow>
          let tx = lg_heap l r;
              l1 = l\<lparr>lg_heap := (lg_heap l)(r := tx\<lparr>tx_Status := TxRejected\<rparr>)\<rparr>;
              l2 = (case lg_validators l1 (tx_From tx) of
                      None \<Rightarrow> l1
                    | Some sender \<Rightarrow>
                        l1\<lparr>lg_validators := (lg_validators l1)(tx_From tx \<mapsto> sender\<lparr>vs_Nonce := vs_Nonce sender - 1\<rparr>)\<rparr>)
          in l2\<lparr>lg_pending := AList.delete txID (lg_pending l2)\<rparr>)"

definition ProposeBlock :: "nat \<Rightarrow> time \<Rightarrow> string \<Rightarrow> Ledger \<Rightarrow> (LedgerError + ConsensusMessage) \<times> Ledger" where
  "ProposeBlock pick now validatorID l =
     (case lg_validators l validatorID of
        None \<Rightarrow> (Inl (UnknownProposer validatorID), l)
      | Some _ \<Rightarrow>
          if lg_pending l = [] then (Inl NoPendingTransactions, l)
          else
            let target = lg_heap l (snd (lg_pending l ! (pick mod length (lg_pending l))));
                l' = l\<lparr>lg_currentRound := lg_currentRound l + 1\<rparr>
            in (Inr \<lparr>cm_Type = MsgPropose, cm_TxID = tx_ID target, cm_ValidatorID = validatorID,
                     cm_Round = lg_currentRound l', cm_Payload = '''', cm_Timestamp = now\<rparr>, l'))"

definition Vote :: "time \<Rightarrow> ConsensusMessage \<Rightarrow> Ledger \<Rightarrow> LedgerError + ConsensusMessage" where
  "Vote now msg l =
     (if cm_Type msg \<noteq> MsgPropose then Inl (ExpectedPropose (cm_Type msg))
      else case map_of (lg_pending l) (cm_TxID msg) of
        None \<Rightarrow> Inl (NotInPendingPool (cm_TxID msg))
      | Some r \<Rightarrow>
          let tx = lg_heap l r in
          (case lg_validators l (tx_From tx) of
             None \<Rightarrow> Inl (UnknownSender (tx_From tx))
           | Some sender \<Rightarrow>
               Inr \<lparr>cm_Type = MsgVote, cm_TxID = cm_TxID msg, cm_ValidatorID = cm_ValidatorID msg, cm_Round = cm_Round msg,
                    cm_Payload = (if tx_Amount tx \<le>s balance_of sender (tx_Currency tx) then ''yes'' else ''no''),
                    cm_Timestamp = now\<rparr>))"

text \<open>
  A missing sender or recipient would be a nil dereference.  Sender and recipient may be the same
  validator: the credit reads the balance after the debit.
\<close>

definition Commit :: "ConsensusMessage \<Rightarrow> Ledger \<Rightarrow> LedgerError option \<times> Ledger" where
  "Commit msg l =
     (case map_of (lg_pending l) (cm_TxID msg) of
        None \<Rightarrow> (Some (NotInPendingPool (cm_TxID msg)), l)
      | Some r \<Rightarrow>
          let tx = lg_heap l r; c = tx_Currency tx in
          (case lg_validators l (tx_From tx) of
             None \<Rightarrow> (Some NilValidatorPanic, l)
           | Some sender \<Rightarrow>
               if balance_of sender c <s tx_Amount tx then
                 (Some InsufficientAtCommit,
                  l\<lparr>lg_heap := (lg_heap l)(r := tx\<lparr>tx_Status := TxRejected\<rparr>),
                    lg_pending := AList.delete (tx_ID tx) (lg_pending l)\<rparr>)
               else
                 let vals1 = (lg_validators l)(tx_From tx \<mapsto> setBalance c (balance_of sender c - tx_Amount tx) sender) in
                 (case vals1 (tx_To tx) of
                    None \<Rightarrow> (Some NilValidatorPanic, l\<lparr>lg_validators := vals1\<rparr>)
                  | Some recipient \<Rightarrow>
                      (None,
                       l\<lparr>lg_validators := vals1(tx_To tx \<mapsto> setBalance c (balance_of recipient c + tx_Amount tx) recipient),
                         lg_heap := (lg_heap l)(r := tx\<lparr>tx_Status := TxConfirmed\<rparr>),
                         lg_pending := AList.delete (tx_ID tx) (lg_pending l),
                         lg_confirmed := (lg_confirmed l)(tx_ID tx \<mapsto> r)\<rparr>))))"

text \<open>The clone Go returns beside an error is part of the error here.\<close>

definition AttachReceipt :: "string \<Rightarrow> string \<Rightarrow> Ledger \<Rightarrow> (LedgerError + Transaction) \<times> Ledger" where
  "AttachReceipt txID receiptID l =
     (case lg_confirmed l txID of
        None \<Rightarrow>
          (if map_of (lg_pending l) txID \<noteq> None then (Inl (TransactionIsPending txID), l)
           else (Inl (ConfirmedNotFound txID), l))
      | Some r \<Rightarrow>
          let tx = lg_heap l r in
          if tx_ReceiptID tx \<noteq> '''' then
            (if tx_ReceiptID tx \<noteq> receiptID then (Inl (AlreadyHasReceipt txID (tx_ReceiptID tx)), l)
             else (Inr tx, l))
          else let tx' = tx\<lparr>tx_ReceiptID := receiptID\<rparr>
               in (Inr tx', l\<lparr>lg_heap := (lg_heap l)(r := tx')\<rparr>))"

definition GetBalance :: "string \<Rightarrow> string \<Rightarrow> Ledger \<Rightarrow> int64" where
  "GetBalance validatorID currency l =
     (case lg_validators l validatorID of None \<Rightarrow> 0 | Some v \<Rightarrow> balance_of v currency)"

definition GetTransaction :: "string \<Rightarrow> Ledger \<Rightarrow> Transaction option" where
  "GetTransaction txID l =
     (case lg_confirmed l txID of
        Some r \<Rightarrow> Some (lg_heap l r)
      | None \<Rightarrow> (case map_of (lg_pending l) txID of Some r \<Rightarrow> Some (lg_heap l r) | None \<Rightarrow> None))"

definition ListTransactions :: "Ledger \<Rightarrow> Transaction list" where
  "ListTransactions l = map (lg_heap l) (lg_allTxs l)"

text \<open>\<open>order\<close> is the order in which the walk over the validator map meets its keys.\<close>

definition GetValidators :: "string list \<Rightarrow> Ledger \<Rightarrow> ValidatorState list" where
  "GetValidators order l = List.map_filter (lg_validators l) order"

definition CurrentRound :: "Ledger \<Rightarrow> uint64" where
  "CurrentRound l = lg_currentRound l"

section \<open>Supply\<close>

text \<open>The sum of a quantity over all entries of a finite map, and how one update changes it.\<close>

definition total :: "('v \<Rightarrow> 'n :: ab_group_add) \<Rightarrow> ('k \<rightharpoonup> 'v) \<Rightarrow> 'n" where
  "total f m = (\<Sum>k\<in>dom m. f (the (m k)))"

lemma total_upd:
  assumes "finite (dom m)" "m k = Some v"
  shows "total f (m(k \<mapsto> v')) = total f m - f v + f v'"
proof -
  from assms(2) have k: "k \<in> dom m" by auto
  have r: "(\<Sum>x\<in>dom m - {k}. f (the ((m(k \<mapsto> v')) x))) = (\<Sum>x\<in>dom m - {k}. f (the (m x)))"
    by (rule sum.cong) auto
  have "total f m = f v + (\<Sum>x\<in>dom m - {k}. f (the (m x)))"
    unfolding total_def using sum.remove [OF assms(1) k, of "\<lambda>x. f (the (m x))"] assms(2) by simp
  moreover have "total f (m(k \<mapsto> v')) = f v' + (\<Sum>x\<in>dom m - {k}. f (the (m x)))"
    unfolding total_def using sum.remove [OF assms(1) k, of "\<lambda>x. f (the ((m(k \<mapsto> v')) x))"] k r
    by (simp add: insert_absorb)
  ultimately show ?thesis by simp
qed

lemma total_upd_same:
  "finite (dom m) \<Longrightarrow> m k = Some v \<Longrightarrow> f v' = f v \<Longrightarrow> total f (m(k \<mapsto> v')) = total f m"
  by (simp add: total_upd)

lemma total_nonneg_member:
  fixes f :: "'v \<Rightarrow> int"
  assumes "finite (dom m)" "m k = Some v" "\<forall>x\<in>ran m. 0 \<le> f x"
  shows "f v \<le> total f m"
proof -
  from assms(2) have k: "k \<in> dom m" by auto
  have "0 \<le> (\<Sum>x\<in>dom m - {k}. f (the (m x)))"
    by (rule sum_nonneg) (use assms(3) in \<open>auto simp: ran_def\<close>)
  then show ?thesis
    unfolding total_def using sum.remove [OF assms(1) k, of "\<lambda>x. f (the (m x))"] assms(2) by simp
qed

lemma total_two_members:
  fixes f :: "'v \<Rightarrow> int"
  assumes "finite (dom m)" "m k = Some v" "m j = Some w" "k \<noteq> j" "\<forall>x\<in>ran m. 0 \<le> f x"
  shows "f v + f w \<le> total f m"
proof -
  from assms have k: "k \<in> dom m" and j: "j \<in> dom m - {k}" by auto
  have "0 \<le> (\<Sum>x\<in>dom m - {k} - {j}. f (the (m x)))"
    by (rule sum_nonneg) (use assms(5) in \<open>auto simp: ran_def\<close>)
  then show ?thesis
    unfolding total_def
    using sum.remove [OF assms(1) k, of "\<lambda>x. f (the (m x))"]
      sum.remove [of "dom m - {k}" j "\<lambda>x. f (the (m x))"] j assms(1-3) by simp
qed

section \<open>The ledger invariant\<close>

definition supplyW :: "string \<Rightarrow> Ledger \<Rightarrow> int64" where
  "supplyW c l = total (\<lambda>v. balance_of v c) (lg_validators l)"

definition supplyZ :: "string \<Rightarrow> Ledger \<Rightarrow> int" where
  "supplyZ c l = total (\<lambda>v. sint (balance_of v c)) (lg_validators l)"

definition solvent :: "string \<Rightarrow> Ledger \<Rightarrow> bool" where
  "solvent c l \<longleftrightarrow> (\<forall>v\<in>ran (lg_validators l). 0 \<le> sint (balance_of v c))"

text \<open>
  Every pending entry is filed under its own identifier, is an allocated object with a positive
  amount, and names known validators.
\<close>

definition pending_ok :: "Ledger \<Rightarrow> bool" where
  "pending_ok l \<longleftrightarrow>
     (\<forall>i r. map_of (lg_pending l) i = Some r \<longrightarrow>
        r < lg_next l \<and> tx_ID (lg_heap l r) = i \<and> 0 < sint (tx_Amount (lg_heap l r)) \<and>
        lg_validators l (tx_From (lg_heap l r)) \<noteq> None \<and> lg_validators l (tx_To (lg_heap l r)) \<noteq> None)"

definition confirmed_ok :: "Ledger \<Rightarrow> bool" where
  "confirmed_ok l \<longleftrightarrow>
     (\<forall>i r. lg_confirmed l i = Some r \<longrightarrow> r < lg_next l \<and> tx_ID (lg_heap l r) = i \<and> lg_seen l i) \<and>
     (\<forall>i r. map_of (lg_pending l) i = Some r \<longrightarrow> lg_seen l i)"

definition ledger_inv :: "Ledger \<Rightarrow> bool" where
  "ledger_inv l \<longleftrightarrow> finite (dom (lg_validators l)) \<and> pending_ok l \<and> confirmed_ok l"

text \<open>The operations that may change a ledger, in any order; callers only pass allocated transactions.\<close>

inductive ledger_step :: "Ledger \<Rightarrow> Ledger \<Rightarrow> bool" where
  allocate: "ledger_step l (snd (newTx tx l))"
| submitted: "r < lg_next l \<Longrightarrow> ledger_step l (snd (SubmitTransaction r now l))"
| submitIfAbsent: "r < lg_next l \<Longrightarrow> ledger_step l (snd (SubmitTransactionIfAbsent r now l))"
| cleaned: "ledger_step l (CleanupPending txID l)"
| proposed: "ledger_step l (snd (ProposeBlock pick now v l))"
| committed: "ledger_step l (snd (Commit msg l))"
| attached: "ledger_step l (snd (AttachReceipt txID rid l))"

inductive ledger_reach :: "Ledger \<Rightarrow> Ledger \<Rightarrow> bool" where
  reach_refl: "ledger_reach l l"
| reach_step: "ledger_reach l l1 \<Longrightarrow> ledger_step l1 l2 \<Longrightarrow> ledger_reach l l2"

lemma setBalance_simps [simp]:
  "balance_of (setBalance c b v) c' = (if c' = c then b else balance_of v c')"
  "vs_Nonce (setBalance c b v) = vs_Nonce v"
  by (simp_all add: setBalance_def balance_of_def)

lemma balance_of_nonce [simp]: "balance_of (v\<lparr>vs_Nonce := n\<rparr>) c = balance_of v c"
  by (simp add: balance_of_def)

lemma submitLocked_cases:
  obtains (err) e where "submitLocked r now l = (Some e, l)"
  | (ok) sender where "lg_validators l (tx_From (lg_heap l r)) = Some sender"
      "lg_validators l (tx_To (lg_heap l r)) \<noteq> None" "0 < sint (tx_Amount (lg_heap l r))"
      "sint (tx_Amount (lg_heap l r)) \<le> sint (balance_of sender (tx_Currency (lg_heap l r)))"
      "submitLocked r now l = (None, l\<lparr>lg_heap := (lg_heap l)(r := (lg_heap l r)\<lparr>tx_Status := TxPending,
          tx_Nonce := vs_Nonce sender + 1, tx_Timestamp := now\<rparr>),
        lg_validators := (lg_validators l)(tx_From (lg_heap l r) \<mapsto> sender\<lparr>vs_Nonce := vs_Nonce sender + 1\<rparr>),
        lg_pending := AList.update (tx_ID (lg_heap l r)) r (lg_pending l),
        lg_allTxs := lg_allTxs l @ [r], lg_seen := (lg_seen l)(tx_ID (lg_heap l r) := True)\<rparr>)"
proof (cases "lg_validators l (tx_From (lg_heap l r))")
  case None
  with err show thesis by (simp add: submitLocked_def Let_def)
next
  case (Some sender)
  show thesis
  proof (cases "lg_validators l (tx_To (lg_heap l r)) = None \<or> tx_Amount (lg_heap l r) \<le>s 0 \<or>
      balance_of sender (tx_Currency (lg_heap l r)) <s tx_Amount (lg_heap l r)")
    case True
    with Some have "\<exists>e. submitLocked r now l = (Some e, l)"
      by (auto simp: submitLocked_def Let_def split: option.splits)
    with err show thesis by blast
  next
    case False
    then have "0 < sint (tx_Amount (lg_heap l r))"
      "sint (tx_Amount (lg_heap l r)) \<le> sint (balance_of sender (tx_Currency (lg_heap l r)))"
      by (simp_all add: word_sle_eq word_sless_alt)
    with Some False ok show thesis by (auto simp: submitLocked_def Let_def)
  qed
qed

lemma Commit_cases [consumes 1, case_names missing poor ok]:
  assumes "ledger_inv l"
  obtains (missing) e where "map_of (lg_pending l) (cm_TxID msg) = None" "Commit msg l = (Some e, l)"
  | (poor) r where "map_of (lg_pending l) (cm_TxID msg) = Some r"
      "Commit msg l = (Some InsufficientAtCommit, l\<lparr>lg_heap := (lg_heap l)(r := (lg_heap l r)\<lparr>tx_Status := TxRejected\<rparr>),
         lg_pending := AList.delete (cm_TxID msg) (lg_pending l)\<rparr>)"
  | (ok) r sender recipient where "map_of (lg_pending l) (cm_TxID msg) = Some r"
      "lg_validators l (tx_From (lg_heap l r)) = Some sender"
      "0 < sint (tx_Amount (lg_heap l r))"
      "sint (tx_Amount (lg_heap l r)) \<le> sint (balance_of sender (tx_Currency (lg_heap l r)))"
      "((lg_validators l)(tx_From (lg_heap l r) \<mapsto> setBalance (tx_Currency (lg_heap l r))
          (balance_of sender (tx_Currency (lg_heap l r)) - tx_Amount (lg_heap l r)) sender)) (tx_To (lg_heap l r)) = Some recipient"
      "Commit msg l = (None, l\<lparr>
         lg_validators := ((lg_validators l)(tx_From (lg_heap l r) \<mapsto> setBalance (tx_Currency (lg_heap l r))
            (balance_of sender (tx_Currency (lg_heap l r)) - tx_Amount (lg_heap l r)) sender))
            (tx_To (lg_heap l r) \<mapsto> setBalance (tx_Currency (lg_heap l r))
              (balance_of recipient (tx_Currency (lg_heap l r)) + tx_Amount (lg_heap l r)) recipient),
         lg_heap := (lg_heap l)(r := (lg_heap l r)\<lparr>tx_Status := TxConfirmed\<rparr>),
         lg_pending := AList.delete (cm_TxID msg) (lg_pending l),
         lg_confirmed := (lg_confirmed l)(cm_TxID msg \<mapsto> r)\<rparr>)"
proof (cases "map_of (lg_pending l) (cm_TxID msg)")
  case None
  with missing show thesis by (simp add: Commit_def)
next
  case (Some r)
  let ?tx = "lg_heap l r"
  from assms Some have tx: "tx_ID ?tx = cm_TxID msg" "0 < sint (tx_Amount ?tx)"
    and v: "lg_validators l (tx_From ?tx) \<noteq> None" "lg_validators l (tx_To ?tx) \<noteq> None"
    unfolding ledger_inv_def pending_ok_def by blast+
  from v(1) obtain sender where s: "lg_validators l (tx_From ?tx) = Some sender" by blast
  show thesis
  proof (cases "balance_of sender (tx_Currency ?tx) <s tx_Amount ?tx")
    case True
    with Some s tx poor show thesis by (simp add: Commit_def Let_def)
  next
    case False
    let ?m = "(lg_validators l)(tx_From ?tx \<mapsto> setBalance (tx_Currency ?tx) (balance_of sender (tx_Currency ?tx) - tx_Amount ?tx) sender)"
    from v(2) obtain recipient where rc: "?m (tx_To ?tx) = Some recipient" by (cases "tx_To ?tx = tx_From ?tx") auto
    from False have "sint (tx_Amount ?tx) \<le> sint (balance_of sender (tx_Currency ?tx))" by (simp add: word_sless_alt)
    moreover have "Commit msg l = (None, l\<lparr>
         lg_validators := ?m(tx_To ?tx \<mapsto> setBalance (tx_Currency ?tx) (balance_of recipient (tx_Currency ?tx) + tx_Amount ?tx) recipient),
         lg_heap := (lg_heap l)(r := ?tx\<lparr>tx_Status := TxConfirmed\<rparr>),
         lg_pending := AList.delete (cm_TxID msg) (lg_pending l),
         lg_confirmed := (lg_confirmed l)(cm_TxID msg \<mapsto> r)\<rparr>)"
      using Some s False rc tx(1) unfolding Commit_def Let_def by simp
    ultimately show thesis using ok [OF Some s tx(2) _ rc] by blast
  qed
qed

section \<open>The invariant is kept\<close>

lemma finite_NewLedger: "finite (dom (fold (\<lambda>v m. m(f v \<mapsto> v)) vs m)) \<longleftrightarrow> finite (dom m)"
  by (induction vs arbitrary: m) auto

lemma ledger_inv_New: "ledger_inv (NewLedger vs)"
  by (simp add: ledger_inv_def NewLedger_def pending_ok_def confirmed_ok_def finite_NewLedger)

text \<open>
  All operations keep the fields of a transaction the invariant speaks about, so it is enough to
  see what they do to the pools.
\<close>

definition tx_core :: "Transaction \<Rightarrow> string \<times> string \<times> string \<times> int64" where
  "tx_core tx = (tx_ID tx, tx_From tx, tx_To tx, tx_Amount tx)"

lemma tx_core_upd [simp]:
  "tx_core (tx\<lparr>tx_Status := st\<rparr>) = tx_core tx" "tx_core (tx\<lparr>tx_Nonce := n\<rparr>) = tx_core tx"
  "tx_core (tx\<lparr>tx_Timestamp := t\<rparr>) = tx_core tx" "tx_core (tx\<lparr>tx_ReceiptID := i\<rparr>) = tx_core tx"
  by (simp_all add: tx_core_def)

lemma tx_coreD:
  "tx_core a = tx_core b \<Longrightarrow> tx_ID a = tx_ID b \<and> tx_From a = tx_From b \<and> tx_To a = tx_To b \<and> tx_Amount a = tx_Amount b"
  by (simp add: tx_core_def)

definition fileable :: "Ledger \<Rightarrow> string \<Rightarrow> txref \<Rightarrow> bool" where
  "fileable l i r \<longleftrightarrow> r < lg_next l \<and> tx_ID (lg_heap l r) = i \<and> 0 < sint (tx_Amount (lg_heap l r)) \<and>
     tx_From (lg_heap l r) \<in> dom (lg_validators l) \<and> tx_To (lg_heap l r) \<in> dom (lg_validators l)"

lemma ledger_inv_iff:
  "ledger_inv l \<longleftrightarrow> finite (dom (lg_validators l)) \<and>
     (\<forall>i r. map_of (lg_pending l) i = Some r \<longrightarrow> fileable l i r \<and> lg_seen l i) \<and>
     (\<forall>i r. lg_confirmed l i = Some r \<longrightarrow> r < lg_next l \<and> tx_ID (lg_heap l r) = i \<and> lg_seen l i)"
  unfolding ledger_inv_def pending_ok_def confirmed_ok_def fileable_def domIff by blast

lemma ledger_inv_frame:
  assumes inv: "ledger_inv l"
    and dom: "dom (lg_validators l') = dom (lg_validators l)"
    and heap: "\<And>r. r < lg_next l \<Longrightarrow> tx_core (lg_heap l' r) = tx_core (lg_heap l r)"
    and nxt: "lg_next l \<le> lg_next l'"
    and pend: "\<And>i r. map_of (lg_pending l') i = Some r \<Longrightarrow>
        map_of (lg_pending l) i = Some r \<or> fileable l i r \<and> lg_seen l' i"
    and conf: "\<And>i r. lg_confirmed l' i = Some r \<Longrightarrow> lg_confirmed l i = Some r \<or> map_of (lg_pending l) i = Some r"
    and seen: "\<And>i. lg_seen l i \<Longrightarrow> lg_seen l' i"
  shows "ledger_inv l'"
proof -
  have f: "fileable l' i r" if "fileable l i r" for i r
    using that dom nxt tx_coreD [OF heap [of r]] by (auto simp: fileable_def)
  have old: "fileable l i r \<and> lg_seen l i" if "map_of (lg_pending l) i = Some r" for i r
    using inv that unfolding ledger_inv_iff by blast
  have oldc: "r < lg_next l \<and> tx_ID (lg_heap l r) = i \<and> lg_seen l i" if "lg_confirmed l i = Some r" for i r
    using inv that unfolding ledger_inv_iff by blast
  have "r < lg_next l' \<and> tx_ID (lg_heap l' r) = i \<and> lg_seen l' i" if "lg_confirmed l' i = Some r" for i r
  proof -
    have "r < lg_next l \<and> tx_ID (lg_heap l r) = i \<and> lg_seen l i"
      using conf [OF that] old [of i r] oldc [of i r] by (auto simp: fileable_def)
    with tx_coreD [OF heap [of r]] nxt seen [of i] show ?thesis by auto
  qed
  moreover have "fileable l' i r \<and> lg_seen l' i" if "map_of (lg_pending l') i = Some r" for i r
    using pend [OF that] f [of i r] old [of i r] seen [of i] by blast
  moreover have "finite (dom (lg_validators l'))" using inv dom unfolding ledger_inv_iff by simp
  ultimately show ?thesis unfolding ledger_inv_iff by blast
qed

lemma dom_upd_known: "m k = Some v \<Longrightarrow> dom (m(k \<mapsto> w)) = dom m"
  by auto

lemma ledger_inv_alloc: "ledger_inv l \<Longrightarrow> ledger_inv (snd (newTx tx l))"
  by (erule ledger_inv_frame) (simp_all add: newTx_def)

lemma ledger_inv_submit:
  assumes "ledger_inv l" "r < lg_next l"
  shows "ledger_inv (snd (submitLocked r now l))"
proof (cases rule: submitLocked_cases [of r now l])
  case (err e)
  with assms show ?thesis by simp
next
  case (ok sender)
  show ?thesis
    by (rule ledger_inv_frame [OF assms(1)])
       (use ok assms(2) in \<open>auto simp: update_conv' fileable_def domIff dom_upd_known split: if_splits\<close>)
qed

lemma ledger_inv_submitIfAbsent:
  assumes "ledger_inv l" "r < lg_next l"
  shows "ledger_inv (snd (SubmitTransactionIfAbsent r now l))"
  using assms ledger_inv_submit [OF assms, of now]
  by (auto simp: SubmitTransactionIfAbsent_def Let_def split: option.split prod.split)

lemma ledger_inv_cleanup: "ledger_inv l \<Longrightarrow> ledger_inv (CleanupPending txID l)"
  by (erule ledger_inv_frame)
     (auto simp: CleanupPending_def Let_def delete_conv' split: option.splits if_splits)

lemma ledger_inv_propose: "ledger_inv l \<Longrightarrow> ledger_inv (snd (ProposeBlock pick now v l))"
  by (erule ledger_inv_frame) (auto simp: ProposeBlock_def Let_def split: option.splits if_splits)

lemma ledger_inv_commit:
  assumes "ledger_inv l"
  shows "ledger_inv (snd (Commit msg l))"
  using assms
proof (cases rule: Commit_cases [where msg = msg])
  case (missing e)
  with assms show ?thesis by simp
next
  case (poor r)
  show ?thesis
    by (rule ledger_inv_frame [OF assms]) (use poor in \<open>auto simp: delete_conv' split: if_splits\<close>)
next
  case (ok r sender recipient)
  show ?thesis
    by (rule ledger_inv_frame [OF assms]) (use ok in \<open>auto simp: delete_conv' split: if_splits\<close>)
qed

lemma ledger_inv_attach: "ledger_inv l \<Longrightarrow> ledger_inv (snd (AttachReceipt txID rid l))"
  by (erule ledger_inv_frame) (auto simp: AttachReceipt_def Let_def split: option.splits if_splits)

lemma ledger_inv_step: "ledger_step l l' \<Longrightarrow> ledger_inv l \<Longrightarrow> ledger_inv l'"
  by (induction rule: ledger_step.induct)
     (simp_all add: ledger_inv_alloc ledger_inv_submit ledger_inv_submitIfAbsent ledger_inv_cleanup
       ledger_inv_propose ledger_inv_commit ledger_inv_attach SubmitTransaction_def)

section \<open>Conservation of money\<close>

lemma sint_diff_le: "0 \<le> sint (a :: int64) \<Longrightarrow> sint a \<le> sint b \<Longrightarrow> sint (b - a) = sint b - sint a"
  using sint_lt [of b] sint_ge [of b]
  by (simp add: sint_word_diff signed_take_bit_int_eq_self)

lemma sint_add_lt: "0 \<le> sint (a :: int64) \<Longrightarrow> 0 \<le> sint b \<Longrightarrow> sint a + sint b < 2 ^ 63 \<Longrightarrow> sint (b + a) = sint b + sint a"
  by (simp add: sint_word_add signed_take_bit_int_eq_self)

definition same_funds :: "Ledger \<Rightarrow> Ledger \<Rightarrow> bool" where
  "same_funds l l' \<longleftrightarrow>
     (\<forall>k. map_option vs_Balance (lg_validators l' k) = map_option vs_Balance (lg_validators l k))"

lemma same_funds_dom: "same_funds l l' \<Longrightarrow> dom (lg_validators l') = dom (lg_validators l)"
proof -
  assume "same_funds l l'"
  then have "lg_validators l' k = None \<longleftrightarrow> lg_validators l k = None" for k
    unfolding same_funds_def by (metis map_option_is_None)
  then show ?thesis by (simp add: dom_def)
qed

lemma same_funds_balance:
  assumes "same_funds l l'" "lg_validators l' k = Some v'" "lg_validators l k = Some v"
  shows "balance_of v' c = balance_of v c"
proof -
  from assms(1) have "map_option vs_Balance (lg_validators l' k) = map_option vs_Balance (lg_validators l k)"
    by (simp add: same_funds_def)
  with assms(2,3) show ?thesis by (simp add: balance_of_def)
qed

lemma same_funds_total:
  assumes "same_funds l l'"
  shows "total (\<lambda>v. f (balance_of v c)) (lg_validators l') = total (\<lambda>v. f (balance_of v c)) (lg_validators l)"
  unfolding total_def same_funds_dom [OF assms]
proof (rule sum.cong [OF refl])
  fix k assume k: "k \<in> dom (lg_validators l)"
  then obtain v where v: "lg_validators l k = Some v" by blast
  from k same_funds_dom [OF assms] obtain v' where "lg_validators l' k = Some v'" by blast
  with v same_funds_balance [OF assms this v] show "f (balance_of (the (lg_validators l' k)) c) = f (balance_of (the (lg_validators l k)) c)"
    by simp
qed

lemma same_funds_sym: "same_funds l l' \<Longrightarrow> same_funds l' l"
  by (simp add: same_funds_def)

lemma same_funds_solvent: "same_funds l l' \<Longrightarrow> solvent c l \<Longrightarrow> solvent c l'"
proof -
  assume s: "same_funds l l'" and sv: "solvent c l"
  have "0 \<le> sint (balance_of v' c)" if v': "lg_validators l' k = Some v'" for k v'
  proof -
    from v' same_funds_dom [OF s] obtain v where v: "lg_validators l k = Some v" by blast
    with sv have "0 \<le> sint (balance_of v c)" by (auto simp: solvent_def ran_def)
    with same_funds_balance [OF s v' v] show ?thesis by simp
  qed
  then show ?thesis by (auto simp: solvent_def ran_def)
qed

lemma same_funds_simps:
  assumes "same_funds l l'"
  shows "supplyW c l' = supplyW c l" "supplyZ c l' = supplyZ c l" "solvent c l' = solvent c l"
    "GetBalance i c l' = GetBalance i c l"
proof -
  show "supplyW c l' = supplyW c l" "supplyZ c l' = supplyZ c l"
    unfolding supplyW_def supplyZ_def
    by (rule same_funds_total [OF assms, of "\<lambda>x. x"], rule same_funds_total [OF assms])
  show "solvent c l' = solvent c l"
    using assms same_funds_solvent same_funds_sym by blast
  show "GetBalance i c l' = GetBalance i c l"
  proof (cases "lg_validators l i")
    case None
    with same_funds_dom [OF assms] have "lg_validators l' i = None" by (metis domIff)
    with None show ?thesis by (simp add: GetBalance_def)
  next
    case (Some v)
    with same_funds_dom [OF assms] obtain v' where "lg_validators l' i = Some v'" by blast
    with Some same_funds_balance [OF assms this Some] show ?thesis by (simp add: GetBalance_def)
  qed
qed

lemma same_funds_ops:
  "same_funds l (snd (newTx tx l))"
  "same_funds l (snd (submitLocked r now l))"
  "same_funds l (snd (SubmitTransactionIfAbsent r now l))"
  "same_funds l (CleanupPending txID l)"
  "same_funds l (snd (ProposeBlock pick now v l))"
  "same_funds l (snd (AttachReceipt txID rid l))"
proof -
  show s: "same_funds l (snd (submitLocked r now l))"
    by (cases rule: submitLocked_cases [of r now l]) (auto simp: same_funds_def)
  then show "same_funds l (snd (SubmitTransactionIfAbsent r now l))"
    by (auto simp: SubmitTransactionIfAbsent_def Let_def same_funds_def split: option.splits prod.splits)
qed (auto simp: same_funds_def newTx_def CleanupPending_def ProposeBlock_def AttachReceipt_def Let_def
      split: option.splits)

lemma same_funds_refl [simp]: "same_funds l l"
  by (simp add: same_funds_def)

lemma ran_updD: "v \<in> ran (m(k \<mapsto> w)) \<Longrightarrow> v = w \<or> v \<in> ran m"
  by (auto simp: ran_def split: if_splits)

text \<open>What a successful commit does to the balances.\<close>

lemma Commit_supply:
  assumes "ledger_inv l"
  shows "supplyW c (snd (Commit msg l)) = supplyW c l"
    and "solvent c l \<Longrightarrow> supplyZ c l < 2 ^ 63 \<Longrightarrow>
      solvent c (snd (Commit msg l)) \<and> supplyZ c (snd (Commit msg l)) = supplyZ c l"
proof -
  have "supplyW c (snd (Commit msg l)) = supplyW c l \<and>
    (solvent c l \<longrightarrow> supplyZ c l < 2 ^ 63 \<longrightarrow>
      solvent c (snd (Commit msg l)) \<and> supplyZ c (snd (Commit msg l)) = supplyZ c l)"
    using assms
  proof (cases rule: Commit_cases [where msg = msg])
    case (missing e)
    then show ?thesis by simp
  next
    case (poor r)
    then have "same_funds l (snd (Commit msg l))" by (simp add: same_funds_def)
    then show ?thesis by (simp add: same_funds_simps)
  next
    case (ok r sender recipient)
    let ?m = "lg_validators l" and ?F = "tx_From (lg_heap l r)" and ?T = "tx_To (lg_heap l r)"
    let ?cur = "tx_Currency (lg_heap l r)" and ?a = "tx_Amount (lg_heap l r)"
    let ?s' = "setBalance ?cur (balance_of sender ?cur - ?a) sender"
    let ?m1 = "?m(?F \<mapsto> ?s')"
    let ?r' = "setBalance ?cur (balance_of recipient ?cur + ?a) recipient"
    have fin: "finite (dom ?m)" using assms by (simp add: ledger_inv_def)
    have l': "lg_validators (snd (Commit msg l)) = ?m1(?T \<mapsto> ?r')" using ok by simp
    have fin1: "finite (dom ?m1)" using fin by simp
    note u1 = total_upd [OF fin ok(2)] and u2 = total_upd [where m = ?m1 and k = ?T and v = recipient, OF fin1 ok(5)]
    have W: "supplyW c (snd (Commit msg l)) = supplyW c l"
      unfolding supplyW_def l' u2 u1 by simp
    show ?thesis
    proof (intro conjI impI)
      assume sv: "solvent c l" and lim: "supplyZ c l < 2 ^ 63"
      have nn: "\<forall>v\<in>ran ?m. 0 \<le> sint (balance_of v c)" using sv by (simp add: solvent_def)
      have s': "sint (balance_of ?s' c) = (if c = ?cur then sint (balance_of sender c) - sint ?a else sint (balance_of sender c))"
        using ok(3,4) by (auto intro: sint_diff_le)
      have nn1: "\<forall>v\<in>ran ?m1. 0 \<le> sint (balance_of v c)"
      proof
        fix v assume "v \<in> ran ?m1"
        from ran_updD [OF this] consider "v = ?s'" | "v \<in> ran ?m" by blast
        then show "0 \<le> sint (balance_of v c)"
          using nn s' ok(2,4) by cases (auto simp: ran_def)
      qed
      have t1: "total (\<lambda>v. sint (balance_of v c)) ?m1 = supplyZ c l - (if c = ?cur then sint ?a else 0)"
        unfolding supplyZ_def u1 s' by simp
      have rb: "sint (balance_of recipient c) \<le> total (\<lambda>v. sint (balance_of v c)) ?m1"
        by (rule total_nonneg_member [where m = ?m1 and k = ?T and v = recipient, OF fin1 ok(5)]) (rule nn1)
      have rn: "0 \<le> sint (balance_of recipient c)" using nn1 ok(5) by (auto simp: ran_def)
      have r': "sint (balance_of ?r' c) = (if c = ?cur then sint (balance_of recipient c) + sint ?a else sint (balance_of recipient c))"
        using rb rn t1 lim ok(3) by (auto intro!: sint_add_lt)
      show "supplyZ c (snd (Commit msg l)) = supplyZ c l"
        unfolding supplyZ_def l' u2 t1 r' by (simp add: supplyZ_def)
      show "solvent c (snd (Commit msg l))"
        unfolding solvent_def l'
      proof
        fix v assume "v \<in> ran (?m1(?T \<mapsto> ?r'))"
        from ran_updD [OF this] consider "v = ?r'" | "v \<in> ran ?m1" by blast
        then show "0 \<le> sint (balance_of v c)"
          using nn1 r' rn ok(3) by cases auto
      qed
    qed (rule W)
  qed
  then show "supplyW c (snd (Commit msg l)) = supplyW c l"
    and "solvent c l \<Longrightarrow> supplyZ c l < 2 ^ 63 \<Longrightarrow>
      solvent c (snd (Commit msg l)) \<and> supplyZ c (snd (Commit msg l)) = supplyZ c l" by blast+
qed

lemma ledger_inv_reach: "ledger_reach l l' \<Longrightarrow> ledger_inv l \<Longrightarrow> ledger_inv l'"
  by (induction rule: ledger_reach.induct) (auto intro: ledger_inv_step)

lemma ledger_reach_trans: "ledger_reach l1 l2 \<Longrightarrow> ledger_reach l l1 \<Longrightarrow> ledger_reach l l2"
  by (induction rule: ledger_reach.induct) (auto intro: reach_step)

lemma ledger_reach_one: "ledger_step l l' \<Longrightarrow> ledger_reach l l'"
  by (rule reach_step [OF reach_refl])

lemma step_conserves:
  assumes "ledger_step l l'" "ledger_inv l"
  shows "supplyW c l' = supplyW c l"
    and "solvent c l \<Longrightarrow> supplyZ c l < 2 ^ 63 \<Longrightarrow> solvent c l' \<and> supplyZ c l' = supplyZ c l"
proof -
  have "same_funds l l' \<or> (\<exists>msg. l' = snd (Commit msg l))"
    using assms(1) by (cases rule: ledger_step.cases) (auto simp: same_funds_ops SubmitTransaction_def)
  then show "supplyW c l' = supplyW c l"
    and "solvent c l \<Longrightarrow> supplyZ c l < 2 ^ 63 \<Longrightarrow> solvent c l' \<and> supplyZ c l' = supplyZ c l"
    using Commit_supply [OF assms(2)] by (auto simp: same_funds_simps)
qed

lemma reach_conserves:
  assumes "ledger_reach l l'" "ledger_inv l"
  shows "supplyW c l' = supplyW c l \<and>
    (solvent c l \<longrightarrow> supplyZ c l < 2 ^ 63 \<longrightarrow> solvent c l' \<and> supplyZ c l' = supplyZ c l)"
  using assms
proof (induction rule: ledger_reach.induct)
  case (reach_refl l)
  then show ?case by simp
next
  case (reach_step l l1 l2)
  from ledger_inv_reach [OF reach_step(1,4)] have "ledger_inv l1" .
  with reach_step step_conserves [OF reach_step(2), of c] show ?case by simp
qed

text \<open>
  C20. Money is neither created nor destroyed: whatever sequence of ledger operations is run
  (submissions, proposals, commits, clean-ups and receipt attachments, in any order and with any
  interleaving), the sum of all balances of a currency is the initial one modulo 2^64; and if all
  initial balances are non-negative and their sum fits in 63 bits, no balance ever becomes
  negative and the exact sum is kept.
\<close>

theorem ledger_conserves_money:
  assumes "ledger_reach (NewLedger vs) l"
  shows "supplyW c l = supplyW c (NewLedger vs) \<and>
    (solvent c (NewLedger vs) \<and> supplyZ c (NewLedger vs) < 2 ^ 63 \<longrightarrow>
       solvent c l \<and> supplyZ c l = supplyZ c (NewLedger vs))"
  using reach_conserves [OF assms ledger_inv_New, of c] by blast

definition chf_validator :: "string \<Rightarrow> int64 \<Rightarrow> ValidatorState" where
  "chf_validator i b = \<lparr>vs_ID = i, vs_Address = '''', vs_Balance = [''CHF'' \<mapsto> b], vs_Nonce = 0\<rparr>"

definition chf_tx :: "string \<Rightarrow> string \<Rightarrow> string \<Rightarrow> int64 \<Rightarrow> Transaction" where
  "chf_tx i a b n = emptyTx\<lparr>tx_ID := i, tx_From := a, tx_To := b, tx_Amount := n, tx_Currency := ''CHF''\<rparr>"

theorem ledger_conserves_money_witness:
  "let l0 = NewLedger [chf_validator ''a'' 100, chf_validator ''b'' 50];
       l1 = snd (SubmitTransaction 0 7 (snd (newTx (chf_tx ''t'' ''a'' ''b'' 30) l0)));
       l2 = snd (Commit \<lparr>cm_Type = MsgCommit, cm_TxID = ''t'', cm_ValidatorID = ''a'', cm_Round = 1,
                          cm_Payload = '''', cm_Timestamp = 0\<rparr> l1)
   in ledger_reach l0 l2 \<and> supplyZ ''CHF'' l2 = 150 \<and> solvent ''CHF'' l2"
proof -
  let ?l0 = "NewLedger [chf_validator ''a'' 100, chf_validator ''b'' 50]"
  let ?m = "\<lparr>cm_Type = MsgCommit, cm_TxID = ''t'', cm_ValidatorID = ''a'', cm_Round = 1, cm_Payload = '''', cm_Timestamp = 0\<rparr>"
  let ?la = "snd (newTx (chf_tx ''t'' ''a'' ''b'' 30) ?l0)"
  let ?l1 = "snd (SubmitTransaction 0 7 ?la)"
  have n: "0 < lg_next ?la" by (simp add: newTx_def)
  have r: "ledger_reach ?l0 (snd (Commit ?m ?l1))"
    by (rule reach_step [OF reach_step [OF ledger_reach_one [OF allocate] submitted [OF n]] committed])
  have z: "supplyZ ''CHF'' ?l0 = 150" "solvent ''CHF'' ?l0"
    by (auto simp: supplyZ_def solvent_def total_def NewLedger_def chf_validator_def balance_of_def ran_def split: if_splits)
  from ledger_conserves_money [OF r, of "''CHF''"] r z show ?thesis by (simp add: Let_def)
qed

end
