(* ===== verification/JP_Consensus.thy ===== *)
theory JP_Consensus
  imports JP_Ledger
begin

text \<open>
  The consensus engine of \<^verbatim>\<open>internal/dlt/consensus.go\<close>: propose, vote and commit over the
  ledger, run synchronously for all configured validators.  The engine's state is its ledger and
  its fixed validator list; its transport is not used by these methods.  The engine's lock makes
  every method atomic with respect to the others.
\<close>

record ConsensusEngine =
  ce_ledger :: Ledger
  ce_validators :: "ValidatorState list"

definition NewConsensusEngine :: "Ledger \<Rightarrow> ValidatorState list \<Rightarrow> ConsensusEngine" where
  "NewConsensusEngine l vs = \<lparr>ce_ledger = l, ce_validators = vs\<rparr>"

text \<open>The vote loop: the number of validators whose ballot comes back with a yes.\<close>

fun countYes :: "time \<Rightarrow> ConsensusMessage \<Rightarrow> Ledger \<Rightarrow> ValidatorState list \<Rightarrow> nat" where
  "countYes now proposal l [] = 0"
| "countYes now proposal l (v # vs) =
     (case Vote now (proposal\<lparr>cm_ValidatorID := vs_ID v\<rparr>) l of
        Inl _ \<Rightarrow> countYes now proposal l vs
      | Inr vote \<Rightarrow> (if cm_Payload vote = ''yes'' then 1 else 0) + countYes now proposal l vs)"

text \<open>
  Every round returns a result, with or without an error.  \<open>pick\<close> is the iteration choice of
  \<open>ProposeBlock\<close>, \<open>now\<close> the clock reading of the round's messages.
\<close>

definition proposeVoteCommitLocked ::
  "nat \<Rightarrow> time \<Rightarrow> txref \<Rightarrow> ConsensusEngine \<Rightarrow> (ConsensusResult \<times> LedgerError option) \<times> ConsensusEngine" where
  "proposeVoteCommitLocked pick now r ce =
     (let l = ce_ledger ce; txid = tx_ID (lg_heap l r);
          fail = (\<lambda>rnd votes. \<lparr>cres_Confirmed = False, cres_Round = rnd, cres_Votes = votes, cres_TxID = txid\<rparr>) in
      if length (ce_validators ce) = 0 then
        ((fail 0 0, Some NoValidatorsConfigured), ce\<lparr>ce_ledger := CleanupPending txid l\<rparr>)
      else
        let proposer = vs_ID (ce_validators ce ! 0) in
        (case ProposeBlock pick now proposer l of
           (Inl e, l1) \<Rightarrow> ((fail 0 0, Some e), ce\<lparr>ce_ledger := CleanupPending txid l1\<rparr>)
         | (Inr proposal, l1) \<Rightarrow>
             let yesVotes = countYes now proposal l1 (ce_validators ce);
                 totalVotes = length (ce_validators ce);
                 majority = totalVotes div 2 + 1 in
             if yesVotes \<ge> majority then
               (case Commit \<lparr>cm_Type = MsgCommit, cm_TxID = txid, cm_ValidatorID = proposer,
                             cm_Round = cm_Round proposal, cm_Payload = '''', cm_Timestamp = zeroTime\<rparr> l1 of
                  (Some e, l2) \<Rightarrow>
                    ((fail (cm_Round proposal) yesVotes, Some e), ce\<lparr>ce_ledger := CleanupPending txid l2\<rparr>)
                | (None, l2) \<Rightarrow>
                    ((\<lparr>cres_Confirmed = True, cres_Round = cm_Round proposal, cres_Votes = yesVotes, cres_TxID = txid\<rparr>, None),
                     ce\<lparr>ce_ledger := l2\<rparr>))
             else
               ((fail (cm_Round proposal) yesVotes, None), ce\<lparr>ce_ledger := CleanupPending txid l1\<rparr>)))"

definition RunRound ::
  "nat \<Rightarrow> time \<Rightarrow> txref \<Rightarrow> ConsensusEngine \<Rightarrow> (ConsensusResult \<times> LedgerError option) \<times> ConsensusEngine" where
  "RunRound pick now r ce =
     (case SubmitTransaction r now (ce_ledger ce) of
        (Some e, l) \<Rightarrow>
          ((\<lparr>cres_Confirmed = False, cres_Round = 0, cres_Votes = 0, cres_TxID = tx_ID (lg_heap (ce_ledger ce) r)\<rparr>, Some e),
           ce\<lparr>ce_ledger := l\<rparr>)
      | (None, l) \<Rightarrow> proposeVoteCommitLocked pick now r (ce\<lparr>ce_ledger := l\<rparr>))"

datatype RoundOutcome =
    SubmitError LedgerError
  | Existing Transaction
  | RoundDone ConsensusResult "LedgerError option"

definition SubmitAndRunRound ::
  "nat \<Rightarrow> time \<Rightarrow> txref \<Rightarrow> ConsensusEngine \<Rightarrow> RoundOutcome \<times> ConsensusEngine" where
  "SubmitAndRunRound pick now r ce =
     (case SubmitTransactionIfAbsent r now (ce_ledger ce) of
        (Inl e, l) \<Rightarrow> (SubmitError e, ce\<lparr>ce_ledger := l\<rparr>)
      | (Inr (Some existing), l) \<Rightarrow> (Existing existing, ce\<lparr>ce_ledger := l\<rparr>)
      | (Inr None, l) \<Rightarrow>
          (case proposeVoteCommitLocked pick now r (ce\<lparr>ce_ledger := l\<rparr>) of
             ((result, e), ce') \<Rightarrow> (RoundDone result e, ce')))"

definition RunRoundFromPending ::
  "nat \<Rightarrow> time \<Rightarrow> txref \<Rightarrow> ConsensusEngine \<Rightarrow> (ConsensusResult \<times> LedgerError option) \<times> ConsensusEngine" where
  "RunRoundFromPending pick now r ce = proposeVoteCommitLocked pick now r ce"

section \<open>A round on the submitted transaction\<close>

text \<open>The reference definition of a transfer, on balances alone.\<close>

definition transfer ::
  "string \<Rightarrow> string \<Rightarrow> string \<Rightarrow> int64 \<Rightarrow> (string \<Rightarrow> string \<Rightarrow> int64) \<Rightarrow> (string \<Rightarrow> string \<Rightarrow> int64)" where
  "transfer from dest c a bal =
     (let b1 = bal(from := (bal from)(c := bal from c - a))
      in b1(dest := (b1 dest)(c := b1 dest c + a)))"

definition balances :: "Ledger \<Rightarrow> string \<Rightarrow> string \<Rightarrow> int64" where
  "balances l i c = GetBalance i c l"

definition acceptable :: "Transaction \<Rightarrow> Ledger \<Rightarrow> bool" where
  "acceptable tx l \<longleftrightarrow>
     lg_validators l (tx_From tx) \<noteq> None \<and> lg_validators l (tx_To tx) \<noteq> None \<and>
     0 < sint (tx_Amount tx) \<and> sint (tx_Amount tx) \<le> sint (GetBalance (tx_From tx) (tx_Currency tx) l)"

lemma submitLocked_acceptable:
  "fst (submitLocked r now l) = None \<longleftrightarrow> acceptable (lg_heap l r) l"
proof (cases rule: submitLocked_cases [of r now l])
  case (err e)
  then show ?thesis
    by (auto simp: submitLocked_def acceptable_def GetBalance_def Let_def word_sle_eq word_sless_alt
        split: option.splits if_splits)
next
  case (ok sender)
  then show ?thesis by (simp add: acceptable_def GetBalance_def)
qed

lemma countYes_all:
  assumes "\<And>v. \<exists>m. Vote now (p\<lparr>cm_ValidatorID := v\<rparr>) l = Inr m \<and> cm_Payload m = ''yes''"
  shows "countYes now p l vs = length vs"
proof (induction vs)
  case (Cons v vs)
  from assms [of "vs_ID v"] obtain m where "Vote now (p\<lparr>cm_ValidatorID := vs_ID v\<rparr>) l = Inr m" "cm_Payload m = ''yes''"
    by blast
  with Cons show ?case by simp
qed simp

lemma proposeVoteCommit_confirms:
  assumes p: "lg_pending l = [(i, r)]" and i: "tx_ID (lg_heap l r) = i"
    and vs: "vs \<noteq> []" "lg_validators l (vs_ID (vs ! 0)) \<noteq> None"
    and s: "lg_validators l (tx_From (lg_heap l r)) = Some sender"
    and b: "sint (tx_Amount (lg_heap l r)) \<le> sint (balance_of sender (tx_Currency (lg_heap l r)))"
    and c: "Commit \<lparr>cm_Type = MsgCommit, cm_TxID = i, cm_ValidatorID = vs_ID (vs ! 0), cm_Round = lg_currentRound l + 1,
              cm_Payload = '''', cm_Timestamp = zeroTime\<rparr> (l\<lparr>lg_currentRound := lg_currentRound l + 1\<rparr>) = (None, l2)"
  shows "proposeVoteCommitLocked pick now r \<lparr>ce_ledger = l, ce_validators = vs\<rparr> =
    ((\<lparr>cres_Confirmed = True, cres_Round = lg_currentRound l + 1, cres_Votes = length vs, cres_TxID = i\<rparr>, None),
     \<lparr>ce_ledger = l2, ce_validators = vs\<rparr>)"
proof -
  let ?l1 = "l\<lparr>lg_currentRound := lg_currentRound l + 1\<rparr>"
  let ?p = "\<lparr>cm_Type = MsgPropose, cm_TxID = i, cm_ValidatorID = vs_ID (vs ! 0), cm_Round = lg_currentRound l + 1,
     cm_Payload = '''', cm_Timestamp = now\<rparr>"
  have prb: "ProposeBlock pick now (vs_ID (vs ! 0)) l = (Inr ?p, ?l1)"
    using p i vs(2) by (auto simp: ProposeBlock_def Let_def)
  have "\<exists>m. Vote now (?p\<lparr>cm_ValidatorID := v\<rparr>) ?l1 = Inr m \<and> cm_Payload m = ''yes''" for v
    using p s b by (simp add: Vote_def Let_def word_sle_eq)
  then have yes: "countYes now ?p ?l1 vs = length vs" by (rule countYes_all)
  from vs(1) have maj: "length vs div 2 + 1 \<le> length vs" by (cases vs) auto
  show ?thesis
    unfolding proposeVoteCommitLocked_def using vs(1) i c yes maj prb by (simp add: Let_def)
qed

lemma Commit_balances:
  assumes "ledger_inv l" "map_of (lg_pending l) (cm_TxID msg) = Some r"
    and "lg_validators l (tx_From (lg_heap l r)) = Some sender"
    and "sint (tx_Amount (lg_heap l r)) \<le> sint (balance_of sender (tx_Currency (lg_heap l r)))"
  obtains l' where "Commit msg l = (None, l')"
    "balances l' = transfer (tx_From (lg_heap l r)) (tx_To (lg_heap l r)) (tx_Currency (lg_heap l r))
       (tx_Amount (lg_heap l r)) (balances l)"
    "lg_pending l' = AList.delete (cm_TxID msg) (lg_pending l)" "lg_seen l' = lg_seen l"
    "lg_confirmed l' = (lg_confirmed l)(cm_TxID msg \<mapsto> r)"
    "lg_heap l' = (lg_heap l)(r := (lg_heap l r)\<lparr>tx_Status := TxConfirmed\<rparr>)"
    "dom (lg_validators l') = dom (lg_validators l)" "lg_next l' = lg_next l" "lg_allTxs l' = lg_allTxs l"
  using assms(1)
proof (cases rule: Commit_cases [where msg = msg])
  case (missing e)
  with assms show thesis by simp
next
  case (poor r')
  with assms have "Commit msg l = (Some InsufficientAtCommit, l\<lparr>lg_heap := (lg_heap l)(r := (lg_heap l r)\<lparr>tx_Status := TxRejected\<rparr>),
         lg_pending := AList.delete (cm_TxID msg) (lg_pending l)\<rparr>)" by simp
  moreover from assms have "\<not> balance_of sender (tx_Currency (lg_heap l r)) <s tx_Amount (lg_heap l r)"
    by (simp add: word_sless_alt)
  ultimately show thesis
    using assms(2,3) by (auto simp: Commit_def Let_def split: option.splits)
next
  case (ok r' s' recipient)
  with assms(2,3) have [simp]: "r' = r" "s' = sender" by auto
  let ?F = "tx_From (lg_heap l r)" and ?T = "tx_To (lg_heap l r)" and ?c = "tx_Currency (lg_heap l r)"
  let ?l' = "snd (Commit msg l)"
  have B: "balances ?l' x y = transfer ?F ?T ?c (tx_Amount (lg_heap l r)) (balances l) x y" for x y
  proof (cases "?T = ?F")
    case True
    with ok have "recipient = setBalance ?c (balance_of sender ?c - tx_Amount (lg_heap l r)) sender" by simp
    with ok True show ?thesis
      by (auto simp: balances_def transfer_def Let_def GetBalance_def)
  next
    case False
    with ok show ?thesis
      by (auto simp: balances_def transfer_def Let_def GetBalance_def)
  qed
  have d: "dom (lg_validators ?l') = dom (lg_validators l)" using ok by (auto split: if_splits)
  show thesis
    by (rule that [of ?l']) (use ok B d in \<open>auto simp: fun_eq_iff\<close>)
qed

section \<open>Rounds of an engine\<close>

text \<open>
  The engine between rounds: nothing is pending and the proposer, the first configured validator,
  is known to the ledger.
\<close>

definition engine_ready :: "ConsensusEngine \<Rightarrow> bool" where
  "engine_ready ce \<longleftrightarrow>
     ledger_inv (ce_ledger ce) \<and> lg_pending (ce_ledger ce) = [] \<and> ce_validators ce \<noteq> [] \<and>
     lg_validators (ce_ledger ce) (vs_ID (ce_validators ce ! 0)) \<noteq> None"

text \<open>What a confirmed round leaves behind, compared with the ledger before it.\<close>

definition settled :: "time \<Rightarrow> txref \<Rightarrow> Ledger \<Rightarrow> Ledger \<Rightarrow> bool" where
  "settled now r l l' \<longleftrightarrow>
     (let tx = lg_heap l r in
      balances l' = transfer (tx_From tx) (tx_To tx) (tx_Currency tx) (tx_Amount tx) (balances l) \<and>
      lg_pending l' = [] \<and> lg_seen l' = (lg_seen l)(tx_ID tx := True) \<and>
      lg_confirmed l' = (lg_confirmed l)(tx_ID tx \<mapsto> r) \<and>
      (\<exists>n. lg_heap l' = (lg_heap l)(r := tx\<lparr>tx_Status := TxConfirmed, tx_Nonce := n, tx_Timestamp := now\<rparr>)) \<and>
      dom (lg_validators l') = dom (lg_validators l) \<and> lg_next l' = lg_next l \<and> lg_allTxs l' = lg_allTxs l @ [r])"

lemma AList_single: "AList.update i r [] = [(i, r)]" "AList.delete i [(i, r)] = []"
  by simp_all

lemma round_after_submit:
  assumes "engine_ready ce" "r < lg_next (ce_ledger ce)" "acceptable (lg_heap (ce_ledger ce) r) (ce_ledger ce)"
  obtains l1 ce' rnd where "submitLocked r now (ce_ledger ce) = (None, l1)"
    "proposeVoteCommitLocked pick now r (ce\<lparr>ce_ledger := l1\<rparr>) =
      ((\<lparr>cres_Confirmed = True, cres_Round = rnd, cres_Votes = length (ce_validators ce),
         cres_TxID = tx_ID (lg_heap (ce_ledger ce) r)\<rparr>, None), ce')"
    "rnd = lg_currentRound (ce_ledger ce) + 1" "ce_validators ce' = ce_validators ce"
    "settled now r (ce_ledger ce) (ce_ledger ce')" "engine_ready ce'"
proof -
  let ?l = "ce_ledger ce" and ?vs = "ce_validators ce"
  let ?tx = "lg_heap ?l r"
  from assms(1) have inv: "ledger_inv ?l" and pe: "lg_pending ?l = []" and vs: "?vs \<noteq> []"
    "lg_validators ?l (vs_ID (?vs ! 0)) \<noteq> None" by (simp_all add: engine_ready_def)
  from assms(3) have ac: "fst (submitLocked r now ?l) = None" by (simp add: submitLocked_acceptable)
  show thesis
  proof (cases rule: submitLocked_cases [of r now ?l])
    case (err e)
    with ac show thesis by simp
  next
    case (ok sender)
    let ?s' = "sender\<lparr>vs_Nonce := vs_Nonce sender + 1\<rparr>"
    let ?l1 = "snd (submitLocked r now ?l)"
    let ?l1r = "?l1\<lparr>lg_currentRound := lg_currentRound ?l1 + 1\<rparr>"
    let ?msg = "\<lparr>cm_Type = MsgCommit, cm_TxID = tx_ID ?tx, cm_ValidatorID = vs_ID (?vs ! 0), cm_Round = lg_currentRound ?l1 + 1,
        cm_Payload = '''', cm_Timestamp = zeroTime\<rparr>"
    from ok(5) have sub: "submitLocked r now ?l = (None, ?l1)" by simp
    have h1: "lg_heap ?l1 r = ?tx\<lparr>tx_Status := TxPending, tx_Nonce := vs_Nonce sender + 1, tx_Timestamp := now\<rparr>"
      "lg_pending ?l1 = [(tx_ID ?tx, r)]" "lg_validators ?l1 (tx_From ?tx) = Some ?s'"
      "lg_currentRound ?l1 = lg_currentRound ?l" "dom (lg_validators ?l1) = dom (lg_validators ?l)"
      "lg_confirmed ?l1 = lg_confirmed ?l" "lg_seen ?l1 = (lg_seen ?l)(tx_ID ?tx := True)" "lg_next ?l1 = lg_next ?l"
      "lg_allTxs ?l1 = lg_allTxs ?l @ [r]"
      using ok pe AList_single by (auto simp: ok(5))
    have inv1: "ledger_inv ?l1" using ledger_inv_submit [OF inv assms(2)] .
    have inv1r: "ledger_inv ?l1r" using inv1 by (simp add: ledger_inv_iff fileable_def)
    have c1: "map_of (lg_pending ?l1r) (cm_TxID ?msg) = Some r" using h1(2) by simp
    have c2: "lg_validators ?l1r (tx_From (lg_heap ?l1r r)) = Some ?s'" using h1 by simp
    have c3: "sint (tx_Amount (lg_heap ?l1r r)) \<le> sint (balance_of ?s' (tx_Currency (lg_heap ?l1r r)))"
      using h1 ok(4) by simp
    obtain l2 where c: "Commit ?msg ?l1r = (None, l2)"
      "balances l2 = transfer (tx_From (lg_heap ?l1r r)) (tx_To (lg_heap ?l1r r)) (tx_Currency (lg_heap ?l1r r))
          (tx_Amount (lg_heap ?l1r r)) (balances ?l1r)"
      "lg_pending l2 = AList.delete (cm_TxID ?msg) (lg_pending ?l1r)" "lg_seen l2 = lg_seen ?l1r"
      "lg_confirmed l2 = (lg_confirmed ?l1r)(cm_TxID ?msg \<mapsto> r)"
      "lg_heap l2 = (lg_heap ?l1r)(r := (lg_heap ?l1r r)\<lparr>tx_Status := TxConfirmed\<rparr>)"
      "dom (lg_validators l2) = dom (lg_validators ?l1r)" "lg_next l2 = lg_next ?l1r" "lg_allTxs l2 = lg_allTxs ?l1r"
      by (rule Commit_balances [OF inv1r c1 c2 c3])
    have kn: "lg_validators ?l1 (vs_ID (?vs ! 0)) \<noteq> None" using vs(2) h1(5) by (metis domIff)
    have ce1: "ce\<lparr>ce_ledger := ?l1\<rparr> = \<lparr>ce_ledger = ?l1, ce_validators = ?vs\<rparr>" by (cases ce) simp
    have run: "proposeVoteCommitLocked pick now r (ce\<lparr>ce_ledger := ?l1\<rparr>) =
      ((\<lparr>cres_Confirmed = True, cres_Round = lg_currentRound ?l1 + 1, cres_Votes = length ?vs, cres_TxID = tx_ID ?tx\<rparr>, None),
       \<lparr>ce_ledger = l2, ce_validators = ?vs\<rparr>)"
      unfolding ce1
      by (rule proposeVoteCommit_confirms [where sender = ?s', OF h1(2) _ vs(1) kn _ _ c(1)]) (use h1 ok(4) in simp_all)
    have bal: "balances ?l1r = balances ?l"
      using same_funds_simps(4) [OF same_funds_ops(2) [of ?l r now]]
      by (auto simp: fun_eq_iff balances_def GetBalance_def)
    have hp: "lg_heap l2 = (lg_heap ?l)(r := ?tx\<lparr>tx_Status := TxConfirmed, tx_Nonce := vs_Nonce sender + 1, tx_Timestamp := now\<rparr>)"
      using c(6) h1(1) by (auto simp: ok(5) fun_eq_iff)
    have st: "settled now r ?l l2"
      unfolding settled_def Let_def
      using exI [of "\<lambda>n. lg_heap l2 = (lg_heap ?l)(r := ?tx\<lparr>tx_Status := TxConfirmed, tx_Nonce := n, tx_Timestamp := now\<rparr>)", OF hp]
        c(2-5,7-9) h1 bal AList_single(2) by simp
    have inv2: "ledger_inv l2" using ledger_inv_commit [OF inv1r, of ?msg] c(1) by simp
    have "engine_ready \<lparr>ce_ledger = l2, ce_validators = ?vs\<rparr>"
      using inv2 st vs unfolding engine_ready_def settled_def Let_def by (auto simp: domIff)
    with sub run st h1(4) that [of ?l1 "lg_currentRound ?l1 + 1" "\<lparr>ce_ledger = l2, ce_validators = ?vs\<rparr>"] show thesis by simp
  qed
qed

lemma submit_refused:
  assumes "\<not> acceptable (lg_heap l r) l"
  shows "\<exists>e. submitLocked r now l = (Some e, l)"
proof (cases rule: submitLocked_cases [of r now l])
  case (err e)
  then show ?thesis by blast
next
  case (ok sender)
  with assms submitLocked_acceptable [of r now l] show ?thesis by simp
qed

lemma SubmitAndRunRound_cases:
  assumes "engine_ready ce" "r < lg_next (ce_ledger ce)"
  obtains (seen) tx where "lg_seen (ce_ledger ce) (tx_ID (lg_heap (ce_ledger ce) r))"
      "SubmitAndRunRound pick now r ce = (Existing tx, ce)"
      "tx = (case lg_confirmed (ce_ledger ce) (tx_ID (lg_heap (ce_ledger ce) r)) of
               Some q \<Rightarrow> lg_heap (ce_ledger ce) q
             | None \<Rightarrow> emptyTx\<lparr>tx_ID := tx_ID (lg_heap (ce_ledger ce) r), tx_Status := TxRejected\<rparr>)"
  | (refused) e where "\<not> lg_seen (ce_ledger ce) (tx_ID (lg_heap (ce_ledger ce) r))"
      "\<not> acceptable (lg_heap (ce_ledger ce) r) (ce_ledger ce)" "SubmitAndRunRound pick now r ce = (SubmitError e, ce)"
  | (confirmed) ce' where "\<not> lg_seen (ce_ledger ce) (tx_ID (lg_heap (ce_ledger ce) r))"
      "acceptable (lg_heap (ce_ledger ce) r) (ce_ledger ce)"
      "SubmitAndRunRound pick now r ce =
        (RoundDone \<lparr>cres_Confirmed = True, cres_Round = lg_currentRound (ce_ledger ce) + 1,
                    cres_Votes = length (ce_validators ce), cres_TxID = tx_ID (lg_heap (ce_ledger ce) r)\<rparr> None, ce')"
      "settled now r (ce_ledger ce) (ce_ledger ce')" "engine_ready ce'" "ce_validators ce' = ce_validators ce"
proof (cases "lg_seen (ce_ledger ce) (tx_ID (lg_heap (ce_ledger ce) r))")
  case True
  from assms(1) have "lg_pending (ce_ledger ce) = []" by (simp add: engine_ready_def)
  with True seen show thesis
    by (cases "lg_confirmed (ce_ledger ce) (tx_ID (lg_heap (ce_ledger ce) r))")
       (auto simp: SubmitAndRunRound_def SubmitTransactionIfAbsent_def Let_def)
next
  case new: False
  show thesis
  proof (cases "acceptable (lg_heap (ce_ledger ce) r) (ce_ledger ce)")
    case True
    show thesis
    proof (rule round_after_submit [OF assms True, of now pick])
      fix l1 ce' rnd
      assume "submitLocked r now (ce_ledger ce) = (None, l1)"
        "proposeVoteCommitLocked pick now r (ce\<lparr>ce_ledger := l1\<rparr>) =
          ((\<lparr>cres_Confirmed = True, cres_Round = rnd, cres_Votes = length (ce_validators ce),
             cres_TxID = tx_ID (lg_heap (ce_ledger ce) r)\<rparr>, None), ce')"
        "rnd = lg_currentRound (ce_ledger ce) + 1" "ce_validators ce' = ce_validators ce"
        "settled now r (ce_ledger ce) (ce_ledger ce')" "engine_ready ce'"
      with new True confirmed [of ce'] show thesis
        by (simp add: SubmitAndRunRound_def SubmitTransactionIfAbsent_def Let_def)
    qed
  next
    case False
    with submit_refused [of "ce_ledger ce" r now] obtain e where "submitLocked r now (ce_ledger ce) = (Some e, ce_ledger ce)" by blast
    with new False refused [of e] show thesis
      by (simp add: SubmitAndRunRound_def SubmitTransactionIfAbsent_def Let_def)
  qed
qed

lemma RunRound_cases:
  assumes "engine_ready ce" "r < lg_next (ce_ledger ce)"
  obtains (refused) res e where "\<not> acceptable (lg_heap (ce_ledger ce) r) (ce_ledger ce)" "\<not> cres_Confirmed res"
      "RunRound pick now r ce = ((res, Some e), ce)"
  | (confirmed) ce' where "acceptable (lg_heap (ce_ledger ce) r) (ce_ledger ce)"
      "RunRound pick now r ce =
        ((\<lparr>cres_Confirmed = True, cres_Round = lg_currentRound (ce_ledger ce) + 1,
           cres_Votes = length (ce_validators ce), cres_TxID = tx_ID (lg_heap (ce_ledger ce) r)\<rparr>, None), ce')"
      "settled now r (ce_ledger ce) (ce_ledger ce')" "engine_ready ce'" "ce_validators ce' = ce_validators ce"
proof (cases "acceptable (lg_heap (ce_ledger ce) r) (ce_ledger ce)")
  case True
  show thesis
  proof (rule round_after_submit [OF assms True, of now pick])
    fix l1 ce' rnd
    assume "submitLocked r now (ce_ledger ce) = (None, l1)"
      "proposeVoteCommitLocked pick now r (ce\<lparr>ce_ledger := l1\<rparr>) =
        ((\<lparr>cres_Confirmed = True, cres_Round = rnd, cres_Votes = length (ce_validators ce),
           cres_TxID = tx_ID (lg_heap (ce_ledger ce) r)\<rparr>, None), ce')"
      "rnd = lg_currentRound (ce_ledger ce) + 1" "ce_validators ce' = ce_validators ce"
      "settled now r (ce_ledger ce) (ce_ledger ce')" "engine_ready ce'"
    with True confirmed [of ce'] show thesis by (simp add: RunRound_def SubmitTransaction_def)
  qed
next
  case False
  with submit_refused [of "ce_ledger ce" r now] obtain e where "submitLocked r now (ce_ledger ce) = (Some e, ce_ledger ce)" by blast
  then have "RunRound pick now r ce = ((\<lparr>cres_Confirmed = False, cres_Round = 0, cres_Votes = 0,
      cres_TxID = tx_ID (lg_heap (ce_ledger ce) r)\<rparr>, Some e), ce)" by (simp add: RunRound_def SubmitTransaction_def)
  from refused [OF False _ this] show thesis by simp
qed

text \<open>
  C19. A settlement round does exactly one thing: on an engine with nothing pending, a transaction
  whose identifier was seen before changes nothing and is answered with the confirmed transaction
  of that identifier (or a rejected stub); an unacceptable one (unknown party, non-positive amount,
  insufficient balance) is refused and changes nothing; and every acceptable one is confirmed by
  all validators, moves precisely its amount from the sender to the recipient and is filed as
  confirmed.  In every case nothing is left pending.
\<close>

theorem SubmitAndRunRound_exact:
  assumes "engine_ready ce" and "r < lg_next (ce_ledger ce)"
    and "SubmitAndRunRound pick now r ce = (out, ce')"
  shows "let l = ce_ledger ce; l' = ce_ledger ce'; tx = lg_heap l r in
    engine_ready ce' \<and> ce_validators ce' = ce_validators ce \<and>
    (if lg_seen l (tx_ID tx) then
       ce' = ce \<and> out = Existing (case lg_confirmed l (tx_ID tx) of Some q \<Rightarrow> lg_heap l q
                                   | None \<Rightarrow> emptyTx\<lparr>tx_ID := tx_ID tx, tx_Status := TxRejected\<rparr>)
     else if acceptable tx l then
       out = RoundDone \<lparr>cres_Confirmed = True, cres_Round = lg_currentRound l + 1,
                        cres_Votes = length (ce_validators ce), cres_TxID = tx_ID tx\<rparr> None
       \<and> balances l' = transfer (tx_From tx) (tx_To tx) (tx_Currency tx) (tx_Amount tx) (balances l)
       \<and> (\<exists>n. GetTransaction (tx_ID tx) l' = Some (tx\<lparr>tx_Status := TxConfirmed, tx_Nonce := n, tx_Timestamp := now\<rparr>))
       \<and> lg_seen l' (tx_ID tx)
     else ce' = ce \<and> (\<exists>e. out = SubmitError e))"
proof (rule SubmitAndRunRound_cases [OF assms(1,2), of pick now])
  fix tx
  assume *: "lg_seen (ce_ledger ce) (tx_ID (lg_heap (ce_ledger ce) r))" "SubmitAndRunRound pick now r ce = (Existing tx, ce)"
      "tx = (case lg_confirmed (ce_ledger ce) (tx_ID (lg_heap (ce_ledger ce) r)) of
               Some q \<Rightarrow> lg_heap (ce_ledger ce) q
             | None \<Rightarrow> emptyTx\<lparr>tx_ID := tx_ID (lg_heap (ce_ledger ce) r), tx_Status := TxRejected\<rparr>)"
  from *(2) assms(3) have "out = Existing tx" "ce' = ce" by auto
  with *(1,3) assms(1) show ?thesis by (simp add: Let_def)
next
  fix e
  assume *: "\<not> lg_seen (ce_ledger ce) (tx_ID (lg_heap (ce_ledger ce) r))"
      "\<not> acceptable (lg_heap (ce_ledger ce) r) (ce_ledger ce)" "SubmitAndRunRound pick now r ce = (SubmitError e, ce)"
  with assms(3) have "out = SubmitError e" "ce' = ce" by simp_all
  with * assms(1) show ?thesis by (simp add: Let_def)
next
  fix ce''
  assume *: "\<not> lg_seen (ce_ledger ce) (tx_ID (lg_heap (ce_ledger ce) r))"
      "acceptable (lg_heap (ce_ledger ce) r) (ce_ledger ce)"
      "SubmitAndRunRound pick now r ce =
        (RoundDone \<lparr>cres_Confirmed = True, cres_Round = lg_currentRound (ce_ledger ce) + 1,
                    cres_Votes = length (ce_validators ce), cres_TxID = tx_ID (lg_heap (ce_ledger ce) r)\<rparr> None, ce'')"
      "settled now r (ce_ledger ce) (ce_ledger ce'')" "engine_ready ce''" "ce_validators ce'' = ce_validators ce"
  with assms(3) have "ce' = ce''" by simp
  with * assms(3) show ?thesis
    by (auto simp: Let_def settled_def GetTransaction_def)
qed

definition demo_engine :: ConsensusEngine where
  "demo_engine = NewConsensusEngine (NewLedger [chf_validator ''a'' 100, chf_validator ''b'' 50])
     [chf_validator ''a'' 100, chf_validator ''b'' 50]"

definition with_tx :: "Transaction \<Rightarrow> ConsensusEngine \<Rightarrow> ConsensusEngine" where
  "with_tx tx ce = ce\<lparr>ce_ledger := snd (newTx tx (ce_ledger ce))\<rparr>"

lemma engine_ready_with_tx: "engine_ready ce \<Longrightarrow> engine_ready (with_tx tx ce)"
  using ledger_inv_alloc [of "ce_ledger ce" tx] by (simp add: engine_ready_def with_tx_def) (simp add: newTx_def)

lemma engine_ready_demo: "engine_ready demo_engine"
  using ledger_inv_New
  by (simp add: engine_ready_def demo_engine_def NewConsensusEngine_def) (simp add: NewLedger_def chf_validator_def)

theorem SubmitAndRunRound_exact_witness:
  "\<exists>out ce'. SubmitAndRunRound 0 7 0 (with_tx (chf_tx ''t'' ''a'' ''b'' 30) demo_engine) = (out, ce')
     \<and> balances (ce_ledger ce') ''a'' ''CHF'' = 70 \<and> balances (ce_ledger ce') ''b'' ''CHF'' = 80
     \<and> lg_pending (ce_ledger ce') = []"
proof -
  let ?ce = "with_tx (chf_tx ''t'' ''a'' ''b'' 30) demo_engine"
  obtain out ce' where run: "SubmitAndRunRound 0 7 0 ?ce = (out, ce')" by fastforce
  have n: "0 < lg_next (ce_ledger ?ce)" by (simp add: with_tx_def newTx_def)
  have h: "lg_heap (ce_ledger ?ce) 0 = chf_tx ''t'' ''a'' ''b'' 30"
    by (simp add: with_tx_def newTx_def demo_engine_def NewConsensusEngine_def NewLedger_def)
  have f: "\<not> lg_seen (ce_ledger ?ce) ''t''" "acceptable (chf_tx ''t'' ''a'' ''b'' 30) (ce_ledger ?ce)"
    "balances (ce_ledger ?ce) ''a'' ''CHF'' = 100" "balances (ce_ledger ?ce) ''b'' ''CHF'' = 50"
    by (simp_all add: with_tx_def newTx_def demo_engine_def NewConsensusEngine_def NewLedger_def chf_tx_def acceptable_def
        GetBalance_def balances_def balance_of_def chf_validator_def)
  have t: "tx_ID (chf_tx ''t'' ''a'' ''b'' 30) = ''t''" "tx_From (chf_tx ''t'' ''a'' ''b'' 30) = ''a''"
    "tx_To (chf_tx ''t'' ''a'' ''b'' 30) = ''b''" "tx_Currency (chf_tx ''t'' ''a'' ''b'' 30) = ''CHF''"
    "tx_Amount (chf_tx ''t'' ''a'' ''b'' 30) = 30"
    by (simp_all add: chf_tx_def)
  from SubmitAndRunRound_exact [OF engine_ready_with_tx [OF engine_ready_demo] n run]
  have "balances (ce_ledger ce') = transfer ''a'' ''b'' ''CHF'' 30 (balances (ce_ledger ?ce))" "engine_ready ce'"
    by (simp_all add: Let_def h t f)
  with run f show ?thesis
    by (simp add: transfer_def Let_def engine_ready_def)
qed

section \<open>Engine rounds are ledger steps\<close>

lemma reach_cleanup: "ledger_reach l l1 \<Longrightarrow> ledger_reach l (CleanupPending i l1)"
  by (rule reach_step [OF _ cleaned])

lemma proposeVoteCommit_reach:
  "ledger_reach (ce_ledger ce) (ce_ledger (snd (proposeVoteCommitLocked pick now r ce)))"
proof (cases "ce_validators ce = []")
  case True
  then show ?thesis
    by (simp add: proposeVoteCommitLocked_def Let_def reach_cleanup [OF reach_refl])
next
  case False
  let ?v = "vs_ID (ce_validators ce ! 0)"
  obtain x l1 where pb: "ProposeBlock pick now ?v (ce_ledger ce) = (x, l1)" by fastforce
  have r1: "ledger_reach (ce_ledger ce) l1"
    using ledger_reach_one [OF proposed [of "ce_ledger ce" pick now ?v]] pb by simp
  show ?thesis
  proof (cases x)
    case (Inl e)
    with False pb reach_cleanup [OF r1] show ?thesis
      by (simp add: proposeVoteCommitLocked_def Let_def)
  next
    case (Inr proposal)
    let ?m = "\<lparr>cm_Type = MsgCommit, cm_TxID = tx_ID (lg_heap (ce_ledger ce) r), cm_ValidatorID = ?v,
       cm_Round = cm_Round proposal, cm_Payload = '''', cm_Timestamp = zeroTime\<rparr>"
    obtain e l2 where cm: "Commit ?m l1 = (e, l2)" by fastforce
    have r2: "ledger_reach (ce_ledger ce) l2"
      using reach_step [OF r1 committed [of l1 ?m]] cm by simp
    show ?thesis
      using False pb Inr cm reach_cleanup [OF r1] reach_cleanup [OF r2] r2
      by (cases e) (simp_all add: proposeVoteCommitLocked_def Let_def)
  qed
qed

lemma submit_reach:
  assumes "r < lg_next l"
  shows "ledger_reach l (snd (submitLocked r now l))" "ledger_reach l (snd (SubmitTransactionIfAbsent r now l))"
  using ledger_reach_one [OF submitted [OF assms, of now]] ledger_reach_one [OF submitIfAbsent [OF assms, of now]]
  by (simp_all add: SubmitTransaction_def)

lemma RunRound_reach:
  assumes "r < lg_next (ce_ledger ce)"
  shows "ledger_reach (ce_ledger ce) (ce_ledger (snd (RunRound pick now r ce)))"
proof -
  obtain e l1 where s: "submitLocked r now (ce_ledger ce) = (e, l1)" by fastforce
  with submit_reach(1) [OF assms, of now] have r1: "ledger_reach (ce_ledger ce) l1" by simp
  with ledger_reach_trans [OF proposeVoteCommit_reach [of "ce\<lparr>ce_ledger := l1\<rparr>" pick now r]] s show ?thesis
    by (cases e) (simp_all add: RunRound_def SubmitTransaction_def)
qed

lemma SubmitAndRunRound_reach:
  assumes "r < lg_next (ce_ledger ce)"
  shows "ledger_reach (ce_ledger ce) (ce_ledger (snd (SubmitAndRunRound pick now r ce)))"
proof -
  obtain x l1 where s: "SubmitTransactionIfAbsent r now (ce_ledger ce) = (x, l1)" by fastforce
  with submit_reach(2) [OF assms, of now] have r1: "ledger_reach (ce_ledger ce) l1" by simp
  with ledger_reach_trans [OF proposeVoteCommit_reach [of "ce\<lparr>ce_ledger := l1\<rparr>" pick now r]] s show ?thesis
    by (auto simp: SubmitAndRunRound_def split: sum.split option.split prod.split)
qed

section \<open>Limits of the protocol\<close>

text \<open>
  \<open>RunRound\<close> does not use the record of identifiers already submitted: a transaction whose
  identifier is already confirmed is accepted and paid a second time, although the ledger keeps
  that record to prevent replays; only \<open>SubmitAndRunRound\<close> consults it.
\<close>

theorem RunRound_pays_again:
  assumes "engine_ready ce" and "r < lg_next (ce_ledger ce)"
    and "lg_confirmed (ce_ledger ce) (tx_ID (lg_heap (ce_ledger ce) r)) = Some q"
    and "acceptable (lg_heap (ce_ledger ce) r) (ce_ledger ce)"
    and "RunRound pick now r ce = ((res, err), ce')"
  shows "let tx = lg_heap (ce_ledger ce) r in cres_Confirmed res \<and> err = None
    \<and> balances (ce_ledger ce') = transfer (tx_From tx) (tx_To tx) (tx_Currency tx) (tx_Amount tx) (balances (ce_ledger ce))"
  by (rule RunRound_cases [OF assms(1,2), of pick now]) (use assms(4,5) in \<open>auto simp: Let_def settled_def\<close>)

lemma demo_round:
  obtains ce1 where "RunRound 0 7 0 (with_tx (chf_tx ''t'' ''a'' ''b'' 30) demo_engine) =
      ((\<lparr>cres_Confirmed = True, cres_Round = 1, cres_Votes = 2, cres_TxID = ''t''\<rparr>, None), ce1)"
    "engine_ready ce1" "lg_confirmed (ce_ledger ce1) ''t'' = Some 0" "tx_ID (lg_heap (ce_ledger ce1) 0) = ''t''"
    "0 < lg_next (ce_ledger ce1)" "acceptable (lg_heap (ce_ledger ce1) 0) (ce_ledger ce1)"
    "balances (ce_ledger ce1) ''a'' ''CHF'' = 70" "tx_Currency (lg_heap (ce_ledger ce1) 0) = ''CHF''"
    "tx_From (lg_heap (ce_ledger ce1) 0) = ''a''" "tx_To (lg_heap (ce_ledger ce1) 0) = ''b''" "tx_Amount (lg_heap (ce_ledger ce1) 0) = 30"
proof -
  let ?tx = "chf_tx ''t'' ''a'' ''b'' 30"
  let ?ce = "with_tx ?tx demo_engine"
  have n: "0 < lg_next (ce_ledger ?ce)" by (simp add: with_tx_def newTx_def)
  have h: "lg_heap (ce_ledger ?ce) 0 = ?tx" "lg_currentRound (ce_ledger ?ce) = 0" "length (ce_validators ?ce) = 2"
    by (simp_all add: with_tx_def newTx_def demo_engine_def NewConsensusEngine_def NewLedger_def)
  have f: "acceptable ?tx (ce_ledger ?ce)" "balances (ce_ledger ?ce) ''a'' ''CHF'' = 100"
    "dom (lg_validators (ce_ledger ?ce)) = {''a'', ''b''}"
    by (auto simp add: with_tx_def newTx_def demo_engine_def NewConsensusEngine_def NewLedger_def chf_tx_def acceptable_def
        GetBalance_def balances_def balance_of_def chf_validator_def)
  have t: "tx_ID ?tx = ''t''" "tx_From ?tx = ''a''" "tx_To ?tx = ''b''" "tx_Currency ?tx = ''CHF''" "tx_Amount ?tx = 30"
    by (simp_all add: chf_tx_def)
  show thesis
  proof (rule RunRound_cases [OF engine_ready_with_tx [OF engine_ready_demo] n, of 0 7])
    fix ce'
    assume *: "RunRound 0 7 0 ?ce = ((\<lparr>cres_Confirmed = True, cres_Round = lg_currentRound (ce_ledger ?ce) + 1,
           cres_Votes = length (ce_validators ?ce), cres_TxID = tx_ID (lg_heap (ce_ledger ?ce) 0)\<rparr>, None), ce')"
      "settled 7 0 (ce_ledger ?ce) (ce_ledger ce')" "engine_ready ce'"
    have s: "balances (ce_ledger ce') = transfer ''a'' ''b'' ''CHF'' 30 (balances (ce_ledger ?ce))"
      "lg_confirmed (ce_ledger ce') ''t'' = Some 0" "dom (lg_validators (ce_ledger ce')) = {''a'', ''b''}"
      "lg_next (ce_ledger ce') = lg_next (ce_ledger ?ce)"
      using *(2) f(3) unfolding settled_def h(1) t Let_def by simp_all
    obtain m where hp: "lg_heap (ce_ledger ce') 0 = ?tx\<lparr>tx_Status := TxConfirmed, tx_Nonce := m, tx_Timestamp := 7\<rparr>"
      using *(2) unfolding settled_def h(1) Let_def by (metis fun_upd_same)
    have b: "balances (ce_ledger ce') ''a'' ''CHF'' = 70" using s(1) by (simp add: transfer_def Let_def f(2))
    have k: "lg_validators (ce_ledger ce') ''a'' \<noteq> None" "lg_validators (ce_ledger ce') ''b'' \<noteq> None"
      using s(3) by (metis domIff insertI1, metis domIff insertI1 insert_commute)
    have ac: "acceptable (lg_heap (ce_ledger ce') 0) (ce_ledger ce')"
      using b k by (simp add: acceptable_def hp t balances_def)
    show thesis
      by (rule that [of ce']) (use *(1) h t in simp, use *(3) s(2,4) b n ac in \<open>simp_all add: hp t\<close>)
  qed (use h f in simp_all)
qed

theorem RunRound_pays_again_witness:
  "\<exists>ce1 res ce2. lg_confirmed (ce_ledger ce1) ''t'' = Some 0 \<and> RunRound 0 8 0 ce1 = ((res, None), ce2)
     \<and> balances (ce_ledger ce1) ''a'' ''CHF'' = 70 \<and> balances (ce_ledger ce2) ''a'' ''CHF'' = 40"
proof (rule demo_round)
  fix ce1
  assume *: "engine_ready ce1" "lg_confirmed (ce_ledger ce1) ''t'' = Some 0" "tx_ID (lg_heap (ce_ledger ce1) 0) = ''t''"
    "0 < lg_next (ce_ledger ce1)" "acceptable (lg_heap (ce_ledger ce1) 0) (ce_ledger ce1)"
    "balances (ce_ledger ce1) ''a'' ''CHF'' = 70" "tx_Currency (lg_heap (ce_ledger ce1) 0) = ''CHF''"
    "tx_From (lg_heap (ce_ledger ce1) 0) = ''a''" "tx_To (lg_heap (ce_ledger ce1) 0) = ''b''" "tx_Amount (lg_heap (ce_ledger ce1) 0) = 30"
  obtain res err ce2 where run: "RunRound 0 8 0 ce1 = ((res, err), ce2)" by (metis surj_pair)
  from RunRound_pays_again [OF *(1,4) _ *(5) run, of 0] *(2,3)
  have "err = None" "balances (ce_ledger ce2) = transfer ''a'' ''b'' ''CHF'' 30 (balances (ce_ledger ce1))"
    by (simp_all add: Let_def *(7-10))
  with run *(2,6) show ?thesis by (auto simp: transfer_def Let_def)
qed

text \<open>
  Credits are not checked for overflow: an acceptable transaction to another validator whose
  balance plus the amount exceeds the largest 64-bit integer is confirmed and leaves that
  validator with a negative balance.
\<close>

theorem credit_overflow_wraps:
  assumes "engine_ready ce" and "r < lg_next (ce_ledger ce)" and "tx = lg_heap (ce_ledger ce) r"
    and "acceptable tx (ce_ledger ce)" and "\<not> lg_seen (ce_ledger ce) (tx_ID tx)" and "tx_From tx \<noteq> tx_To tx"
    and "2 ^ 63 \<le> sint (balances (ce_ledger ce) (tx_To tx) (tx_Currency tx)) + sint (tx_Amount tx)"
    and "SubmitAndRunRound pick now r ce = (out, ce')"
  shows "(\<exists>res. out = RoundDone res None \<and> cres_Confirmed res) \<and>
    sint (balances (ce_ledger ce') (tx_To tx) (tx_Currency tx)) =
      sint (balances (ce_ledger ce) (tx_To tx) (tx_Currency tx)) + sint (tx_Amount tx) - 2 ^ 64 \<and>
    balances (ce_ledger ce') (tx_To tx) (tx_Currency tx) <s 0"
proof -
  let ?b = "balances (ce_ledger ce) (tx_To tx) (tx_Currency tx)" and ?a = "tx_Amount tx"
  obtain ce'' where c: "SubmitAndRunRound pick now r ce =
      (RoundDone \<lparr>cres_Confirmed = True, cres_Round = lg_currentRound (ce_ledger ce) + 1,
          cres_Votes = length (ce_validators ce), cres_TxID = tx_ID tx\<rparr> None, ce'')"
    and s: "settled now r (ce_ledger ce) (ce_ledger ce'')"
    by (rule SubmitAndRunRound_cases [OF assms(1,2), of pick now]) (use assms(3-5) in auto)
  with assms(8) have e: "ce'' = ce'" by simp
  from s e assms(3,6) have "balances (ce_ledger ce') (tx_To tx) (tx_Currency tx) = ?b + ?a"
    by (auto simp: settled_def transfer_def Let_def)
  moreover have "sint (?b + ?a) = sint ?b + sint ?a - 2 ^ 64"
  proof -
    have lt: "sint ?b < 2 ^ 63" "sint ?a < 2 ^ 63" using sint_lt [of ?b] sint_lt [of ?a] by simp_all
    have "sint (?b + ?a) = (sint ?b + sint ?a + 2 ^ 63) mod 2 ^ 64 - 2 ^ 63"
      by (simp add: sint_word_add signed_take_bit_eq_take_bit_shift take_bit_eq_mod)
    also have "(sint ?b + sint ?a + 2 ^ 63) mod 2 ^ 64 = (sint ?b + sint ?a + 2 ^ 63 - 2 ^ 64) mod 2 ^ 64"
      by (rule minus_mod_self2 [symmetric])
    also have "\<dots> = sint ?b + sint ?a + 2 ^ 63 - 2 ^ 64"
      using lt assms(7) by (intro mod_pos_pos_trivial) simp_all
    finally show ?thesis by simp
  qed
  moreover have "sint ?b + sint ?a - 2 ^ 64 < 0" using sint_lt [of ?b] sint_lt [of ?a] by simp
  ultimately show ?thesis using c assms(8) by (auto simp: word_sless_alt)
qed

definition rich_engine :: ConsensusEngine where
  "rich_engine = NewConsensusEngine (NewLedger [chf_validator ''a'' 100, chf_validator ''b'' 9223372036854775800])
     [chf_validator ''a'' 100, chf_validator ''b'' 9223372036854775800]"

theorem credit_overflow_wraps_witness:
  "\<exists>out ce'. SubmitAndRunRound 0 7 0 (with_tx (chf_tx ''t'' ''a'' ''b'' 30) rich_engine) = (out, ce')
     \<and> 0 <s balances (ce_ledger (with_tx (chf_tx ''t'' ''a'' ''b'' 30) rich_engine)) ''b'' ''CHF''
     \<and> balances (ce_ledger ce') ''b'' ''CHF'' <s 0"
proof -
  let ?tx = "chf_tx ''t'' ''a'' ''b'' 30"
  let ?ce = "with_tx ?tx rich_engine"
  obtain out ce' where run: "SubmitAndRunRound 0 7 0 ?ce = (out, ce')" by fastforce
  have ready: "engine_ready rich_engine"
    using ledger_inv_New
    by (simp add: engine_ready_def rich_engine_def NewConsensusEngine_def) (simp add: NewLedger_def chf_validator_def)
  have n: "0 < lg_next (ce_ledger ?ce)" by (simp add: with_tx_def newTx_def)
  have h: "?tx = lg_heap (ce_ledger ?ce) 0"
    by (simp add: with_tx_def newTx_def rich_engine_def NewConsensusEngine_def NewLedger_def)
  have t: "tx_ID ?tx = ''t''" "tx_From ?tx = ''a''" "tx_To ?tx = ''b''" "tx_Currency ?tx = ''CHF''" "tx_Amount ?tx = 30"
    by (simp_all add: chf_tx_def)
  have b: "balances (ce_ledger ?ce) ''b'' ''CHF'' = 9223372036854775800"
    by (simp add: with_tx_def newTx_def rich_engine_def NewConsensusEngine_def NewLedger_def
        GetBalance_def balances_def balance_of_def chf_validator_def)
  have f: "acceptable ?tx (ce_ledger ?ce)" "\<not> lg_seen (ce_ledger ?ce) (tx_ID ?tx)"
    by (simp_all add: with_tx_def newTx_def rich_engine_def NewConsensusEngine_def NewLedger_def chf_tx_def acceptable_def
        GetBalance_def balance_of_def chf_validator_def)
  from credit_overflow_wraps [OF engine_ready_with_tx [OF ready] n h f _ _ run] b
  have "balances (ce_ledger ce') ''b'' ''CHF'' <s 0" by (simp add: t)
  moreover have "0 <s (9223372036854775800 :: int64)" by (simp add: word_sless_alt)
  ultimately show ?thesis using run b by auto
qed

end
