(* ===== verification/JP_Model.thy ===== *)
theory JP_Model
  imports JP_Prelude
begin

text \<open>
  The shared data types of \<^verbatim>\<open>pkg/model\<close>: hops, paths, receipts, violations and results, with
  the defaulting functions for evidence labels.  Every field of the Go structs is a field here.
  Message texts that the code only formats for display (the violated clause) are represented by
  the constructor of the format and its arguments.
\<close>

section \<open>path.go\<close>

definition EvidenceClassExplicitDemo :: string where
  "EvidenceClassExplicitDemo = ''explicit-demo''"

definition EvidenceClassSCIONObserved :: string where
  "EvidenceClassSCIONObserved = ''scion-observed''"

definition ProofStatusUnverified :: string where
  "ProofStatusUnverified = ''unverified''"

definition ProofStatusVerified :: string where
  "ProofStatusVerified = ''verified''"

definition ProofStatusMixed :: string where
  "ProofStatusMixed = ''mixed''"

definition ProofStatusObserved :: string where
  "ProofStatusObserved = ''observed''"

record ASHop =
  hop_IA :: string
  hop_ISD :: uint16
  hop_AS :: string
  hop_HopMAC :: bytes

record SCIONPath =
  path_Raw :: bytes
  path_Hops :: "ASHop list"
  path_Fingerprint :: string
  path_EvidenceClass :: string
  path_ProofStatus :: string

definition NormalizeEvidenceClass :: "string \<Rightarrow> string" where
  "NormalizeEvidenceClass value = (if value \<noteq> '''' then value else EvidenceClassExplicitDemo)"

definition NormalizeProofStatus :: "string \<Rightarrow> string" where
  "NormalizeProofStatus value = (if value \<noteq> '''' then value else ProofStatusUnverified)"

lemma NormalizeEvidenceClass_nonempty [simp]: "NormalizeEvidenceClass v \<noteq> ''''"
  by (simp add: NormalizeEvidenceClass_def EvidenceClassExplicitDemo_def)

lemma NormalizeProofStatus_nonempty [simp]: "NormalizeProofStatus v \<noteq> ''''"
  by (simp add: NormalizeProofStatus_def ProofStatusUnverified_def)

lemma NormalizeEvidenceClass_idem [simp]:
  "NormalizeEvidenceClass (NormalizeEvidenceClass v) = NormalizeEvidenceClass v"
  by (simp add: NormalizeEvidenceClass_def)

lemma NormalizeProofStatus_idem [simp]:
  "NormalizeProofStatus (NormalizeProofStatus v) = NormalizeProofStatus v"
  by (simp add: NormalizeProofStatus_def)

section \<open>receipt.go\<close>

record ThresholdSignature =
  ts_OracleID :: string
  ts_Signature :: bytes
  ts_PublicKey :: bytes

record ISDProof =
  proof_IA :: string
  proof_ISD :: uint16
  proof_TRCSerial :: uint64
  proof_CertChain :: bytes
  proof_VerificationStatus :: string
  proof_ProofSource :: string

text \<open>\<open>rcpt_PreviousHash\<close> is an option because the chain validator tests the slice for nil.\<close>

record ComplianceReceipt =
  rcpt_ID :: string
  rcpt_TransactionID :: string
  rcpt_PolicyID :: string
  rcpt_Path :: SCIONPath
  rcpt_EvidenceClass :: string
  rcpt_ProofStatus :: string
  rcpt_ISDProofs :: "ISDProof list"
  rcpt_SeqNo :: uint64
  rcpt_Timestamp :: time
  rcpt_Signature :: bytes
  rcpt_OraclePublicKey :: bytes
  rcpt_PreviousHash :: "bytes option"
  rcpt_ThresholdK :: int
  rcpt_ThresholdN :: int
  rcpt_ThresholdSignatures :: "ThresholdSignature list"

text \<open>Why the replay detector refuses a message (\<^verbatim>\<open>internal/security/replay.go\<close>).\<close>

datatype ReplayError =
    FutureTimestamp time
  | MessageExpired time duration
  | ReplayDetected string uint64
  | OutOfOrderSeqNo uint64 uint64 string

text \<open>The texts of \<open>CheckResult.ViolatedClause\<close>, by format and arguments.\<close>

datatype Clause =
    NoClause
  | UnsupportedPolicyMode string
  | UnauthorizedISDs string "uint16 list"
  | PathReplayDetected ReplayError

record Violation =
  viol_ID :: string
  viol_TransactionID :: string
  viol_PolicyID :: string
  viol_Path :: SCIONPath
  viol_EvidenceClass :: string
  viol_ProofStatus :: string
  viol_ViolatedClause :: Clause
  viol_Severity :: string
  viol_OffendingHops :: "ASHop list"
  viol_Timestamp :: time

record PolicyResult =
  res_Compliant :: bool
  res_Receipt :: "ComplianceReceipt option"
  res_Violation :: "Violation option"

end
