(* ===== verification/JP_Policy.thy ===== *)
theory JP_Policy
  imports JP_Model
begin

text \<open>
  The corridor policies of \<^verbatim>\<open>internal/policy/policy.go\<close>: the record, its validation and the
  directory loader.  The file system and the YAML decoder are outside the sources: the loaders
  take them as functions (\<open>readFile\<close>, \<open>readDir\<close>, \<open>join\<close>, \<open>yamlUnmarshal\<close>).
\<close>

record Policy =
  pol_ID :: string
  pol_Name :: string
  pol_Description :: string
  pol_Version :: int
  pol_AllowedISDs :: "uint16 list"
  pol_Mode :: string

definition ModeStrict :: string where
  "ModeStrict = ''strict''"

datatype PolicyError =
    PolicyIDRequired
  | AllowedISDRequired string
  | ModeRequired string
  | ModeMustBeStrict string string

definition Validate_Policy :: "Policy \<Rightarrow> PolicyError option" where
  "Validate_Policy p =
     (if pol_ID p = '''' then Some PolicyIDRequired
      else if length (pol_AllowedISDs p) = 0 then Some (AllowedISDRequired (pol_ID p))
      else if pol_Mode p = '''' then Some (ModeRequired (pol_ID p))
      else if pol_Mode p \<noteq> ModeStrict then Some (ModeMustBeStrict (pol_ID p) (pol_Mode p))
      else None)"

datatype 'io LoadError =
    ReadingPolicyFile 'io
  | ParsingPolicyYAML 'io
  | InvalidPolicy PolicyError
  | ReadingPolicyDir 'io
  | LoadingFile string "'io LoadError"

definition LoadFromFile ::
  "(string \<Rightarrow> 'io + bytes) \<Rightarrow> (bytes \<Rightarrow> 'io + Policy) \<Rightarrow> string \<Rightarrow> 'io LoadError + Policy" where
  "LoadFromFile readFile yamlUnmarshal path =
     (case readFile path of
        Inl e \<Rightarrow> Inl (ReadingPolicyFile e)
      | Inr data \<Rightarrow>
          (case yamlUnmarshal data of
             Inl e \<Rightarrow> Inl (ParsingPolicyYAML e)
           | Inr p0 \<Rightarrow>
               let p = (if pol_Mode p0 = '''' then p0\<lparr>pol_Mode := ModeStrict\<rparr> else p0)
               in (case Validate_Policy p of
                     Some e \<Rightarrow> Inl (InvalidPolicy e)
                   | None \<Rightarrow> Inr p)))"

record DirEntry =
  de_Name :: string
  de_IsDir :: bool

fun loadEntries ::
  "(string \<Rightarrow> 'io LoadError + Policy) \<Rightarrow> (string \<Rightarrow> string) \<Rightarrow> DirEntry list \<Rightarrow> 'io LoadError + Policy list" where
  "loadEntries load join [] = Inr []"
| "loadEntries load join (e # es) =
     (if de_IsDir e then loadEntries load join es
      else if \<not> hasSuffix (de_Name e) ''.yaml'' then loadEntries load join es
      else (case load (join (de_Name e)) of
              Inl err \<Rightarrow> Inl (LoadingFile (de_Name e) err)
            | Inr p \<Rightarrow> (case loadEntries load join es of Inl err \<Rightarrow> Inl err | Inr ps \<Rightarrow> Inr (p # ps))))"

definition LoadAllFromDir ::
  "(string \<Rightarrow> 'io + DirEntry list) \<Rightarrow> (string \<Rightarrow> 'io + bytes) \<Rightarrow> (string \<Rightarrow> string \<Rightarrow> string) \<Rightarrow>
   (bytes \<Rightarrow> 'io + Policy) \<Rightarrow> string \<Rightarrow> 'io LoadError + Policy list" where
  "LoadAllFromDir readDir readFile join yamlUnmarshal dir =
     (case readDir dir of
        Inl e \<Rightarrow> Inl (ReadingPolicyDir e)
      | Inr entries \<Rightarrow> loadEntries (LoadFromFile readFile yamlUnmarshal) (join dir) entries)"

section \<open>Lemmas\<close>

definition valid_policy :: "Policy \<Rightarrow> bool" where
  "valid_policy p \<longleftrightarrow> pol_ID p \<noteq> '''' \<and> pol_AllowedISDs p \<noteq> [] \<and> pol_Mode p = ModeStrict"

lemma ModeStrict_nonempty [simp]: "ModeStrict \<noteq> ''''"
  by (simp add: ModeStrict_def)

lemma Validate_Policy_None_iff: "Validate_Policy p = None \<longleftrightarrow> valid_policy p"
  by (auto simp: Validate_Policy_def valid_policy_def)

lemma LoadFromFile_valid: "LoadFromFile rf yu path = Inr p \<Longrightarrow> valid_policy p"
  by (auto simp: LoadFromFile_def Let_def Validate_Policy_None_iff split: sum.splits option.splits if_splits)

lemma loadEntries_sound:
  "loadEntries load join es = Inr ps \<Longrightarrow>
     list_all2 (\<lambda>e p. load (join (de_Name e)) = Inr p)
       (filter (\<lambda>e. \<not> de_IsDir e \<and> hasSuffix (de_Name e) ''.yaml'') es) ps"
  by (induction es arbitrary: ps) (auto split: if_splits sum.splits)

lemma LoadAllFromDir_policies:
  assumes "LoadAllFromDir readDir readFile join yaml dir = Inr ps" "p \<in> set ps"
  shows "valid_policy p"
proof -
  from assms(1) obtain entries where "loadEntries (LoadFromFile readFile yaml) (join dir) entries = Inr ps"
    by (auto simp: LoadAllFromDir_def split: sum.splits)
  from loadEntries_sound [OF this] assms(2) show ?thesis
    by (auto simp: list_all2_conv_all_nth in_set_conv_nth intro: LoadFromFile_valid)
qed

text \<open>
  Policies load fail-closed: whatever the directory holds, a successful load yields one
  policy per \<^verbatim>\<open>.yaml\<close> file, in directory order, each with an identifier, at least one
  allowed ISD and the strict mode; a file that does not satisfy this makes the whole load fail.
\<close>

theorem LoadAllFromDir_valid:
  assumes "LoadAllFromDir readDir readFile join yaml dir = Inr ps"
    and "readDir dir = Inr entries"
  shows "length ps = length (filter (\<lambda>e. \<not> de_IsDir e \<and> hasSuffix (de_Name e) ''.yaml'') entries)
    \<and> (\<forall>p\<in>set ps. pol_ID p \<noteq> '''' \<and> pol_AllowedISDs p \<noteq> [] \<and> pol_Mode p = ModeStrict)"
proof -
  let ?load = "LoadFromFile readFile yaml"
  let ?es = "filter (\<lambda>e. \<not> de_IsDir e \<and> hasSuffix (de_Name e) ''.yaml'') entries"
  from assms have "loadEntries ?load (join dir) entries = Inr ps"
    by (simp add: LoadAllFromDir_def)
  then have l: "list_all2 (\<lambda>e p. ?load (join dir (de_Name e)) = Inr p) ?es ps"
    by (rule loadEntries_sound)
  then have "length ps = length ?es" by (simp add: list_all2_lengthD)
  moreover have "valid_policy p" if "p \<in> set ps" for p by (rule LoadAllFromDir_policies [OF assms(1) that])
  ultimately show ?thesis by (simp add: valid_policy_def)
qed

definition demo_policy :: Policy where
  "demo_policy = \<lparr>pol_ID = ''chf-eur-settlement-v1'', pol_Name = ''CHF-EUR'', pol_Description = '''',
     pol_Version = 1, pol_AllowedISDs = [1, 2], pol_Mode = ''''\<rparr>"

theorem LoadAllFromDir_valid_witness:
  "let rd = (\<lambda>_. Inr [\<lparr>de_Name = ''old'', de_IsDir = True\<rparr>, \<lparr>de_Name = ''eu.yaml'', de_IsDir = False\<rparr>]);
       ps = LoadAllFromDir rd (\<lambda>_. Inr []) (\<lambda>d n. d @ n) (\<lambda>_. Inr demo_policy :: unit + Policy) ''p/''
   in ps = Inr [demo_policy\<lparr>pol_Mode := ModeStrict\<rparr>] \<and> length (projr ps) = 1"
proof -
  let ?rd = "\<lambda>_. Inr [\<lparr>de_Name = ''old'', de_IsDir = True\<rparr>, \<lparr>de_Name = ''eu.yaml'', de_IsDir = False\<rparr>]"
  let ?ps = "LoadAllFromDir ?rd (\<lambda>_. Inr []) (\<lambda>d n. d @ n) (\<lambda>_. Inr demo_policy :: unit + Policy) ''p/''"
  have 1: "?ps = Inr [demo_policy\<lparr>pol_Mode := ModeStrict\<rparr>]"
    by (simp add: LoadAllFromDir_def LoadFromFile_def Validate_Policy_def demo_policy_def hasSuffix_def)
  show ?thesis
    using LoadAllFromDir_valid [OF 1 refl] 1 by (simp add: hasSuffix_def Let_def)
qed

end
