(* ===== verification/JP_Replay.thy ===== *)
theory JP_Replay
  imports JP_Model
begin

text \<open>
  The replay detector of \<^verbatim>\<open>internal/security/replay.go\<close>.  The two calls of \<open>time.Now\<close> that
  one \<open>Check\<close> can make (its own and the one inside \<open>cleanupLocked\<close>) are the arguments
  \<open>now\<close> and \<open>now'\<close>.  The mutex makes every operation atomic, so a use of the detector is a
  sequence of operations, modelled by \<open>rd_run\<close>.
\<close>

section \<open>Definitions\<close>

definition DefaultValidityWindow :: duration where
  "DefaultValidityWindow = 30 * second"

definition MaxClockSkew :: duration where
  "MaxClockSkew = 5 * second"

record ReplayDetector =
  rd_window :: duration
  rd_seen :: "(string, (uint64, time) mapping) mapping"
  rd_lastSeqNo :: "(string, uint64) mapping"
  rd_lastCleanup :: time

definition NewReplayDetector :: "duration \<Rightarrow> ReplayDetector" where
  "NewReplayDetector window =
     \<lparr>rd_window = (if window = 0 then DefaultValidityWindow else window),
      rd_seen = Mapping.empty, rd_lastSeqNo = Mapping.empty, rd_lastCleanup = zeroTime\<rparr>"

text \<open>
  \<open>cleanupLocked\<close> removes expired entries from every fingerprint's set; a fingerprint whose
  set is left empty is forgotten together with its last sequence number.
\<close>

definition cleanupLocked :: "time \<Rightarrow> ReplayDetector \<Rightarrow> ReplayDetector" where
  "cleanupLocked now rd =
     (let cutoff = now - rd_window rd;
          pruned = Mapping.map_values (\<lambda>fp seqNos. Mapping.filter (\<lambda>seq ts. \<not> ts < cutoff) seqNos) (rd_seen rd)
      in rd\<lparr>rd_seen := Mapping.filter (\<lambda>fp seqNos. \<not> Mapping.is_empty seqNos) pruned,
            rd_lastSeqNo := Mapping.filter
              (\<lambda>fp lastSeq. case Mapping.lookup pruned fp of
                           None \<Rightarrow> True
                         | Some seqNos \<Rightarrow> \<not> Mapping.is_empty seqNos) (rd_lastSeqNo rd)\<rparr>)"

definition Cleanup :: "time \<Rightarrow> ReplayDetector \<Rightarrow> ReplayDetector" where
  "Cleanup now rd = cleanupLocked now rd"

definition replay_record :: "string \<Rightarrow> uint64 \<Rightarrow> time \<Rightarrow> ReplayDetector \<Rightarrow> ReplayDetector" where
  "replay_record fp seqNo timestamp rd =
     (let seqNos = (case Mapping.lookup (rd_seen rd) fp of None \<Rightarrow> Mapping.empty | Some m \<Rightarrow> m)
      in rd\<lparr>rd_seen := Mapping.update fp (Mapping.update seqNo timestamp seqNos) (rd_seen rd),
            rd_lastSeqNo := Mapping.update fp seqNo (rd_lastSeqNo rd)\<rparr>)"

definition already_seen :: "ReplayDetector \<Rightarrow> string \<Rightarrow> uint64 \<Rightarrow> bool" where
  "already_seen rd fp seqNo =
     (case Mapping.lookup (rd_seen rd) fp of
        None \<Rightarrow> False
      | Some seqNos \<Rightarrow> Mapping.lookup seqNos seqNo \<noteq> None)"

definition not_increasing :: "ReplayDetector \<Rightarrow> string \<Rightarrow> uint64 \<Rightarrow> uint64 option" where
  "not_increasing rd fp seqNo =
     (case Mapping.lookup (rd_lastSeqNo rd) fp of
        None \<Rightarrow> None
      | Some lastSeq \<Rightarrow> if seqNo \<le> lastSeq then Some lastSeq else None)"

definition replay_Check ::
  "string \<Rightarrow> uint64 \<Rightarrow> time \<Rightarrow> time \<Rightarrow> time \<Rightarrow> ReplayDetector \<Rightarrow> ReplayError option \<times> ReplayDetector" where
  "replay_Check fp seqNo timestamp now now' rd =
     (if timestamp > now + MaxClockSkew then (Some (FutureTimestamp timestamp), rd)
      else if time_Sub now timestamp > rd_window rd
        then (Some (MessageExpired timestamp (rd_window rd)), rd)
      else if already_seen rd fp seqNo then (Some (ReplayDetected fp seqNo), rd)
      else case not_increasing rd fp seqNo of
             Some lastSeq \<Rightarrow> (Some (OutOfOrderSeqNo seqNo lastSeq fp), rd)
           | None \<Rightarrow>
               let rd1 = replay_record fp seqNo timestamp rd
               in if time_Sub now (rd_lastCleanup rd1) \<ge> rd_window rd1
                  then (None, (cleanupLocked now' rd1)\<lparr>rd_lastCleanup := now\<rparr>)
                  else (None, rd1))"

text \<open>A sequence of operations on one detector, with the clock readings each of them makes.\<close>

datatype rd_op =
    RdCheck string uint64 time time time
  | RdCleanup time

fun rd_step :: "rd_op \<Rightarrow> ReplayDetector \<Rightarrow> ReplayDetector" where
  "rd_step (RdCheck fp seqNo ts now now') rd = snd (replay_Check fp seqNo ts now now' rd)"
| "rd_step (RdCleanup now) rd = Cleanup now rd"

fun rd_run :: "rd_op list \<Rightarrow> ReplayDetector \<Rightarrow> ReplayDetector" where
  "rd_run [] rd = rd"
| "rd_run (p # ps) rd = rd_run ps (rd_step p rd)"

text \<open>The clock does not run backwards.\<close>

fun clock_ok :: "time \<Rightarrow> rd_op list \<Rightarrow> bool" where
  "clock_ok t [] = True"
| "clock_ok t (RdCheck fp seqNo ts now now' # ps) = (t \<le> now \<and> now \<le> now' \<and> clock_ok now' ps)"
| "clock_ok t (RdCleanup now # ps) = (t \<le> now \<and> clock_ok now ps)"

section \<open>The entries of a detector\<close>

definition seen_at :: "ReplayDetector \<Rightarrow> string \<Rightarrow> uint64 \<Rightarrow> time option" where
  "seen_at rd fp seqNo = Option.bind (Mapping.lookup (rd_seen rd) fp) (\<lambda>m. Mapping.lookup m seqNo)"

definition last_of :: "ReplayDetector \<Rightarrow> string \<Rightarrow> uint64 option" where
  "last_of rd fp = Mapping.lookup (rd_lastSeqNo rd) fp"

text \<open>
  The detector's representation invariant: a fingerprint has a last sequence number exactly when
  it has a set of seen ones, that set is not empty, and no seen number exceeds the last.
\<close>

definition rd_inv :: "ReplayDetector \<Rightarrow> bool" where
  "rd_inv rd \<longleftrightarrow>
     (\<forall>fp. (last_of rd fp = None \<longleftrightarrow> Mapping.lookup (rd_seen rd) fp = None)
         \<and> (\<forall>m. Mapping.lookup (rd_seen rd) fp = Some m \<longrightarrow> \<not> Mapping.is_empty m)
         \<and> (\<forall>l s ts. last_of rd fp = Some l \<longrightarrow> seen_at rd fp s = Some ts \<longrightarrow> s \<le> l))"

lemmas rd_defs = seen_at_def last_of_def already_seen_def not_increasing_def replay_record_def

lemma already_seen_iff: "already_seen rd fp s \<longleftrightarrow> seen_at rd fp s \<noteq> None"
  by (auto simp: rd_defs split: option.splits)

lemma not_increasing_None_iff:
  "not_increasing rd fp s = None \<longleftrightarrow> (\<forall>l. last_of rd fp = Some l \<longrightarrow> l < s)"
  by (auto simp: rd_defs split: option.splits)

lemma seen_at_record:
  "seen_at (replay_record fp s ts rd) fp' s' =
     (if fp' = fp \<and> s' = s then Some ts else seen_at rd fp' s')"
  by (auto simp: rd_defs Let_def mapping_simps split: option.splits)

lemma last_of_record:
  "last_of (replay_record fp s ts rd) fp' = (if fp' = fp then Some s else last_of rd fp')"
  by (simp add: rd_defs Let_def mapping_simps)

lemma seen_at_cleanup:
  "seen_at (cleanupLocked now rd) fp s =
     (case seen_at rd fp s of None \<Rightarrow> None | Some ts \<Rightarrow> if ts < now - rd_window rd then None else Some ts)"
  by (auto simp: seen_at_def cleanupLocked_def Let_def mapping_simps split: option.splits)

lemma last_of_cleanup:
  assumes "seen_at rd fp s = Some ts" "\<not> ts < now - rd_window rd"
  shows "last_of (cleanupLocked now rd) fp = last_of rd fp"
  using assms
  by (auto simp: last_of_def seen_at_def cleanupLocked_def Let_def mapping_simps
      split: option.splits bind_splits)

lemma window_frame [simp, frame_simps]:
  "rd_window (cleanupLocked now rd) = rd_window rd"
  "rd_window (replay_record fp s ts rd) = rd_window rd"
  "rd_lastCleanup (replay_record fp s ts rd) = rd_lastCleanup rd"
  by (simp_all add: cleanupLocked_def replay_record_def Let_def)

lemma lastCleanup_upd [simp]:
  "seen_at (rd\<lparr>rd_lastCleanup := t\<rparr>) = seen_at rd"
  "last_of (rd\<lparr>rd_lastCleanup := t\<rparr>) = last_of rd"
  by (simp_all add: fun_eq_iff seen_at_def last_of_def)

section \<open>What one check does\<close>

lemma replay_Check_rejects_same [simp]:
  "fst (replay_Check fp s ts now now' rd) \<noteq> None \<Longrightarrow> snd (replay_Check fp s ts now now' rd) = rd"
  by (auto simp: replay_Check_def Let_def split: if_splits option.splits)

lemma replay_Check_accept_iff:
  "fst (replay_Check fp s ts now now' rd) = None \<longleftrightarrow>
     ts \<le> now + MaxClockSkew \<and> time_Sub now ts \<le> rd_window rd \<and>
     seen_at rd fp s = None \<and> (\<forall>l. last_of rd fp = Some l \<longrightarrow> l < s)"
proof -
  have "fst (replay_Check fp s ts now now' rd) = None \<longleftrightarrow>
      ts \<le> now + MaxClockSkew \<and> time_Sub now ts \<le> rd_window rd \<and>
      \<not> already_seen rd fp s \<and> not_increasing rd fp s = None"
    by (auto simp: replay_Check_def Let_def split: option.splits)
  then show ?thesis by (simp add: already_seen_iff not_increasing_None_iff)
qed

lemma replay_Check_accepted:
  assumes "fst (replay_Check fp s ts now now' rd) = None"
  shows "snd (replay_Check fp s ts now now' rd) = replay_record fp s ts rd \<or>
         snd (replay_Check fp s ts now now' rd) =
           (cleanupLocked now' (replay_record fp s ts rd))\<lparr>rd_lastCleanup := now\<rparr>"
  using assms by (auto simp: replay_Check_def Let_def split: if_splits option.splits)

lemma replay_Check_window [simp]: "rd_window (snd (replay_Check fp s ts now now' rd)) = rd_window rd"
  by (auto simp: replay_Check_def Let_def split: option.splits)

lemma replay_Check_windowD: "replay_Check fp s ts now now' rd = (e, rd') \<Longrightarrow> rd_window rd' = rd_window rd"
  by (metis replay_Check_window snd_conv)

lemma rd_step_window [simp]: "rd_window (rd_step p rd) = rd_window rd"
  by (cases p) (simp_all add: Cleanup_def)

lemma rd_run_window [simp]: "rd_window (rd_run ps rd) = rd_window rd"
  by (induction ps arbitrary: rd) simp_all

section \<open>The representation invariant is kept\<close>

lemma rd_inv_New: "rd_inv (NewReplayDetector w)"
  by (simp add: rd_inv_def NewReplayDetector_def last_of_def seen_at_def)

lemma rd_inv_dom: "rd_inv rd \<Longrightarrow> last_of rd fp = None \<longleftrightarrow> Mapping.lookup (rd_seen rd) fp = None"
  by (simp add: rd_inv_def)

lemma rd_inv_seen:
  assumes "rd_inv rd" "seen_at rd fp s = Some ts"
  obtains l where "last_of rd fp = Some l" "s \<le> l"
proof -
  from assms(2) have "Mapping.lookup (rd_seen rd) fp \<noteq> None"
    by (auto simp: seen_at_def bind_eq_Some_conv)
  with assms(1) have "last_of rd fp \<noteq> None" by (simp add: rd_inv_dom)
  then obtain l where l: "last_of rd fp = Some l" by blast
  with assms have "s \<le> l" unfolding rd_inv_def by blast
  with l show ?thesis by (rule that)
qed

lemma rd_inv_record:
  assumes "rd_inv rd" "\<forall>l. last_of rd fp = Some l \<longrightarrow> l < s"
  shows "rd_inv (replay_record fp s ts rd)"
proof -
  let ?rd = "replay_record fp s ts rd"
  have 1: "(last_of ?rd f = None) = (Mapping.lookup (rd_seen ?rd) f = None)" for f
    using assms(1) by (simp add: rd_inv_def rd_defs Let_def mapping_simps)
  have 2: "\<not> Mapping.is_empty m" if "Mapping.lookup (rd_seen ?rd) f = Some m" for f m
    using assms(1) that by (auto simp: rd_inv_def rd_defs Let_def lookup_update' split: if_splits)
  have 3: "k \<le> l" if a: "last_of ?rd f = Some l" and b: "seen_at ?rd f k = Some u" for f l k u
  proof (cases "f = fp \<and> k \<noteq> s")
    case True
    with a b have l: "l = s" and k: "seen_at rd fp k = Some u"
      by (simp_all add: last_of_record seen_at_record)
    from assms(1) k obtain l0 where l0: "last_of rd fp = Some l0" and "k \<le> l0"
      by (rule rd_inv_seen)
    note this(2)
    also have "l0 < s" using assms(2) l0 by simp
    finally show ?thesis using l by simp
  next
    case False
    with a b assms(1) show ?thesis
      by (auto simp: last_of_record seen_at_record rd_inv_def split: if_splits)
  qed
  from 1 2 3 show ?thesis by (simp add: rd_inv_def)
qed

lemma rd_inv_cleanup:
  assumes "rd_inv rd"
  shows "rd_inv (cleanupLocked now rd)"
proof -
  let ?rd = "cleanupLocked now rd"
  have 1: "(last_of ?rd f = None) = (Mapping.lookup (rd_seen ?rd) f = None)" for f
    using rd_inv_dom [OF assms, of f]
    by (auto simp: last_of_def cleanupLocked_def Let_def lookup_filter lookup_map_values
        split: option.splits)
  have 2: "\<not> Mapping.is_empty m" if "Mapping.lookup (rd_seen ?rd) f = Some m" for f m
    using that by (auto simp: cleanupLocked_def Let_def lookup_filter split: option.splits if_splits)
  have 3: "k \<le> l" if "last_of ?rd f = Some l" "seen_at ?rd f k = Some u" for f l k u
  proof -
    from that(2) have old: "seen_at rd f k = Some u"
      by (auto simp: seen_at_cleanup split: option.splits if_splits)
    moreover from that(1) have "last_of rd f = Some l"
      by (auto simp: last_of_def cleanupLocked_def Let_def lookup_filter split: option.splits if_splits)
    ultimately show ?thesis using assms by (simp add: rd_inv_def)
  qed
  from 1 2 3 show ?thesis by (simp add: rd_inv_def)
qed

lemma rd_inv_lastCleanup [simp]: "rd_inv (rd\<lparr>rd_lastCleanup := t\<rparr>) = rd_inv rd"
  by (simp add: rd_inv_def)

lemma rd_inv_Check: "rd_inv rd \<Longrightarrow> rd_inv (snd (replay_Check fp s ts now now' rd))"
proof (cases "fst (replay_Check fp s ts now now' rd) = None")
  case True
  assume "rd_inv rd"
  with True have r: "rd_inv (replay_record fp s ts rd)"
    by (simp add: replay_Check_accept_iff rd_inv_record)
  from replay_Check_accepted [OF True] r show ?thesis
    by (auto simp: rd_inv_cleanup)
qed simp

lemma rd_inv_step: "rd_inv rd \<Longrightarrow> rd_inv (rd_step p rd)"
  by (cases p) (simp_all add: rd_inv_Check rd_inv_cleanup Cleanup_def)

lemma rd_inv_run: "rd_inv rd \<Longrightarrow> rd_inv (rd_run ps rd)"
  by (induction ps arbitrary: rd) (simp_all add: rd_inv_step)

section \<open>No message is accepted twice\<close>

text \<open>
  What a detector remembers of an accepted message: it is on record, below the last sequence
  number of its fingerprint, or it is older than the window, now and for ever.
\<close>

definition guarded :: "string \<Rightarrow> uint64 \<Rightarrow> time \<Rightarrow> time \<Rightarrow> ReplayDetector \<Rightarrow> bool" where
  "guarded fp s ts t rd \<longleftrightarrow>
     (seen_at rd fp s = Some ts \<and> (\<exists>l. last_of rd fp = Some l \<and> s \<le> l)) \<or> rd_window rd < t - ts"

lemma guarded_later: "guarded fp s ts t rd \<Longrightarrow> t \<le> t' \<Longrightarrow> guarded fp s ts t' rd"
  by (auto simp: guarded_def)

lemma guarded_lastCleanup [simp]:
  "guarded fp s ts t (rd\<lparr>rd_lastCleanup := u\<rparr>) = guarded fp s ts t rd"
  by (simp add: guarded_def)

lemma guarded_cleanup: "guarded fp s ts t rd \<Longrightarrow> t \<le> now \<Longrightarrow> guarded fp s ts now (cleanupLocked now rd)"
  by (cases "ts < now - rd_window rd") (auto simp: guarded_def seen_at_cleanup last_of_cleanup)

lemma guarded_record_self: "guarded fp s ts t (replay_record fp s ts rd)"
  by (auto simp: guarded_def seen_at_record last_of_record)

lemma guarded_record_other:
  assumes "guarded fp s ts t rd" "\<forall>l. last_of rd fp' = Some l \<longrightarrow> l < s'"
  shows "guarded fp s ts t (replay_record fp' s' ts' rd)"
  using assms by (auto simp: guarded_def seen_at_record last_of_record split: if_splits)

lemma guarded_Check:
  assumes "guarded fp s ts t rd" "t \<le> now" "now \<le> now'"
  shows "guarded fp s ts now' (snd (replay_Check fp' s' ts' now now' rd))"
proof (cases "fst (replay_Check fp' s' ts' now now' rd) = None")
  case True
  then have "guarded fp s ts t (replay_record fp' s' ts' rd)"
    using assms(1) by (auto intro: guarded_record_other simp: replay_Check_accept_iff)
  then have "guarded fp s ts now' (replay_record fp' s' ts' rd)"
    by (rule guarded_later) (use assms(2,3) in simp)
  with replay_Check_accepted [OF True] show ?thesis
    by (auto intro: guarded_cleanup)
next
  case False
  with assms show ?thesis by (auto intro: guarded_later)
qed

lemma guarded_run:
  "guarded fp s ts t rd \<Longrightarrow> clock_ok t (ps @ [RdCheck fp s ts now now']) \<Longrightarrow>
     guarded fp s ts now (rd_run ps rd)"
proof (induction ps arbitrary: t rd)
  case Nil
  then show ?case by (auto intro: guarded_later)
next
  case (Cons p ps)
  show ?case
  proof (cases p)
    case (RdCheck f k u n n')
    with Cons show ?thesis by (auto intro: guarded_Check)
  next
    case (RdCleanup n)
    with Cons show ?thesis by (auto intro: guarded_cleanup simp: Cleanup_def)
  qed
qed

lemma guarded_rejects:
  assumes "guarded fp s ts now rd" "minDuration \<le> rd_window rd" "rd_window rd < maxDuration"
  shows "fst (replay_Check fp s ts now now' rd) \<noteq> None"
  using assms time_Sub_gt [OF assms(3,2), of now ts]
  by (auto simp: guarded_def replay_Check_accept_iff)

lemma guarded_after_accept:
  assumes "fst (replay_Check fp s ts now now' rd) = None" "now \<le> now'"
  shows "guarded fp s ts now' (snd (replay_Check fp s ts now now' rd))"
  using replay_Check_accepted [OF assms(1)] guarded_cleanup [OF guarded_record_self order_refl]
  by (auto intro: guarded_record_self)

text \<open>
  C21. Replay safety: once a message (fingerprint, sequence number, timestamp) has been accepted,
  no later presentation of the same message is accepted, whatever checks and cleanups happen in
  between, as long as the clock does not run backwards; in particular the pruning of expired
  entries, which also forgets the last sequence number, never reopens the door.
\<close>

theorem replay_no_double_accept:
  assumes "fst (replay_Check fp s ts now now' rd) = None"
    and "now \<le> now'"
    and "clock_ok now' (ps @ [RdCheck fp s ts later later'])"
    and "minDuration \<le> rd_window rd" and "rd_window rd < maxDuration"
  shows "fst (replay_Check fp s ts later later' (rd_run ps (snd (replay_Check fp s ts now now' rd)))) \<noteq> None"
proof -
  let ?rd = "snd (replay_Check fp s ts now now' rd)"
  have "guarded fp s ts now' ?rd" using assms(1,2) by (rule guarded_after_accept)
  then have "guarded fp s ts later (rd_run ps ?rd)" using assms(3) by (rule guarded_run)
  then show ?thesis using assms(4,5) by (intro guarded_rejects) simp_all
qed

lemma clock_example: "clock_ok 100000000000 [RdCleanup 200000000000, RdCheck ''fp'' 7 100000000000 200000000001 200000000002]"
  by simp

theorem replay_no_double_accept_witness:
  "fst (replay_Check ''fp'' 7 100000000000 100000000000 100000000000 (NewReplayDetector 0)) = None \<and>
   fst (replay_Check ''fp'' 7 100000000000 200000000001 200000000002
         (rd_run [RdCleanup 200000000000]
            (snd (replay_Check ''fp'' 7 100000000000 100000000000 100000000000 (NewReplayDetector 0))))) \<noteq> None"
proof -
  have a: "fst (replay_Check ''fp'' 7 100000000000 100000000000 100000000000 (NewReplayDetector 0)) = None"
    by (simp add: replay_Check_accept_iff NewReplayDetector_def rd_defs time_Sub_def
        MaxClockSkew_def DefaultValidityWindow_def second_def minDuration_def maxDuration_def)
  have w: "minDuration \<le> rd_window (NewReplayDetector 0)" "rd_window (NewReplayDetector 0) < maxDuration"
    by (simp_all add: NewReplayDetector_def DefaultValidityWindow_def second_def minDuration_def maxDuration_def)
  show ?thesis
    using a replay_no_double_accept [OF a order_refl _ w, of "[RdCleanup 200000000000]" 200000000001 200000000002]
    by simp
qed

text \<open>
  The detector's bookkeeping invariant holds after every sequence of operations on a new
  detector, and under it the explicit duplicate test is subsumed by the ordering test: a message
  is accepted exactly when its timestamp is neither ahead of the clock by more than the skew nor
  older than the window and its sequence number exceeds the last one on record for its
  fingerprint.
\<close>

theorem replay_Check_spec:
  "let rd = rd_run ps (NewReplayDetector w) in
    rd_inv rd \<and>
    (fst (replay_Check fp s ts now now' rd) = None \<longleftrightarrow>
       ts \<le> now + MaxClockSkew \<and> time_Sub now ts \<le> rd_window rd \<and>
       (case Mapping.lookup (rd_lastSeqNo rd) fp of None \<Rightarrow> True | Some l \<Rightarrow> l < s))"
proof -
  define rd where "rd = rd_run ps (NewReplayDetector w)"
  have inv: "rd_inv rd" unfolding rd_def by (intro rd_inv_run rd_inv_New)
  have "seen_at rd fp s = None" if "\<forall>l. last_of rd fp = Some l \<longrightarrow> l < s"
  proof (rule ccontr)
    assume "seen_at rd fp s \<noteq> None"
    then obtain u where u: "seen_at rd fp s = Some u" by auto
    from inv u obtain l where "last_of rd fp = Some l" "s \<le> l" by (rule rd_inv_seen)
    with that show False by auto
  qed
  with inv show ?thesis
    unfolding rd_def [symmetric] Let_def
    by (auto simp: replay_Check_accept_iff last_of_def split: option.splits)
qed

text \<open>
  Memory is bounded by the window: after a cleanup every remembered timestamp is at most one
  window older than the cleanup's clock reading, and no remembered entry inside the window is
  lost.
\<close>

theorem cleanup_keeps_exactly_the_window:
  "seen_at (Cleanup now rd) fp s = Some ts \<longleftrightarrow> seen_at rd fp s = Some ts \<and> now - rd_window rd \<le> ts"
  by (auto simp: Cleanup_def seen_at_cleanup split: option.splits if_splits)

end
