(* ===== verification/JP_Pathcheck.thy ===== *)
theory JP_Pathcheck
  imports JP_Policy JP_Replay
begin

text \<open>
  The path checker and the path filter of \<^verbatim>\<open>internal/pathcheck\<close>.  The checker's clock reading
  for the replay detector and the two readings the detector makes itself are arguments.
\<close>

section \<open>compliance.go\<close>

definition CheckHopsCompliant :: "ASHop list \<Rightarrow> uint16 list \<Rightarrow> string \<Rightarrow> ASHop list" where
  "CheckHopsCompliant hops allowedISDs mode =
     (if length hops = 0 then []
      else if mode = ModeStrict then filter (\<lambda>hop. hop_ISD hop \<notin> set allowedISDs) hops
      else hops)"

section \<open>checker.go\<close>

record Checker =
  chk_policy :: Policy
  chk_replayDetector :: "ReplayDetector option"

definition NewChecker :: "Policy \<Rightarrow> Checker" where
  "NewChecker p = \<lparr>chk_policy = p, chk_replayDetector = None\<rparr>"

definition SetReplayDetector :: "ReplayDetector \<Rightarrow> Checker \<Rightarrow> Checker" where
  "SetReplayDetector rd c = c\<lparr>chk_replayDetector := Some rd\<rparr>"

record CheckResult =
  cr_Compliant :: bool
  cr_OffendingHops :: "ASHop list"
  cr_ViolatedClause :: Clause

datatype CheckError = PathHasNoHops

definition Checker_Check ::
  "SCIONPath \<Rightarrow> time \<Rightarrow> time \<Rightarrow> time \<Rightarrow> Checker \<Rightarrow> (CheckError + CheckResult) \<times> Checker" where
  "Checker_Check path ts now now' c =
     (let pol = chk_policy c in
      if length (path_Hops path) = 0 then (Inl PathHasNoHops, c)
      else if pol_Mode pol \<noteq> ModeStrict then
        (Inr \<lparr>cr_Compliant = False, cr_OffendingHops = path_Hops path,
              cr_ViolatedClause = UnsupportedPolicyMode (pol_Mode pol)\<rparr>, c)
      else
        let offending = CheckHopsCompliant (path_Hops path) (pol_AllowedISDs pol) (pol_Mode pol) in
        if length offending > 0 then
          (Inr \<lparr>cr_Compliant = False, cr_OffendingHops = offending,
                cr_ViolatedClause = UnauthorizedISDs (pol_ID pol) (pol_AllowedISDs pol)\<rparr>, c)
        else case chk_replayDetector c of
               None \<Rightarrow> (Inr \<lparr>cr_Compliant = True, cr_OffendingHops = [], cr_ViolatedClause = NoClause\<rparr>, c)
             | Some rd \<Rightarrow>
                 (case replay_Check (path_Fingerprint path) 0 ts now now' rd of
                    (Some err, rd') \<Rightarrow>
                      (Inr \<lparr>cr_Compliant = False, cr_OffendingHops = [],
                            cr_ViolatedClause = PathReplayDetected err\<rparr>, c\<lparr>chk_replayDetector := Some rd'\<rparr>)
                  | (None, rd') \<Rightarrow>
                      (Inr \<lparr>cr_Compliant = True, cr_OffendingHops = [], cr_ViolatedClause = NoClause\<rparr>,
                       c\<lparr>chk_replayDetector := Some rd'\<rparr>)))"

section \<open>filter.go\<close>

record FilterResult =
  fr_Compliant :: "SCIONPath list"
  fr_NonCompliant :: "SCIONPath list"

text \<open>A \<open>PathFilter\<close> holds only its policy.\<close>

fun filterLoop :: "Policy \<Rightarrow> SCIONPath list \<Rightarrow> FilterResult \<Rightarrow> FilterResult" where
  "filterLoop pol [] r = r"
| "filterLoop pol (p # ps) r =
     (if length (path_Hops p) > 0 \<and>
         length (CheckHopsCompliant (path_Hops p) (pol_AllowedISDs pol) (pol_Mode pol)) = 0
      then filterLoop pol ps (r\<lparr>fr_Compliant := fr_Compliant r @ [p]\<rparr>)
      else filterLoop pol ps (r\<lparr>fr_NonCompliant := fr_NonCompliant r @ [p]\<rparr>))"

definition FilterPaths :: "Policy \<Rightarrow> SCIONPath list \<Rightarrow> FilterResult" where
  "FilterPaths pol paths =
     (let result = \<lparr>fr_Compliant = [], fr_NonCompliant = []\<rparr> in
      if pol_Mode pol \<noteq> ModeStrict
      then result\<lparr>fr_NonCompliant := fr_NonCompliant result @ paths\<rparr>
      else filterLoop pol paths result)"

section \<open>The corridor specification and the lemmas\<close>

text \<open>What a corridor policy promises: a non-empty path, a strict policy, every hop allowed.\<close>

definition within_corridor :: "Policy \<Rightarrow> SCIONPath \<Rightarrow> bool" where
  "within_corridor pol path \<longleftrightarrow>
     path_Hops path \<noteq> [] \<and> pol_Mode pol = ModeStrict \<and>
     (\<forall>hop\<in>set (path_Hops path). hop_ISD hop \<in> set (pol_AllowedISDs pol))"

lemma CheckHopsCompliant_strict_empty_iff:
  "CheckHopsCompliant hops isds ModeStrict = [] \<longleftrightarrow> (\<forall>h\<in>set hops. hop_ISD h \<in> set isds)"
  by (auto simp: CheckHopsCompliant_def filter_empty_conv)

lemma CheckHopsCompliant_subset: "set (CheckHopsCompliant hops isds mode) \<subseteq> set hops"
  by (auto simp: CheckHopsCompliant_def)

lemma within_corridor_iff:
  "within_corridor pol path \<longleftrightarrow>
     path_Hops path \<noteq> [] \<and> pol_Mode pol = ModeStrict \<and>
     CheckHopsCompliant (path_Hops path) (pol_AllowedISDs pol) (pol_Mode pol) = []"
  by (auto simp: within_corridor_def CheckHopsCompliant_strict_empty_iff)

lemma Checker_Check_cases:
  obtains
    (no_hops) "path_Hops path = []" "Checker_Check path ts now now' c = (Inl PathHasNoHops, c)"
  | (bad_mode) "path_Hops path \<noteq> []" "pol_Mode (chk_policy c) \<noteq> ModeStrict"
      "Checker_Check path ts now now' c =
        (Inr \<lparr>cr_Compliant = False, cr_OffendingHops = path_Hops path,
              cr_ViolatedClause = UnsupportedPolicyMode (pol_Mode (chk_policy c))\<rparr>, c)"
  | (offending) "path_Hops path \<noteq> []" "pol_Mode (chk_policy c) = ModeStrict"
      "\<not> within_corridor (chk_policy c) path"
      "Checker_Check path ts now now' c =
        (Inr \<lparr>cr_Compliant = False,
              cr_OffendingHops = filter (\<lambda>h. hop_ISD h \<notin> set (pol_AllowedISDs (chk_policy c))) (path_Hops path),
              cr_ViolatedClause = UnauthorizedISDs (pol_ID (chk_policy c)) (pol_AllowedISDs (chk_policy c))\<rparr>, c)"
  | (no_detector) "within_corridor (chk_policy c) path" "chk_replayDetector c = None"
      "Checker_Check path ts now now' c =
        (Inr \<lparr>cr_Compliant = True, cr_OffendingHops = [], cr_ViolatedClause = NoClause\<rparr>, c)"
  | (replayed) rd e rd' where "within_corridor (chk_policy c) path" "chk_replayDetector c = Some rd"
      "replay_Check (path_Fingerprint path) 0 ts now now' rd = (Some e, rd')"
      "Checker_Check path ts now now' c =
        (Inr \<lparr>cr_Compliant = False, cr_OffendingHops = [], cr_ViolatedClause = PathReplayDetected e\<rparr>,
         c\<lparr>chk_replayDetector := Some rd'\<rparr>)"
  | (fresh) rd rd' where "within_corridor (chk_policy c) path" "chk_replayDetector c = Some rd"
      "replay_Check (path_Fingerprint path) 0 ts now now' rd = (None, rd')"
      "Checker_Check path ts now now' c =
        (Inr \<lparr>cr_Compliant = True, cr_OffendingHops = [], cr_ViolatedClause = NoClause\<rparr>,
         c\<lparr>chk_replayDetector := Some rd'\<rparr>)"
proof (cases "path_Hops path = [] \<or> pol_Mode (chk_policy c) \<noteq> ModeStrict")
  case True
  then show thesis by (cases "path_Hops path = []") (auto simp: Checker_Check_def intro: no_hops bad_mode)
next
  case strict: False
  show thesis
  proof (cases "within_corridor (chk_policy c) path")
    case False
    with strict have "CheckHopsCompliant (path_Hops path) (pol_AllowedISDs (chk_policy c)) ModeStrict \<noteq> []"
      by (simp add: within_corridor_iff)
    with strict False show thesis
      by (auto simp: Checker_Check_def Let_def CheckHopsCompliant_def intro: offending)
  next
    case True
    then have ok: "CheckHopsCompliant (path_Hops path) (pol_AllowedISDs (chk_policy c)) ModeStrict = []"
      by (auto simp: within_corridor_iff)
    show thesis
    proof (cases "chk_replayDetector c")
      case None
      with True strict ok show thesis by (auto simp: Checker_Check_def intro: no_detector)
    next
      case (Some rd)
      obtain e rd' where r: "replay_Check (path_Fingerprint path) 0 ts now now' rd = (e, rd')"
        by fastforce
      with True strict ok Some show thesis
        by (cases e) (auto simp: Checker_Check_def intro: replayed fresh)
    qed
  qed
qed

lemma Checker_Check_compliant_within:
  "Checker_Check path ts now now' c = (Inr r, c') \<Longrightarrow> cr_Compliant r \<Longrightarrow> within_corridor (chk_policy c) path"
  by (rule Checker_Check_cases [of path ts now now' c]) auto

lemma Checker_Check_policy:
  "Checker_Check path ts now now' c = (r, c') \<Longrightarrow> chk_policy c' = chk_policy c"
  by (rule Checker_Check_cases [of path ts now now' c]) auto

lemma Checker_Check_no_detector:
  assumes "chk_replayDetector c = None"
  shows "(case fst (Checker_Check path ts now now' c) of Inl e \<Rightarrow> False | Inr r \<Rightarrow> cr_Compliant r) =
         within_corridor (chk_policy c) path"
  by (cases rule: Checker_Check_cases [of path ts now now' c])
     (use assms in \<open>simp_all add: within_corridor_def\<close>)


definition ch_hop :: ASHop where
  "ch_hop = \<lparr>hop_IA = ''1-ff00:0:110'', hop_ISD = 1, hop_AS = ''ff00:0:110'', hop_HopMAC = []\<rparr>"

definition eu_hop :: ASHop where
  "eu_hop = \<lparr>hop_IA = ''2-ff00:0:210'', hop_ISD = 2, hop_AS = ''ff00:0:210'', hop_HopMAC = []\<rparr>"

definition x_hop :: ASHop where
  "x_hop = \<lparr>hop_IA = ''3-ff00:0:310'', hop_ISD = 3, hop_AS = ''ff00:0:310'', hop_HopMAC = []\<rparr>"

definition path_of :: "ASHop list \<Rightarrow> string \<Rightarrow> SCIONPath" where
  "path_of hops fp = \<lparr>path_Raw = [], path_Hops = hops, path_Fingerprint = fp,
     path_EvidenceClass = EvidenceClassExplicitDemo, path_ProofStatus = ProofStatusUnverified\<rparr>"

definition eu_policy :: Policy where
  "eu_policy = demo_policy\<lparr>pol_Mode := ModeStrict\<rparr>"


lemma filterLoop_eq:
  "pol_Mode pol = ModeStrict \<Longrightarrow>
   filterLoop pol ps r =
     \<lparr>fr_Compliant = fr_Compliant r @ filter (within_corridor pol) ps,
      fr_NonCompliant = fr_NonCompliant r @ filter (\<lambda>p. \<not> within_corridor pol p) ps\<rparr>"
  by (induction ps arbitrary: r) (auto simp: within_corridor_iff)

lemma FilterPaths_eq:
  "FilterPaths pol ps =
     \<lparr>fr_Compliant = filter (within_corridor pol) ps,
      fr_NonCompliant = filter (\<lambda>p. \<not> within_corridor pol p) ps\<rparr>"
proof (cases "pol_Mode pol = ModeStrict")
  case True
  then show ?thesis by (simp add: FilterPaths_def filterLoop_eq)
next
  case False
  then have "\<not> within_corridor pol p" for p by (simp add: within_corridor_def)
  with False show ?thesis by (simp add: FilterPaths_def)
qed


section \<open>The attached replay detector\<close>

text \<open>A record younger than the window survives every operation up to its expiry.\<close>

lemma seen_at_kept:
  assumes "seen_at rd fp s = Some ts" "last_of rd fp = Some l" "s \<le> l" "now' - rd_window rd \<le> ts"
  shows "\<exists>l'. seen_at (snd (replay_Check f k u now now' rd)) fp s = Some ts \<and>
              last_of (snd (replay_Check f k u now now' rd)) fp = Some l' \<and> s \<le> l'"
proof (cases "fst (replay_Check f k u now now' rd) = None")
  case True
  let ?r = "replay_record f k u rd"
  from True have k: "seen_at rd f k = None" "\<forall>l. last_of rd f = Some l \<longrightarrow> l < k"
    by (simp_all add: replay_Check_accept_iff)
  have r: "seen_at ?r fp s = Some ts" "\<exists>l'. last_of ?r fp = Some l' \<and> s \<le> l'"
    using assms k by (auto simp: seen_at_record last_of_record intro: order_trans less_imp_le)
  have "last_of (cleanupLocked now' ?r) fp = last_of ?r fp"
    using r(1) assms(4) by (intro last_of_cleanup [of _ _ s ts]) simp_all
  moreover have "seen_at (cleanupLocked now' ?r) fp s = Some ts"
    using r(1) assms(4) by (simp add: seen_at_cleanup)
  ultimately show ?thesis using replay_Check_accepted [OF True] r by auto
next
  case False
  with assms show ?thesis by simp
qed

text \<open>A checker used for several paths, each with its clock readings.\<close>

fun Checker_run :: "(SCIONPath \<times> time \<times> time \<times> time) list \<Rightarrow> Checker \<Rightarrow> Checker" where
  "Checker_run [] c = c"
| "Checker_run ((p, ts, now, now') # xs) c = Checker_run xs (snd (Checker_Check p ts now now' c))"

definition remembers :: "Checker \<Rightarrow> string \<Rightarrow> time \<Rightarrow> duration \<Rightarrow> bool" where
  "remembers c fp ts w \<longleftrightarrow>
     (\<exists>rd l. chk_replayDetector c = Some rd \<and> rd_window rd = w \<and>
             seen_at rd fp 0 = Some ts \<and> last_of rd fp = Some l)"

lemma remembers_step:
  assumes "remembers c fp ts w" "now' - w \<le> ts"
  shows "remembers (snd (Checker_Check p u now now' c)) fp ts w"
proof -
  from assms(1) obtain rd l where rd: "chk_replayDetector c = Some rd" "rd_window rd = w"
    "seen_at rd fp 0 = Some ts" "last_of rd fp = Some l"
    unfolding remembers_def by blast
  have l: "\<exists>l'. seen_at (snd (replay_Check f k v now now' rd)) fp 0 = Some ts \<and>
      last_of (snd (replay_Check f k v now now' rd)) fp = Some l'" for f k v
    using seen_at_kept [of rd fp 0 ts l now' f k v now] rd assms(2) by auto
  show ?thesis
  proof (cases rule: Checker_Check_cases [of p u now now' c])
    case (replayed rd0 e rd')
    with rd l [of "path_Fingerprint p" 0 u] show ?thesis
      by (auto simp: remembers_def dest: replay_Check_windowD)
  next
    case (fresh rd0 rd')
    with rd l [of "path_Fingerprint p" 0 u] show ?thesis
      by (auto simp: remembers_def dest: replay_Check_windowD)
  qed (use assms(1) in simp_all)
qed

lemma remembers_run:
  "remembers c fp ts w \<Longrightarrow> \<forall>(p, u, now, now')\<in>set xs. now' - w \<le> ts \<Longrightarrow> remembers (Checker_run xs c) fp ts w"
proof (induction xs arbitrary: c)
  case Nil
  then show ?case by simp
next
  case (Cons x xs)
  obtain p u n n' where x: "x = (p, u, n, n')" by (cases x) auto
  with Cons.prems have "remembers (snd (Checker_Check p u n n' c)) fp ts w"
    by (intro remembers_step) simp_all
  with Cons x show ?case by simp
qed

lemma remembers_rejects:
  assumes "remembers c fp ts w" "path_Fingerprint p = fp"
  shows "case fst (Checker_Check p u now now' c) of Inl e \<Rightarrow> True | Inr r \<Rightarrow> \<not> cr_Compliant r"
  using assms
  by (cases rule: Checker_Check_cases [of p u now now' c])
     (auto simp: remembers_def dest!: arg_cong [of _ _ fst] simp: replay_Check_accept_iff)

lemma remembers_after_accept:
  assumes "Checker_Check p ts now now' c = (Inr r, c')" "cr_Compliant r" "chk_replayDetector c = Some rd"
    and "now' - rd_window rd \<le> ts"
  shows "remembers c' (path_Fingerprint p) ts (rd_window rd)"
proof -
  from assms obtain rd' where rd': "replay_Check (path_Fingerprint p) 0 ts now now' rd = (None, rd')"
    and c': "c' = c\<lparr>chk_replayDetector := Some rd'\<rparr>"
    by (cases rule: Checker_Check_cases [of p ts now now' c]) auto
  let ?r = "replay_record (path_Fingerprint p) 0 ts rd"
  have "last_of (cleanupLocked now' ?r) (path_Fingerprint p) = last_of ?r (path_Fingerprint p)"
    by (rule last_of_cleanup [of _ _ 0 ts]) (use assms(4) in \<open>simp_all add: seen_at_record\<close>)
  moreover from rd' replay_Check_accepted [of "path_Fingerprint p" 0 ts now now' rd]
  have "rd' = ?r \<or> rd' = (cleanupLocked now' ?r)\<lparr>rd_lastCleanup := now\<rparr>" by simp
  ultimately show ?thesis
    using assms(4) by (auto simp: remembers_def c' seen_at_record last_of_record seen_at_cleanup)
qed

text \<open>
  With a replay detector attached, a path reported compliant once is refused for the rest of
  its validity window: after any further checks, as long as no clock reading is more than one
  window past the accepted timestamp, a path with the same fingerprint is not reported compliant
  again.
\<close>

theorem Checker_Check_blocks_replay:
  assumes "Checker_Check p ts now now' c = (Inr r, c')" and "cr_Compliant r"
    and "chk_replayDetector c = Some rd"
    and "now' - rd_window rd \<le> ts"
    and "\<forall>(q, u, n, n')\<in>set xs. n' - rd_window rd \<le> ts"
    and "path_Fingerprint q = path_Fingerprint p"
  shows "case fst (Checker_Check q u n n' (Checker_run xs c')) of Inl e \<Rightarrow> True | Inr r' \<Rightarrow> \<not> cr_Compliant r'"
  using remembers_after_accept [OF assms(1-4), THEN remembers_run, OF assms(5)] assms(6)
  by (rule remembers_rejects)

theorem Checker_Check_blocks_replay_witness:
  "let p = path_of [ch_hop, eu_hop] ''fp''; c = SetReplayDetector (NewReplayDetector 0) (NewChecker eu_policy);
       c1 = snd (Checker_Check p 1000 1000 1000 c)
   in \<exists>r. fst (Checker_Check p 2000 2000 2000 (Checker_run [(p, 1500, 1500, 1500)] c1)) = Inr r \<and> \<not> cr_Compliant r"
proof -
  let ?p = "path_of [ch_hop, eu_hop] ''fp''"
  let ?c = "SetReplayDetector (NewReplayDetector 0) (NewChecker eu_policy)"
  let ?c1 = "snd (Checker_Check ?p 1000 1000 1000 ?c)"
  let ?c2 = "Checker_run [(?p, 1500, 1500, 1500)] ?c1"
  have w: "within_corridor eu_policy ?p"
    by (simp add: within_corridor_def path_of_def ch_hop_def eu_hop_def eu_policy_def demo_policy_def)
  have acc: "fst (replay_Check ''fp'' 0 1000 1000 1000 (NewReplayDetector 0)) = None"
    by (simp add: replay_Check_accept_iff NewReplayDetector_def rd_defs time_Sub_def
        MaxClockSkew_def DefaultValidityWindow_def second_def minDuration_def maxDuration_def)
  have fpp: "path_Fingerprint ?p = ''fp''" by (simp add: path_of_def)
  have f: "fst (Checker_Check ?p 1000 1000 1000 ?c) =
      Inr \<lparr>cr_Compliant = True, cr_OffendingHops = [], cr_ViolatedClause = NoClause\<rparr>"
    using w acc fpp
    by (cases rule: Checker_Check_cases [of ?p 1000 1000 1000 ?c])
       (auto simp: SetReplayDetector_def NewChecker_def within_corridor_def)
  then have e: "Checker_Check ?p 1000 1000 1000 ?c =
      (Inr \<lparr>cr_Compliant = True, cr_OffendingHops = [], cr_ViolatedClause = NoClause\<rparr>, ?c1)"
    by (metis prod.collapse)
  have "case fst (Checker_Check ?p 2000 2000 2000 ?c2) of Inl e \<Rightarrow> True | Inr r' \<Rightarrow> \<not> cr_Compliant r'"
    by (rule Checker_Check_blocks_replay [OF e, where rd = "NewReplayDetector 0"])
       (simp_all add: SetReplayDetector_def NewReplayDetector_def DefaultValidityWindow_def second_def)
  moreover have "\<exists>r. fst (Checker_Check ?p 2000 2000 2000 ?c2) = Inr r"
    using w by (cases rule: Checker_Check_cases [of ?p 2000 2000 2000 ?c2]) (auto simp: within_corridor_def)
  ultimately show ?thesis by (auto simp: Let_def)
qed

end
