(* ===== verification/JP_Scion.thy ===== *)
theory JP_Scion
  imports JP_Pathcheck
begin

text \<open>
  Path extraction, fingerprints, ISD proofs and path queries of \<^verbatim>\<open>internal/scion\<close>, and the
  cryptographic primitives the whole program is written against.  SHA-256 and Ed25519 are the
  functions of a record \<open>prims\<close> that every definition using them takes as its argument; what the
  code relies on is stated as hypotheses where a property needs it.  The SCION libraries
  (\<^verbatim>\<open>snet\<close>, \<^verbatim>\<open>addr\<close>, \<^verbatim>\<open>cppki\<close>, \<^verbatim>\<open>slayers\<close>) are outside the sources: addresses are a type
  parameter with the accessors the code calls, paths and TRCs are the values it reads from them.
\<close>

section \<open>Cryptographic primitives\<close>

record prims =
  sha256 :: "bytes \<Rightarrow> bytes"
  ed_sign :: "bytes \<Rightarrow> bytes \<Rightarrow> bytes"
  ed_verify :: "bytes \<Rightarrow> bytes \<Rightarrow> bytes \<Rightarrow> bool"
  ed_public :: "bytes \<Rightarrow> bytes"

definition PublicKeySize :: nat where
  "PublicKeySize = 32"

text \<open>
  The documented behaviour of Ed25519: a signature made with a private key verifies under its
  public key, which has 32 bytes.
\<close>

definition ed25519_correct :: "prims \<Rightarrow> bool" where
  "ed25519_correct P \<longleftrightarrow>
     (\<forall>priv m. ed_verify P (ed_public P priv) m (ed_sign P priv m) \<and>
               length (ed_public P priv) = PublicKeySize)"

section \<open>path.go: fingerprints\<close>

definition hops_buffer :: "ASHop list \<Rightarrow> bytes" where
  "hops_buffer hops = concat (map (\<lambda>h. bytes_of_string (hop_IA h) @ bytes_of_string ''/'') hops)"

definition FingerprintHops :: "prims \<Rightarrow> ASHop list \<Rightarrow> string" where
  "FingerprintHops P hops = hex (sha256 P (hops_buffer hops))"

definition FingerprintPath :: "prims \<Rightarrow> bytes \<Rightarrow> ASHop list \<Rightarrow> string" where
  "FingerprintPath P raw hops = (if length raw > 0 then hex (sha256 P raw) else FingerprintHops P hops)"

section \<open>path.go: building a path from caller-supplied bytes\<close>

datatype ExtractError =
    MockPathDecode
  | RejectedPath string

record PathExtractor =
  ext_ExtractHops :: "bytes \<Rightarrow> ExtractError + ASHop list"
  ext_EvidenceMetadata :: "(bytes \<Rightarrow> ASHop list \<Rightarrow> string \<times> string) option"

datatype BuildError =
    ExtractingHops ExtractError
  | NoHopsInRawPath

definition BuildSCIONPath :: "prims \<Rightarrow> PathExtractor \<Rightarrow> bytes \<Rightarrow> BuildError + SCIONPath" where
  "BuildSCIONPath P extractor raw =
     (case ext_ExtractHops extractor raw of
        Inl e \<Rightarrow> Inl (ExtractingHops e)
      | Inr hops \<Rightarrow>
          if length hops = 0 then Inl NoHopsInRawPath
          else
            let (ec, ps) = (case ext_EvidenceMetadata extractor of
                              None \<Rightarrow> (EvidenceClassExplicitDemo, ProofStatusUnverified)
                            | Some f \<Rightarrow> f raw hops)
            in Inr \<lparr>path_Raw = raw, path_Hops = hops, path_Fingerprint = FingerprintHops P hops,
                    path_EvidenceClass = NormalizeEvidenceClass ec,
                    path_ProofStatus = NormalizeProofStatus ps\<rparr>)"

section \<open>mock.go and rejecting.go\<close>

text \<open>The JSON decoder of the hop list is the argument \<open>unmarshalHops\<close>.\<close>

definition MockPathExtractor :: "(bytes \<Rightarrow> ASHop list option) \<Rightarrow> PathExtractor" where
  "MockPathExtractor unmarshalHops =
     \<lparr>ext_ExtractHops = (\<lambda>rawPath. case unmarshalHops rawPath of None \<Rightarrow> Inl MockPathDecode | Some hops \<Rightarrow> Inr hops),
      ext_EvidenceMetadata = Some (\<lambda>_ _. (EvidenceClassExplicitDemo, ProofStatusUnverified))\<rparr>"

definition defaultRejectingPathExtractorReason :: string where
  "defaultRejectingPathExtractorReason =
     ''API raw_path is not accepted in SCION mode; path evidence must come from authenticated SCION session metadata''"

definition NewRejectingPathExtractor :: "string \<Rightarrow> PathExtractor" where
  "NewRejectingPathExtractor reason =
     (let r = (if reason = '''' then defaultRejectingPathExtractorReason else reason)
      in \<lparr>ext_ExtractHops = (\<lambda>_. Inl (RejectedPath (if r = '''' then defaultRejectingPathExtractorReason else r))),
          ext_EvidenceMetadata = None\<rparr>)"

section \<open>path.go: paths observed through snet\<close>

record 'ia addrOps =
  ia_String :: "'ia \<Rightarrow> string"
  ia_ISD :: "'ia \<Rightarrow> uint16"
  ia_AS :: "'ia \<Rightarrow> string"

datatype DataplanePath =
    RawPath bytes
  | Serializable "bytes option"
  | UnsupportedDataplane

record 'ia SnetPath =
  sp_Interfaces :: "'ia list option"
  sp_Dataplane :: "DataplanePath option"

datatype SnetError = PathMetadataNil | NoHopsInMetadata

fun snetHops :: "'ia addrOps \<Rightarrow> string list \<Rightarrow> 'ia list \<Rightarrow> ASHop list" where
  "snetHops A seen [] = []"
| "snetHops A seen (ia # ias) =
     (if ia_String A ia \<in> set seen then snetHops A seen ias
      else \<lparr>hop_IA = ia_String A ia, hop_ISD = ia_ISD A ia, hop_AS = ia_AS A ia, hop_HopMAC = []\<rparr>
           # snetHops A (ia_String A ia # seen) ias)"

definition ExtractHopsFromSnetPath :: "'ia addrOps \<Rightarrow> 'ia SnetPath \<Rightarrow> SnetError + ASHop list" where
  "ExtractHopsFromSnetPath A p =
     (case sp_Interfaces p of
        None \<Rightarrow> Inl PathMetadataNil
      | Some ifs \<Rightarrow>
          let hops = snetHops A [] ifs
          in if length hops = 0 then Inl NoHopsInMetadata else Inr hops)"

datatype SerializeError = SerializingPath | UnsupportedPathType

definition serializeDataplanePath :: "DataplanePath \<Rightarrow> SerializeError + bytes" where
  "serializeDataplanePath dp =
     (case dp of
        RawPath raw \<Rightarrow> Inr raw
      | Serializable None \<Rightarrow> Inl SerializingPath
      | Serializable (Some buf) \<Rightarrow> Inr buf
      | UnsupportedDataplane \<Rightarrow> Inl UnsupportedPathType)"

text \<open>
  The MACs of the decoded hop fields, in order, are what \<open>decodeMACs\<close> returns for the raw path
  (\<open>None\<close> when the bytes do not decode).
\<close>

fun attachMACs :: "bytes list \<Rightarrow> ASHop list \<Rightarrow> ASHop list" where
  "attachMACs _ [] = []"
| "attachMACs [] hops = hops"
| "attachMACs (m # ms) (h # hs) = h\<lparr>hop_HopMAC := m\<rparr> # attachMACs ms hs"

definition extractHopMACs :: "(bytes \<Rightarrow> bytes list option) \<Rightarrow> bytes \<Rightarrow> ASHop list \<Rightarrow> ASHop list" where
  "extractHopMACs decodeMACs raw hops =
     (if length raw = 0 then hops
      else case decodeMACs raw of None \<Rightarrow> hops | Some macs \<Rightarrow> attachMACs macs hops)"

definition BuildSCIONPathFromSnet ::
  "prims \<Rightarrow> 'ia addrOps \<Rightarrow> (bytes \<Rightarrow> bytes list option) \<Rightarrow> 'ia SnetPath \<Rightarrow> SnetError + SCIONPath" where
  "BuildSCIONPathFromSnet P A decodeMACs p =
     (case ExtractHopsFromSnetPath A p of
        Inl e \<Rightarrow> Inl e
      | Inr hops0 \<Rightarrow>
          let rawPath = (case sp_Dataplane p of
                           None \<Rightarrow> []
                         | Some dp \<Rightarrow> (case serializeDataplanePath dp of Inl _ \<Rightarrow> [] | Inr raw \<Rightarrow> raw));
              hops = extractHopMACs decodeMACs rawPath hops0
          in Inr \<lparr>path_Raw = rawPath, path_Hops = hops, path_Fingerprint = FingerprintPath P rawPath hops,
                  path_EvidenceClass = EvidenceClassSCIONObserved, path_ProofStatus = ProofStatusObserved\<rparr>)"

section \<open>querier.go\<close>

fun allAllowed :: "'ia addrOps \<Rightarrow> uint16 list \<Rightarrow> 'ia list \<Rightarrow> bool" where
  "allAllowed A isds [] = True"
| "allAllowed A isds (ia # ias) = (if ia_ISD A ia \<notin> set isds then False else allAllowed A isds ias)"

fun FilterCompliant :: "'ia addrOps \<Rightarrow> 'ia SnetPath list \<Rightarrow> uint16 list \<Rightarrow> 'ia SnetPath list" where
  "FilterCompliant A [] isds = []"
| "FilterCompliant A (p # ps) isds =
     (case sp_Interfaces p of
        None \<Rightarrow> FilterCompliant A ps isds
      | Some ifs \<Rightarrow> if allAllowed A isds ifs then p # FilterCompliant A ps isds
                    else FilterCompliant A ps isds)"

section \<open>trc.go\<close>

record 'as SignedTRC =
  trc_ISD :: uint16
  trc_Serial :: uint64
  trc_CoreASes :: "'as list"
  trc_AuthoritativeASes :: "'as list"
  trc_Raw :: bytes

datatype 'io TRCError =
    GlobbingTRCDir 'io
  | NoTRCFiles string
  | ReadingTRCFile string 'io
  | DecodingTRC string 'io
  | DuplicateTRC uint16
  | NoTRCLoaded uint16
  | ParsingIA string
  | NotAMember uint16

definition LoadTRC ::
  "(string \<Rightarrow> 'io + bytes) \<Rightarrow> (bytes \<Rightarrow> 'io + 'as SignedTRC) \<Rightarrow> string \<Rightarrow> 'io TRCError + 'as SignedTRC" where
  "LoadTRC readFile decode path =
     (case readFile path of
        Inl e \<Rightarrow> Inl (ReadingTRCFile path e)
      | Inr raw \<Rightarrow> (case decode raw of Inl e \<Rightarrow> Inl (DecodingTRC path e) | Inr trc \<Rightarrow> Inr trc))"

fun addTRCs ::
  "(string \<Rightarrow> 'io TRCError + 'as SignedTRC) \<Rightarrow> string list \<Rightarrow> (uint16 \<rightharpoonup> 'as SignedTRC) \<Rightarrow>
   'io TRCError + (uint16 \<rightharpoonup> 'as SignedTRC)" where
  "addTRCs load [] trcs = Inr trcs"
| "addTRCs load (path # paths) trcs =
     (case load path of
        Inl e \<Rightarrow> Inl e
      | Inr trc \<Rightarrow>
          if trcs (trc_ISD trc) \<noteq> None then Inl (DuplicateTRC (trc_ISD trc))
          else addTRCs load paths (trcs(trc_ISD trc \<mapsto> trc)))"

definition NewTRCProofProvider ::
  "(string \<Rightarrow> 'io + string list) \<Rightarrow> (string \<Rightarrow> 'io + bytes) \<Rightarrow> (bytes \<Rightarrow> 'io + 'as SignedTRC) \<Rightarrow> string \<Rightarrow>
   'io TRCError + (uint16 \<rightharpoonup> 'as SignedTRC)" where
  "NewTRCProofProvider glob readFile decode dir =
     (case glob dir of
        Inl e \<Rightarrow> Inl (GlobbingTRCDir e)
      | Inr matches \<Rightarrow>
          if length matches = 0 then Inl (NoTRCFiles dir)
          else addTRCs (LoadTRC readFile decode) matches Map.empty)"

text \<open>\<open>as_of\<close> is the accessor \<open>ia.AS()\<close> and \<open>ia_str\<close> the printer \<open>ia.String()\<close> of a parsed address.\<close>

definition VerifyISDMembership :: "('ia \<Rightarrow> 'as) \<Rightarrow> 'as SignedTRC \<Rightarrow> 'ia \<Rightarrow> bool" where
  "VerifyISDMembership as_of trc ia =
     (if as_of ia \<in> set (trc_CoreASes trc) then True
      else if as_of ia \<in> set (trc_AuthoritativeASes trc) then True
      else False)"

definition BuildISDProof :: "('ia \<Rightarrow> 'as) \<Rightarrow> ('ia \<Rightarrow> string) \<Rightarrow> 'as SignedTRC \<Rightarrow> 'ia \<Rightarrow> 'io TRCError + ISDProof" where
  "BuildISDProof as_of ia_str trc ia =
     (if \<not> VerifyISDMembership as_of trc ia then Inl (NotAMember (trc_ISD trc))
      else Inr \<lparr>proof_IA = ia_str ia, proof_ISD = trc_ISD trc, proof_TRCSerial = trc_Serial trc,
                proof_CertChain = trc_Raw trc, proof_VerificationStatus = ''verified'',
                proof_ProofSource = ''trc''\<rparr>)"

definition TRC_BuildProof ::
  "('ia \<Rightarrow> 'as) \<Rightarrow> ('ia \<Rightarrow> string) \<Rightarrow> (string \<Rightarrow> 'ia option) \<Rightarrow> (uint16 \<rightharpoonup> 'as SignedTRC) \<Rightarrow> ASHop \<Rightarrow>
   'io TRCError + ISDProof" where
  "TRC_BuildProof as_of ia_str parseIA trcs hop =
     (case trcs (hop_ISD hop) of
        None \<Rightarrow> Inl (NoTRCLoaded (hop_ISD hop))
      | Some trc \<Rightarrow>
          (case parseIA (hop_IA hop) of
             None \<Rightarrow> Inl (ParsingIA (hop_IA hop))
           | Some ia \<Rightarrow> BuildISDProof as_of ia_str trc ia))"

section \<open>Fingerprints bind the sequence of ASes\<close>

lemma hops_buffer_simps [simp]:
  "hops_buffer [] = []"
  "hops_buffer (h # hs) = bytes_of_string (hop_IA h @ ''/'') @ hops_buffer hs"
  by (simp_all add: hops_buffer_def)

lemma hops_buffer_string: "hops_buffer hops = bytes_of_string (concat (map (\<lambda>h. hop_IA h @ ''/'') hops))"
  by (induction hops) (auto simp: bytes_of_string_def)

lemma split_at_separator:
  assumes "xs @ c # ys = xs' @ c # ys'" "c \<notin> set xs" "c \<notin> set xs'"
  shows "xs = xs' \<and> ys = ys'"
  using assms by (auto simp: append_eq_append_conv2 append_eq_Cons_conv Cons_eq_append_conv)

lemma concat_slash_inj:
  assumes "concat (map (\<lambda>h. f h @ [c]) xs) = concat (map (\<lambda>h. f h @ [c]) ys)"
    and "\<forall>x\<in>set xs. c \<notin> set (f x)" "\<forall>y\<in>set ys. c \<notin> set (f y)"
  shows "map f xs = map f ys"
  using assms
proof (induction xs arbitrary: ys)
  case Nil
  then show ?case by (cases ys) auto
next
  case (Cons x xs)
  then obtain y ys' where ys: "ys = y # ys'" by (cases ys) auto
  with Cons.prems(1) have "f x @ c # concat (map (\<lambda>h. f h @ [c]) xs) = f y @ c # concat (map (\<lambda>h. f h @ [c]) ys')"
    by simp
  then have "f x = f y \<and> concat (map (\<lambda>h. f h @ [c]) xs) = concat (map (\<lambda>h. f h @ [c]) ys')"
    by (rule split_at_separator) (use Cons.prems ys in auto)
  with Cons ys show ?case by simp
qed

lemma hops_buffer_inj:
  assumes "hops_buffer xs = hops_buffer ys"
    and "\<forall>h\<in>set xs. CHR ''/'' \<notin> set (hop_IA h)" "\<forall>h\<in>set ys. CHR ''/'' \<notin> set (hop_IA h)"
  shows "map hop_IA xs = map hop_IA ys"
  using assms by (intro concat_slash_inj [of _ "CHR ''/''"]) (simp_all add: hops_buffer_string bytes_of_string_inj)

text \<open>
  The fingerprint binds the AS sequence: for hop lists whose AS identifiers contain no slash,
  two fingerprints are equal exactly when the sequences of identifiers are, unless SHA-256
  collides on the two encodings.
\<close>

theorem FingerprintHops_binds_sequence:
  assumes "\<forall>h\<in>set xs. CHR ''/'' \<notin> set (hop_IA h)" and "\<forall>h\<in>set ys. CHR ''/'' \<notin> set (hop_IA h)"
    and "sha256 P (hops_buffer xs) = sha256 P (hops_buffer ys) \<Longrightarrow> hops_buffer xs = hops_buffer ys"
  shows "FingerprintHops P xs = FingerprintHops P ys \<longleftrightarrow> map hop_IA xs = map hop_IA ys"
proof
  assume "FingerprintHops P xs = FingerprintHops P ys"
  then have "sha256 P (hops_buffer xs) = sha256 P (hops_buffer ys)"
    by (simp add: FingerprintHops_def hex_inj)
  then have "hops_buffer xs = hops_buffer ys" by (rule assms(3))
  then show "map hop_IA xs = map hop_IA ys" using assms(1,2) by (rule hops_buffer_inj)
next
  assume "map hop_IA xs = map hop_IA ys"
  moreover have "map (\<lambda>h. hop_IA h @ ''/'') zs = map (\<lambda>s. s @ ''/'') (map hop_IA zs)" for zs :: "ASHop list"
    by simp
  ultimately show "FingerprintHops P xs = FingerprintHops P ys"
    by (simp only: FingerprintHops_def hops_buffer_string)
qed

text \<open>A concrete instance of the primitives, used to evaluate examples.\<close>

definition toy_prims :: prims where
  "toy_prims = \<lparr>sha256 = id, ed_sign = (\<lambda>priv m. priv @ m),
     ed_verify = (\<lambda>pub m sig. sig = pub @ m), ed_public = (\<lambda>priv. take 32 (priv @ replicate 32 0))\<rparr>"

theorem FingerprintHops_binds_sequence_witness:
  "FingerprintHops toy_prims [ch_hop] \<noteq> FingerprintHops toy_prims [ch_hop, eu_hop]
   \<and> map hop_IA [ch_hop] \<noteq> map hop_IA [ch_hop, eu_hop]"
  using FingerprintHops_binds_sequence [of "[ch_hop]" "[ch_hop, eu_hop]" toy_prims]
  by (simp add: ch_hop_def eu_hop_def toy_prims_def)

section \<open>Paths built from caller-supplied bytes\<close>

lemma BuildSCIONPath_Inr:
  assumes "BuildSCIONPath P ext raw = Inr path"
  shows "ext_ExtractHops ext raw = Inr (path_Hops path) \<and> path_Hops path \<noteq> [] \<and> path_Raw path = raw \<and>
         path_Fingerprint path = FingerprintHops P (path_Hops path) \<and>
         path_EvidenceClass path \<noteq> '''' \<and> path_ProofStatus path \<noteq> ''''"
  using assms by (auto simp: BuildSCIONPath_def Let_def split: sum.splits if_splits prod.splits)

lemma BuildSCIONPath_Mock:
  assumes "BuildSCIONPath P (MockPathExtractor uh) raw = Inr path"
  shows "path_EvidenceClass path = EvidenceClassExplicitDemo \<and> path_ProofStatus path = ProofStatusUnverified"
  using assms
  by (auto simp: BuildSCIONPath_def MockPathExtractor_def NormalizeEvidenceClass_def NormalizeProofStatus_def
      EvidenceClassExplicitDemo_def ProofStatusUnverified_def split: option.splits if_splits)

lemma BuildSCIONPath_Rejecting: "\<exists>e. BuildSCIONPath P (NewRejectingPathExtractor r) raw = Inl e"
  by (simp add: BuildSCIONPath_def NewRejectingPathExtractor_def Let_def)

text \<open>
  A path built from caller-supplied bytes is checkable and honestly labelled: it has at least
  one hop, so the checker never returns its error for it; in demo mode it is labelled as explicit
  demo evidence with unverified proof status; and the extractor installed in SCION mode lets no
  caller-supplied path through.
\<close>

theorem BuildSCIONPath_labels:
  "(case BuildSCIONPath P (MockPathExtractor uh) raw of
      Inl e \<Rightarrow> uh raw = None \<or> uh raw = Some []
    | Inr path \<Rightarrow> uh raw = Some (path_Hops path)
        \<and> \<not> isl (fst (Checker_Check path ts now now' c))
        \<and> path_EvidenceClass path = ''explicit-demo'' \<and> path_ProofStatus path = ''unverified'')
   \<and> isl (BuildSCIONPath P (NewRejectingPathExtractor reason) raw)"
proof (cases "BuildSCIONPath P (MockPathExtractor uh) raw")
  case (Inl e)
  then show ?thesis
    using BuildSCIONPath_Rejecting [of P reason raw]
    by (auto simp: BuildSCIONPath_def MockPathExtractor_def Let_def split: option.splits if_splits)
next
  case (Inr path)
  have "\<not> isl (fst (Checker_Check path ts now now' c))"
    using BuildSCIONPath_Inr [OF Inr]
    by (cases rule: Checker_Check_cases [of path ts now now' c]) auto
  moreover have "uh raw = Some (path_Hops path)"
    using BuildSCIONPath_Inr [OF Inr] by (auto simp: MockPathExtractor_def split: option.splits)
  ultimately show ?thesis
    using Inr BuildSCIONPath_Mock [OF Inr] BuildSCIONPath_Rejecting [of P reason raw]
    by (auto simp: EvidenceClassExplicitDemo_def ProofStatusUnverified_def)
qed

section \<open>Paths observed through snet\<close>

lemma snetHops_IAs:
  "set (map hop_IA (snetHops A seen ias)) = set (map (ia_String A) ias) - set seen
   \<and> distinct (map hop_IA (snetHops A seen ias))"
  by (induction A seen ias rule: snetHops.induct) auto

lemma snetHops_from: "h \<in> set (snetHops A seen ias) \<Longrightarrow> \<exists>ia\<in>set ias. hop_IA h = ia_String A ia \<and> hop_ISD h = ia_ISD A ia"
  by (induction A seen ias rule: snetHops.induct) (auto split: if_splits)

lemma allAllowed_iff: "allAllowed A isds ias \<longleftrightarrow> (\<forall>ia\<in>set ias. ia_ISD A ia \<in> set isds)"
  by (induction ias) auto

lemma FilterCompliant_eq:
  "FilterCompliant A ps isds =
     filter (\<lambda>p. case sp_Interfaces p of None \<Rightarrow> False | Some ifs \<Rightarrow> \<forall>ia\<in>set ifs. ia_ISD A ia \<in> set isds) ps"
  by (induction ps) (auto simp: allAllowed_iff split: option.splits)

lemma snetHops_ISDs:
  assumes "\<And>a b. ia_String A a = ia_String A b \<Longrightarrow> ia_ISD A a = ia_ISD A b"
  shows "(\<forall>h\<in>set (snetHops A [] ifs). hop_ISD h \<in> S) \<longleftrightarrow> (\<forall>ia\<in>set ifs. ia_ISD A ia \<in> S)"
proof
  assume l: "\<forall>h\<in>set (snetHops A [] ifs). hop_ISD h \<in> S"
  show "\<forall>ia\<in>set ifs. ia_ISD A ia \<in> S"
  proof
    fix ia assume "ia \<in> set ifs"
    then have "ia_String A ia \<in> set (map hop_IA (snetHops A [] ifs))"
      using snetHops_IAs [of A "[]" ifs] by auto
    then obtain h where h: "h \<in> set (snetHops A [] ifs)" "hop_IA h = ia_String A ia" by auto
    from snetHops_from [OF h(1)] h(2) have "hop_ISD h = ia_ISD A ia" using assms by metis
    with l h(1) show "ia_ISD A ia \<in> S" by metis
  qed
next
  assume "\<forall>ia\<in>set ifs. ia_ISD A ia \<in> S"
  then show "\<forall>h\<in>set (snetHops A [] ifs). hop_ISD h \<in> S" by (auto dest!: snetHops_from)
qed

text \<open>
  Querying and checking agree on observed paths: when an address's printed form determines
  its ISD, the querier keeps a path with interface metadata exactly when the hops extracted from
  that path pass the strict hop check, so no path it offers can be refused later for its ISDs.
\<close>

theorem FilterCompliant_agrees_with_check:
  assumes "\<And>a b. ia_String A a = ia_String A b \<Longrightarrow> ia_ISD A a = ia_ISD A b"
    and "ExtractHopsFromSnetPath A p = Inr hops"
  shows "(p \<in> set (FilterCompliant A ps isds)) \<longleftrightarrow> p \<in> set ps \<and> CheckHopsCompliant hops isds ModeStrict = []"
proof -
  from assms(2) obtain ifs where i: "sp_Interfaces p = Some ifs" and h: "hops = snetHops A [] ifs"
    by (auto simp: ExtractHopsFromSnetPath_def Let_def split: option.splits if_splits)
  show ?thesis
    using snetHops_ISDs [of A ifs "set isds", OF assms(1)]
    by (simp add: FilterCompliant_eq CheckHopsCompliant_strict_empty_iff i h)
qed

definition demo_addr :: "(uint16 \<times> string) addrOps" where
  "demo_addr = \<lparr>ia_String = (\<lambda>(isd, as). (if isd = 1 then ''1-'' else ''3-'') @ as),
     ia_ISD = (\<lambda>(isd, as). if isd = 1 then 1 else 3), ia_AS = snd\<rparr>"

theorem FilterCompliant_agrees_with_check_witness:
  "let p = \<lparr>sp_Interfaces = Some [(1, ''ff00:0:110''), (1, ''ff00:0:110''), (3, ''ff00:0:310'')], sp_Dataplane = None\<rparr>
   in p \<notin> set (FilterCompliant demo_addr [p] [1, 2])"
proof -
  let ?p = "\<lparr>sp_Interfaces = Some [(1, ''ff00:0:110''), (1, ''ff00:0:110''), (3, ''ff00:0:310'')], sp_Dataplane = None\<rparr>"
  have s: "ia_ISD demo_addr a = ia_ISD demo_addr b" if "ia_String demo_addr a = ia_String demo_addr b" for a b
    using that by (cases a; cases b) (auto simp: demo_addr_def split: if_splits)
  have e: "ExtractHopsFromSnetPath demo_addr ?p =
    Inr [\<lparr>hop_IA = ''1-ff00:0:110'', hop_ISD = 1, hop_AS = ''ff00:0:110'', hop_HopMAC = []\<rparr>,
         \<lparr>hop_IA = ''3-ff00:0:310'', hop_ISD = 3, hop_AS = ''ff00:0:310'', hop_HopMAC = []\<rparr>]"
    by (simp add: ExtractHopsFromSnetPath_def demo_addr_def)
  show ?thesis
    using FilterCompliant_agrees_with_check [OF s e, of "[?p]" "[1, 2]"]
    by (simp add: CheckHopsCompliant_def)
qed

section \<open>TRC-backed proofs\<close>

lemma addTRCs_Inr:
  assumes "addTRCs load paths trcs = Inr trcs'" "\<forall>isd trc. trcs isd = Some trc \<longrightarrow> trc_ISD trc = isd"
  shows "(\<forall>isd trc. trcs' isd = Some trc \<longrightarrow> trc_ISD trc = isd) \<and>
         (\<forall>p\<in>set paths. \<exists>trc. load p = Inr trc \<and> trcs' (trc_ISD trc) = Some trc) \<and>
         (\<forall>isd trc. trcs isd = Some trc \<longrightarrow> trcs' isd = Some trc)"
  using assms
proof (induction paths arbitrary: trcs)
  case Nil
  then show ?case by simp
next
  case (Cons p paths)
  from Cons.prems(1) obtain trc where l: "load p = Inr trc" by (cases "load p") simp_all
  with Cons.prems(1) have n: "trcs (trc_ISD trc) = None"
    and a: "addTRCs load paths (trcs(trc_ISD trc \<mapsto> trc)) = Inr trcs'"
    by (simp_all split: if_splits)
  have "\<forall>isd t. (trcs(trc_ISD trc \<mapsto> trc)) isd = Some t \<longrightarrow> trc_ISD t = isd"
    using Cons.prems(2) by auto
  note ih = Cons.IH [OF a this]
  have old: "trcs' isd = Some t" if "(trcs(trc_ISD trc \<mapsto> trc)) isd = Some t" for isd t
    using ih that by blast
  have new: "trcs' (trc_ISD trc) = Some trc" by (rule old) simp
  have "trcs' isd = Some t" if "trcs isd = Some t" for isd t
    by (rule old) (use that n in auto)
  moreover have "\<exists>t. load q = Inr t \<and> trcs' (trc_ISD t) = Some t" if "q \<in> set (p # paths)" for q
  proof (cases "q = p")
    case True
    with l new show ?thesis by blast
  next
    case False
    with that have "q \<in> set paths" by simp
    with ih show ?thesis by blast
  qed
  ultimately show ?case using ih by blast
qed

text \<open>
  C36. What a verified ISD proof says: with TRCs loaded from a directory, a proof is built for a
  hop only if the TRC of the hop's ISD was among the loaded files, that TRC is filed under its
  own ISD, and it lists the hop's AS as a core or authoritative AS; every other hop is refused
  with an error, never given an unverified proof.
\<close>

theorem TRC_BuildProof_sound:
  assumes "NewTRCProofProvider glob readFile decode dir = Inr trcs"
    and "(TRC_BuildProof as_of ia_str parseIA trcs hop :: 'e TRCError + ISDProof) = Inr pr"
  shows "\<exists>trc ia. trcs (hop_ISD hop) = Some trc \<and> trc_ISD trc = hop_ISD hop \<and> parseIA (hop_IA hop) = Some ia
    \<and> as_of ia \<in> set (trc_CoreASes trc) \<union> set (trc_AuthoritativeASes trc)
    \<and> proof_ISD pr = hop_ISD hop \<and> proof_IA pr = ia_str ia \<and> proof_VerificationStatus pr = ProofStatusVerified"
proof -
  from assms(1) obtain ms where ms: "glob dir = Inr ms"
    by (cases "glob dir") (simp_all add: NewTRCProofProvider_def)
  with assms(1) have a: "addTRCs (LoadTRC readFile decode) ms Map.empty = Inr trcs"
    by (simp add: NewTRCProofProvider_def split: if_splits)
  have own: "trcs i = Some t \<Longrightarrow> trc_ISD t = i" for i t
    using addTRCs_Inr [OF a] by blast
  from assms(2) obtain trc ia where t: "trcs (hop_ISD hop) = Some trc" and i: "parseIA (hop_IA hop) = Some ia"
    and b: "(BuildISDProof as_of ia_str trc ia :: 'e TRCError + ISDProof) = Inr pr"
    by (auto simp: TRC_BuildProof_def split: option.splits)
  from b have "as_of ia \<in> set (trc_CoreASes trc) \<union> set (trc_AuthoritativeASes trc)
    \<and> proof_ISD pr = trc_ISD trc \<and> proof_IA pr = ia_str ia \<and> proof_VerificationStatus pr = ProofStatusVerified"
    by (auto simp: BuildISDProof_def VerifyISDMembership_def ProofStatusVerified_def split: if_splits)
  with t i own [OF t] show ?thesis by auto
qed

definition demo_trc :: "string SignedTRC" where
  "demo_trc = \<lparr>trc_ISD = 1, trc_Serial = 1, trc_CoreASes = [''ff00:0:110''], trc_AuthoritativeASes = [], trc_Raw = [7]\<rparr>"

definition demo_parseIA :: "string \<Rightarrow> (string \<times> string) option" where
  "demo_parseIA s = Some (takeWhile (\<lambda>c. c \<noteq> CHR ''-'') s, tl (dropWhile (\<lambda>c. c \<noteq> CHR ''-'') s))"

definition demo_trcs :: "uint16 \<rightharpoonup> string SignedTRC" where
  "demo_trcs = [1 \<mapsto> demo_trc]"

lemma demo_trcs_loaded:
  "NewTRCProofProvider (\<lambda>_. Inr [''a.trc'']) (\<lambda>_. Inr []) (\<lambda>_. Inr demo_trc :: unit + string SignedTRC) ''d'' = Inr demo_trcs"
  by (simp add: NewTRCProofProvider_def LoadTRC_def demo_trcs_def demo_trc_def)

theorem TRC_BuildProof_sound_witness:
  "\<exists>pr :: ISDProof. (TRC_BuildProof snd (\<lambda>(i, a). i @ ''-'' @ a) demo_parseIA demo_trcs ch_hop :: unit TRCError + ISDProof) = Inr pr
      \<and> proof_VerificationStatus pr = ProofStatusVerified"
proof -
  have "\<exists>pr. (TRC_BuildProof snd (\<lambda>(i, a). i @ ''-'' @ a) demo_parseIA demo_trcs ch_hop :: unit TRCError + ISDProof) = Inr pr"
    by (simp add: TRC_BuildProof_def demo_trcs_def BuildISDProof_def VerifyISDMembership_def demo_trc_def
        demo_parseIA_def ch_hop_def)
  then obtain pr where pr: "(TRC_BuildProof snd (\<lambda>(i, a). i @ ''-'' @ a) demo_parseIA demo_trcs ch_hop :: unit TRCError + ISDProof) = Inr pr"
    by blast
  from TRC_BuildProof_sound [OF demo_trcs_loaded pr] pr show ?thesis by blast
qed

text \<open>
  A gap in the TRC check: the TRC is chosen by the hop's ISD field while only the AS part of
  the hop's address is compared with it, so a hop whose address names ISD 3 but whose ISD field
  says 1 obtains a verified proof for ISD 1 that carries the ISD-3 address, and the strict
  policy check accepts the hop as ISD 1.
\<close>

theorem TRC_BuildProof_ignores_IA_ISD:
  "\<exists>hop pr. hop_IA hop = ''3-ff00:0:110'' \<and> hop_ISD hop = 1
     \<and> (TRC_BuildProof snd (\<lambda>(i, a). i @ ''-'' @ a) demo_parseIA demo_trcs hop :: unit TRCError + ISDProof) = Inr pr
     \<and> proof_VerificationStatus pr = ProofStatusVerified \<and> proof_IA pr = ''3-ff00:0:110'' \<and> proof_ISD pr = 1
     \<and> CheckHopsCompliant [hop] [1] ModeStrict = []"
  by (rule exI [of _ "ch_hop\<lparr>hop_IA := ''3-ff00:0:110''\<rparr>"])
     (simp add: TRC_BuildProof_def demo_trcs_def BuildISDProof_def VerifyISDMembership_def demo_trc_def
        demo_parseIA_def ch_hop_def CheckHopsCompliant_def ProofStatusVerified_def)

end
