(* ===== verification/JP_Transport.thy ===== *)
theory JP_Transport
  imports JP_Ledger JP_Scion
begin

text \<open>
  The communication layer between validators (\<^verbatim>\<open>internal/dlt/transport.go\<close>,
  \<^verbatim>\<open>transport_local.go\<close>, \<^verbatim>\<open>transport_scion.go\<close>).  The Go interface \<open>ValidatorTransport\<close> is a
  record of operations on a network state; every operation names the validator that calls it.  The
  contract that the validator nodes rely on is the locale \<open>lossy_network\<close> (messages may be lost,
  never invented) and its extension \<open>reliable_network\<close>; the in-process transport provides both.
  JSON encoding is a parameter.
\<close>

section \<open>transport.go\<close>

record PathInfo =
  pi_RawPath :: "bytes option"
  pi_Hops :: "ASHop list"
  pi_PeerAddr :: string

text \<open>
  The outcomes of a call that is not a success.  \<open>ClosedChannelPanic\<close> is a panic and \<open>Waiting\<close>
  a call that has not returned: the caller stays blocked until the network state changes or its
  context is done.
\<close>

datatype TransportError =
    TransportClosed
  | ValidatorBlocked string
  | UnknownValidator string
  | MarshalingMessage
  | UnmarshalingMessage
  | ContextDone
  | DeadlineFailed
  | SendingTo string
  | ReadingConn
  | ClosedChannelPanic
  | Waiting

definition no_return :: "TransportError \<Rightarrow> bool" where
  "no_return e \<longleftrightarrow> e = ClosedChannelPanic \<or> e = Waiting"

text \<open>
  The context argument of the Go methods is the flag \<open>ctxDone\<close>: whether the select statement (or
  the deadline) ends the call.  \<open>order\<close> is the order in which the walk over the peer map meets its
  keys.
\<close>

record 'w ValidatorTransport =
  vt_Send :: "string \<Rightarrow> bool \<Rightarrow> string \<Rightarrow> ConsensusMessage \<Rightarrow> 'w \<Rightarrow> TransportError option \<times> 'w"
  vt_Broadcast :: "string \<Rightarrow> bool \<Rightarrow> string list \<Rightarrow> ConsensusMessage \<Rightarrow> 'w \<Rightarrow> TransportError option \<times> 'w"
  vt_Receive :: "string \<Rightarrow> bool \<Rightarrow> 'w \<Rightarrow> (TransportError + ConsensusMessage \<times> PathInfo option) \<times> 'w"

text \<open>\<open>encoding/json\<close> on the two types that travel; \<open>'d\<close> is the type of encoded messages.\<close>

record 'd msgCodec =
  mc_Marshal :: "ConsensusMessage \<Rightarrow> 'd option"
  mc_Unmarshal :: "'d \<Rightarrow> ConsensusMessage option"
  mc_MarshalTx :: "Transaction \<Rightarrow> string option"
  mc_UnmarshalTx :: "string \<Rightarrow> Transaction option"

text \<open>The broadcast loop shared by both transports: the first error is kept, the loop goes on.\<close>

fun sendAll ::
  "(string \<Rightarrow> 'w \<Rightarrow> TransportError option \<times> 'w) \<Rightarrow> string list \<Rightarrow> TransportError option \<Rightarrow> 'w \<Rightarrow> TransportError option \<times> 'w" where
  "sendAll send [] first w = (first, w)"
| "sendAll send (i # ids) first w =
     (case send i w of
        (None, w') \<Rightarrow> sendAll send ids first w'
      | (Some e, w') \<Rightarrow>
          if no_return e then (Some e, w')
          else sendAll send ids (case first of None \<Rightarrow> Some e | Some f \<Rightarrow> Some f) w')"

section \<open>The in-process transport\<close>

record mchan =
  mch_buf :: "ConsensusMessage list"
  mch_closed :: bool

record LocalTransport =
  lt_localID :: string
  lt_peers :: "string \<rightharpoonup> nat"
  lt_blocked :: "string \<Rightarrow> bool"
  lt_inbox :: nat
  lt_closed :: bool

text \<open>All transports of a process and the channels they share, addressed by number.\<close>

record LocalNet =
  ln_transports :: "string \<rightharpoonup> LocalTransport"
  ln_chans :: "nat \<Rightarrow> mchan"

definition inboxCapacity :: nat where
  "inboxCapacity = 64"

definition NewLocalTransport :: "string \<Rightarrow> nat \<Rightarrow> (string \<rightharpoonup> nat) \<Rightarrow> LocalTransport" where
  "NewLocalTransport localID inbox peers =
     \<lparr>lt_localID = localID, lt_peers = peers, lt_blocked = (\<lambda>_. False), lt_inbox = inbox, lt_closed = False\<rparr>"

text \<open>Channel \<open>k\<close> is the one made for the k-th identifier; a repeated identifier gets the later one.\<close>

fun makePeers :: "nat \<Rightarrow> string list \<Rightarrow> (string \<rightharpoonup> nat) \<Rightarrow> (string \<rightharpoonup> nat)" where
  "makePeers k [] peers = peers"
| "makePeers k (i # ids) peers = makePeers (Suc k) ids (peers(i \<mapsto> k))"

definition NewLocalTransportSet :: "string list \<Rightarrow> LocalNet" where
  "NewLocalTransportSet ids =
     (let peers = makePeers 0 ids Map.empty in
      \<lparr>ln_transports = fold (\<lambda>i m. m(i \<mapsto> NewLocalTransport i (the (peers i)) peers)) ids Map.empty,
       ln_chans = (\<lambda>_. \<lparr>mch_buf = [], mch_closed = False\<rparr>)\<rparr>)"

definition Local_Send ::
  "'d msgCodec \<Rightarrow> LocalTransport \<Rightarrow> bool \<Rightarrow> string \<Rightarrow> ConsensusMessage \<Rightarrow> LocalNet \<Rightarrow> TransportError option \<times> LocalNet" where
  "Local_Send C t ctxDone validatorID msg w =
     (if lt_closed t then (Some TransportClosed, w)
      else if lt_blocked t validatorID then (Some (ValidatorBlocked validatorID), w)
      else case lt_peers t validatorID of
        None \<Rightarrow> (Some (UnknownValidator validatorID), w)
      | Some ch \<Rightarrow>
         (case mc_Marshal C msg of
            None \<Rightarrow> (Some MarshalingMessage, w)
          | Some data \<Rightarrow>
             (case mc_Unmarshal C data of
                None \<Rightarrow> (Some UnmarshalingMessage, w)
              | Some clone \<Rightarrow>
                  if ctxDone then (Some ContextDone, w)
                  else if mch_closed (ln_chans w ch) then (Some ClosedChannelPanic, w)
                  else if length (mch_buf (ln_chans w ch)) < inboxCapacity then
                    (None, w\<lparr>ln_chans := (ln_chans w)(ch := (ln_chans w ch)\<lparr>mch_buf := mch_buf (ln_chans w ch) @ [clone]\<rparr>)\<rparr>)
                  else (Some Waiting, w))))"

definition Local_Broadcast ::
  "'d msgCodec \<Rightarrow> LocalTransport \<Rightarrow> bool \<Rightarrow> string list \<Rightarrow> ConsensusMessage \<Rightarrow> LocalNet \<Rightarrow> TransportError option \<times> LocalNet" where
  "Local_Broadcast C t ctxDone order msg w =
     (let peerIDs = filter (\<lambda>i. lt_peers t i \<noteq> None \<and> i \<noteq> lt_localID t) order
      in sendAll (\<lambda>i. Local_Send C t ctxDone i msg) peerIDs None w)"

definition Local_Receive ::
  "LocalTransport \<Rightarrow> bool \<Rightarrow> LocalNet \<Rightarrow> (TransportError + ConsensusMessage \<times> PathInfo option) \<times> LocalNet" where
  "Local_Receive t ctxDone w =
     (if ctxDone then (Inl ContextDone, w)
      else case mch_buf (ln_chans w (lt_inbox t)) of
        msg # rest \<Rightarrow> (Inr (msg, None), w\<lparr>ln_chans := (ln_chans w)(lt_inbox t := (ln_chans w (lt_inbox t))\<lparr>mch_buf := rest\<rparr>)\<rparr>)
      | [] \<Rightarrow> (Inl (if mch_closed (ln_chans w (lt_inbox t)) then TransportClosed else Waiting), w))"

text \<open>The remaining methods change the transport of one validator.\<close>

definition Local_Close :: "string \<Rightarrow> LocalNet \<Rightarrow> LocalNet" where
  "Local_Close self w =
     (case ln_transports w self of
        None \<Rightarrow> w
      | Some t \<Rightarrow>
          if \<not> lt_closed t then
            w\<lparr>ln_transports := (ln_transports w)(self \<mapsto> t\<lparr>lt_closed := True\<rparr>),
              ln_chans := (ln_chans w)(lt_inbox t := (ln_chans w (lt_inbox t))\<lparr>mch_closed := True\<rparr>)\<rparr>
          else w)"

definition BlockValidator :: "string \<Rightarrow> string \<Rightarrow> LocalNet \<Rightarrow> LocalNet" where
  "BlockValidator self i w =
     w\<lparr>ln_transports := (ln_transports w)(self := map_option (\<lambda>t. t\<lparr>lt_blocked := (lt_blocked t)(i := True)\<rparr>) (ln_transports w self))\<rparr>"

definition UnblockValidator :: "string \<Rightarrow> string \<Rightarrow> LocalNet \<Rightarrow> LocalNet" where
  "UnblockValidator self i w =
     w\<lparr>ln_transports := (ln_transports w)(self := map_option (\<lambda>t. t\<lparr>lt_blocked := (lt_blocked t)(i := False)\<rparr>) (ln_transports w self))\<rparr>"

text \<open>The interface value of the in-process transports; a validator without one cannot call.\<close>

definition LocalTransportOps :: "'d msgCodec \<Rightarrow> LocalNet ValidatorTransport" where
  "LocalTransportOps C =
     \<lparr>vt_Send = (\<lambda>self done dest msg w. case ln_transports w self of
          None \<Rightarrow> (Some TransportClosed, w) | Some t \<Rightarrow> Local_Send C t done dest msg w),
      vt_Broadcast = (\<lambda>self done order msg w. case ln_transports w self of
          None \<Rightarrow> (Some TransportClosed, w) | Some t \<Rightarrow> Local_Broadcast C t done order msg w),
      vt_Receive = (\<lambda>self done w. case ln_transports w self of
          None \<Rightarrow> (Inl TransportClosed, w) | Some t \<Rightarrow> Local_Receive t done w)\<rparr>"

section \<open>The SCION transport\<close>

text \<open>
  The connection of the snet library and its addresses are parameters.  \<open>sc_ReadFrom\<close> gets the
  length of the buffer and returns the bytes read and, when the remote address is a SCION one, that
  address.
\<close>

record ('a, 'c) snetConn =
  sc_SetWriteDeadline :: "'c \<Rightarrow> bool \<times> 'c"
  sc_WriteTo :: "string \<Rightarrow> 'a \<Rightarrow> 'c \<Rightarrow> bool \<times> 'c"
  sc_SetReadDeadline :: "'c \<Rightarrow> bool \<times> 'c"
  sc_ReadFrom :: "nat \<Rightarrow> 'c \<Rightarrow> (string \<times> 'a option) option \<times> 'c"
  sc_Close :: "'c \<Rightarrow> bool \<times> 'c"

record ('a, 'ia) udpAddrOps =
  ua_String :: "'a \<Rightarrow> string"
  ua_RawPath :: "'a \<Rightarrow> bytes option"
  ua_IA :: "'a \<Rightarrow> 'ia"
  ua_Parse :: "string \<Rightarrow> 'a option"
  ua_Host :: "'a \<Rightarrow> string"

record 'a SCIONTransport =
  sct_localID :: string
  sct_peers :: "string \<rightharpoonup> 'a"
  sct_closed :: bool

definition NewSCIONTransport :: "string \<Rightarrow> (string \<rightharpoonup> 'a) \<Rightarrow> 'a SCIONTransport" where
  "NewSCIONTransport localID peers = \<lparr>sct_localID = localID, sct_peers = peers, sct_closed = False\<rparr>"

text \<open>\<open>hasDeadline\<close> tells whether the context carries a deadline.\<close>

definition SCION_Send ::
  "string msgCodec \<Rightarrow> ('a, 'c) snetConn \<Rightarrow> 'a SCIONTransport \<Rightarrow> bool \<Rightarrow> string \<Rightarrow> ConsensusMessage \<Rightarrow> 'c \<Rightarrow> TransportError option \<times> 'c" where
  "SCION_Send C N t hasDeadline validatorID msg c =
     (if sct_closed t then (Some TransportClosed, c)
      else case sct_peers t validatorID of
        None \<Rightarrow> (Some (UnknownValidator validatorID), c)
      | Some peer \<Rightarrow>
         (case mc_Marshal C msg of
            None \<Rightarrow> (Some MarshalingMessage, c)
          | Some data \<Rightarrow>
             (case (if hasDeadline then sc_SetWriteDeadline N c else (True, c)) of
                (False, c1) \<Rightarrow> (Some DeadlineFailed, c1)
              | (True, c1) \<Rightarrow>
                 (case sc_WriteTo N data peer c1 of
                    (False, c2) \<Rightarrow> (Some (SendingTo validatorID), c2)
                  | (True, c2) \<Rightarrow> (None, c2)))))"

definition SCION_Broadcast ::
  "string msgCodec \<Rightarrow> ('a, 'c) snetConn \<Rightarrow> 'a SCIONTransport \<Rightarrow> bool \<Rightarrow> string list \<Rightarrow> ConsensusMessage \<Rightarrow> 'c \<Rightarrow> TransportError option \<times> 'c" where
  "SCION_Broadcast C N t hasDeadline order msg c =
     (let peerIDs = filter (\<lambda>i. sct_peers t i \<noteq> None \<and> i \<noteq> sct_localID t) order
      in sendAll (\<lambda>i. SCION_Send C N t hasDeadline i msg) peerIDs None c)"

definition extractPathInfo :: "('a, 'ia) udpAddrOps \<Rightarrow> 'ia addrOps \<Rightarrow> 'a \<Rightarrow> PathInfo" where
  "extractPathInfo U A a =
     \<lparr>pi_RawPath = ua_RawPath U a,
      pi_Hops = [\<lparr>hop_IA = ia_String A (ua_IA U a), hop_ISD = ia_ISD A (ua_IA U a), hop_AS = ia_AS A (ua_IA U a), hop_HopMAC = []\<rparr>],
      pi_PeerAddr = ua_String U a\<rparr>"

definition receiveBuffer :: nat where
  "receiveBuffer = 4096"

definition SCION_Receive ::
  "string msgCodec \<Rightarrow> ('a, 'c) snetConn \<Rightarrow> ('a, 'ia) udpAddrOps \<Rightarrow> 'ia addrOps \<Rightarrow> 'a SCIONTransport \<Rightarrow> bool \<Rightarrow> 'c
   \<Rightarrow> (TransportError + ConsensusMessage \<times> PathInfo option) \<times> 'c" where
  "SCION_Receive C N U A t hasDeadline c =
     (if sct_closed t then (Inl TransportClosed, c)
      else case (if hasDeadline then sc_SetReadDeadline N c else (True, c)) of
        (False, c1) \<Rightarrow> (Inl DeadlineFailed, c1)
      | (True, c1) \<Rightarrow>
         (case sc_ReadFrom N receiveBuffer c1 of
            (None, c2) \<Rightarrow> (Inl ReadingConn, c2)
          | (Some (data, remote), c2) \<Rightarrow>
             (case mc_Unmarshal C data of
                None \<Rightarrow> (Inl UnmarshalingMessage, c2)
              | Some msg \<Rightarrow> (Inr (msg, map_option (extractPathInfo U A) remote), c2))))"

definition SCION_Close :: "('a, 'c) snetConn \<Rightarrow> 'a SCIONTransport \<Rightarrow> 'c \<Rightarrow> bool \<times> 'a SCIONTransport \<times> 'c" where
  "SCION_Close N t c =
     (if sct_closed t then (True, t, c)
      else case sc_Close N c of (ok, c') \<Rightarrow> (ok, t\<lparr>sct_closed := True\<rparr>, c'))"

fun parsePeersLoop ::
  "('a, 'ia) udpAddrOps \<Rightarrow> string \<Rightarrow> ValidatorState list \<Rightarrow> (string \<rightharpoonup> 'a) \<Rightarrow> string + (string \<rightharpoonup> 'a)" where
  "parsePeersLoop U localID [] peers = Inr peers"
| "parsePeersLoop U localID (v # vs) peers =
     (if vs_ID v = localID then parsePeersLoop U localID vs peers
      else case ua_Parse U (vs_Address v) of
        None \<Rightarrow> Inl (vs_ID v)
      | Some a \<Rightarrow> parsePeersLoop U localID vs (peers(vs_ID v \<mapsto> a)))"

definition ParseSCIONPeers :: "('a, 'ia) udpAddrOps \<Rightarrow> string \<Rightarrow> ValidatorState list \<Rightarrow> string + (string \<rightharpoonup> 'a)" where
  "ParseSCIONPeers U localID validators = parsePeersLoop U localID validators Map.empty"

datatype LocalAddrError = ParsingLocalAddress | ValidatorNotFound string

fun ParseSCIONLocalAddr :: "('a, 'ia) udpAddrOps \<Rightarrow> string \<Rightarrow> ValidatorState list \<Rightarrow> LocalAddrError + string" where
  "ParseSCIONLocalAddr U localID [] = Inl (ValidatorNotFound localID)"
| "ParseSCIONLocalAddr U localID (v # vs) =
     (if vs_ID v = localID then
        (case ua_Parse U (vs_Address v) of
           None \<Rightarrow> Inl ParsingLocalAddress
         | Some a \<Rightarrow> Inr (ua_Host U a))
      else ParseSCIONLocalAddr U localID vs)"

section \<open>The network contract\<close>

text \<open>
  What a validator may rely on whatever the network does.  \<open>inbox i w\<close> are the messages waiting
  for validator \<open>i\<close>, \<open>wire\<close> is what encoding and decoding make of a message.  An operation adds at
  most the message it was given and a received message was waiting.
\<close>

locale lossy_network =
  fixes T :: "'w ValidatorTransport"
    and inbox :: "string \<Rightarrow> 'w \<Rightarrow> ConsensusMessage list"
    and wire :: "ConsensusMessage \<Rightarrow> ConsensusMessage option"
  assumes send_adds: "vt_Send T self ctx dest m w = (e, w') \<Longrightarrow> set (inbox j w') \<subseteq> set_option (wire m) \<union> set (inbox j w)"
    and broadcast_adds: "vt_Broadcast T self ctx order m w = (e, w') \<Longrightarrow> set (inbox j w') \<subseteq> set_option (wire m) \<union> set (inbox j w)"
    and receive_removes: "vt_Receive T self ctx w = (r, w') \<Longrightarrow> set (inbox j w') \<subseteq> set (inbox j w)"
    and receive_waiting: "vt_Receive T self ctx w = (Inr (m, p), w') \<Longrightarrow> m \<in> set (inbox self w)"

text \<open>
  What it may rely on while the network works.  \<open>link i j w\<close>: validator \<open>i\<close> can reach \<open>j\<close>; \<open>cap\<close> is
  the room of an inbox.  A send arrives last in the addressee's inbox and nowhere else, a broadcast
  at every other validator, and a receive takes the oldest message.
\<close>

locale reliable_network = lossy_network T inbox wire
  for T :: "'w ValidatorTransport" and inbox and wire +
  fixes net_inv :: "'w \<Rightarrow> bool" and link :: "string \<Rightarrow> string \<Rightarrow> 'w \<Rightarrow> bool" and cap :: nat
  assumes send_delivers:
      "net_inv w \<Longrightarrow> link self dest w \<Longrightarrow> length (inbox dest w) < cap \<Longrightarrow> wire m = Some m' \<Longrightarrow>
        \<exists>w'. vt_Send T self False dest m w = (None, w') \<and> net_inv w' \<and> (\<forall>i j. link i j w' = link i j w) \<and>
          (\<forall>j. inbox j w' = (if j = dest then inbox j w @ [m'] else inbox j w))"
    and broadcast_delivers:
      "net_inv w \<Longrightarrow> distinct order \<Longrightarrow> (\<And>i. i \<in> set order \<Longrightarrow> i \<noteq> self \<Longrightarrow> link self i w \<and> length (inbox i w) < cap) \<Longrightarrow>
        link self self w \<Longrightarrow> wire m = Some m' \<Longrightarrow>
        \<exists>w'. vt_Broadcast T self False order m w = (None, w') \<and> net_inv w' \<and> (\<forall>i j. link i j w' = link i j w) \<and>
          (\<forall>j. inbox j w' = (if j \<in> set order \<and> j \<noteq> self then inbox j w @ [m'] else inbox j w))"
    and receive_oldest:
      "net_inv w \<Longrightarrow> inbox self w = m # ms \<Longrightarrow>
        \<exists>w' p. vt_Receive T self False w = (Inr (m, p), w') \<and> net_inv w' \<and> (\<forall>i j. link i j w' = link i j w) \<and>
          (\<forall>j. inbox j w' = (if j = self then ms else inbox j w))"

section \<open>The in-process transport keeps the contract\<close>

definition local_wire :: "'d msgCodec \<Rightarrow> ConsensusMessage \<Rightarrow> ConsensusMessage option" where
  "local_wire C m = Option.bind (mc_Marshal C m) (mc_Unmarshal C)"

definition local_inbox :: "string \<Rightarrow> LocalNet \<Rightarrow> ConsensusMessage list" where
  "local_inbox i w = (case ln_transports w i of None \<Rightarrow> [] | Some t \<Rightarrow> mch_buf (ln_chans w (lt_inbox t)))"

text \<open>Every transport knows exactly the others' inboxes, and no two validators share one.\<close>

definition local_wired :: "LocalNet \<Rightarrow> bool" where
  "local_wired w \<longleftrightarrow>
     (\<forall>i t. ln_transports w i = Some t \<longrightarrow> lt_localID t = i \<and> lt_peers t = (\<lambda>j. map_option lt_inbox (ln_transports w j))) \<and>
     (\<forall>i j t u. ln_transports w i = Some t \<longrightarrow> ln_transports w j = Some u \<longrightarrow> lt_inbox t = lt_inbox u \<longrightarrow> i = j)"

definition local_link :: "string \<Rightarrow> string \<Rightarrow> LocalNet \<Rightarrow> bool" where
  "local_link i j w \<longleftrightarrow>
     (case ln_transports w i of None \<Rightarrow> False | Some t \<Rightarrow> \<not> lt_closed t \<and> \<not> lt_blocked t j) \<and>
     (case ln_transports w j of None \<Rightarrow> False | Some u \<Rightarrow> \<not> mch_closed (ln_chans w (lt_inbox u)))"

text \<open>How a send may change the network: it adds at most the messages \<open>M\<close>.\<close>

definition net_adds :: "ConsensusMessage set \<Rightarrow> LocalNet \<Rightarrow> LocalNet \<Rightarrow> bool" where
  "net_adds M w w' \<longleftrightarrow>
     ln_transports w' = ln_transports w \<and> (\<forall>c. mch_closed (ln_chans w' c) = mch_closed (ln_chans w c)) \<and>
     (\<forall>c. set (mch_buf (ln_chans w' c)) \<subseteq> M \<union> set (mch_buf (ln_chans w c)))"

lemma net_adds_refl: "net_adds M w w"
  by (simp add: net_adds_def)

lemma net_adds_trans: "net_adds M u v \<Longrightarrow> net_adds M v w \<Longrightarrow> net_adds M u w"
  unfolding net_adds_def by (simp, blast)

lemma net_adds_inbox: "net_adds M w w' \<Longrightarrow> set (local_inbox j w') \<subseteq> M \<union> set (local_inbox j w)"
  by (auto simp: net_adds_def local_inbox_def split: option.splits)

lemma Local_Send_adds: "Local_Send C t ctx dest m w = (e, w') \<Longrightarrow> net_adds (set_option (local_wire C m)) w w'"
  by (auto simp: net_adds_def Local_Send_def local_wire_def split: if_splits option.splits)

lemma sendAll_frame:
  assumes "\<And>i w e w'. send i w = (e, w') \<Longrightarrow> R w w'" "\<And>w. R w w" "\<And>u v w. R u v \<Longrightarrow> R v w \<Longrightarrow> R u w"
  shows "sendAll send ids first w = (e, w') \<Longrightarrow> R w w'"
proof (induction ids arbitrary: first w)
  case Nil
  then show ?case using assms(2) by simp
next
  case (Cons i ids)
  obtain e1 w1 where s: "send i w = (e1, w1)" by fastforce
  with Cons.prems have "w' = w1 \<or> (\<exists>f. sendAll send ids f w1 = (e, w'))"
    by (cases e1) (auto split: if_splits)
  with assms(1) [OF s] Cons.IH assms(3) show ?case by blast
qed

lemma Local_Broadcast_adds:
  "Local_Broadcast C t ctx order m w = (e, w') \<Longrightarrow> net_adds (set_option (local_wire C m)) w w'"
  unfolding Local_Broadcast_def Let_def
  by (erule sendAll_frame [rotated 3]) (erule Local_Send_adds, rule net_adds_refl, erule net_adds_trans)

interpretation localnet: lossy_network "LocalTransportOps C" local_inbox "local_wire C" for C
proof unfold_locales
  fix self ctx dest m w e w' j
  assume "vt_Send (LocalTransportOps C) self ctx dest m w = (e, w')"
  then have "net_adds (set_option (local_wire C m)) w w'"
    by (auto simp: LocalTransportOps_def net_adds_refl split: option.splits dest: Local_Send_adds)
  then show "set (local_inbox j w') \<subseteq> set_option (local_wire C m) \<union> set (local_inbox j w)" by (rule net_adds_inbox)
next
  fix self ctx order m w e w' j
  assume "vt_Broadcast (LocalTransportOps C) self ctx order m w = (e, w')"
  then have "net_adds (set_option (local_wire C m)) w w'"
    by (auto simp: LocalTransportOps_def net_adds_refl split: option.splits dest: Local_Broadcast_adds)
  then show "set (local_inbox j w') \<subseteq> set_option (local_wire C m) \<union> set (local_inbox j w)" by (rule net_adds_inbox)
next
  fix self ctx w r w' j
  assume "vt_Receive (LocalTransportOps C) self ctx w = (r, w')"
  then show "set (local_inbox j w') \<subseteq> set (local_inbox j w)"
    by (auto simp: LocalTransportOps_def Local_Receive_def local_inbox_def split: option.splits if_splits list.splits)
next
  fix self ctx w m p w'
  assume "vt_Receive (LocalTransportOps C) self ctx w = (Inr (m, p), w')"
  then show "m \<in> set (local_inbox self w)"
    by (auto simp: LocalTransportOps_def Local_Receive_def local_inbox_def split: option.splits if_splits list.splits)
qed

lemma Local_Send_delivers:
  assumes "local_wired w" "local_link self dest w" "length (local_inbox dest w) < inboxCapacity" "local_wire C m = Some m'"
    and "ln_transports w self = Some t"
  shows "\<exists>w'. Local_Send C t False dest m w = (None, w') \<and> local_wired w' \<and> (\<forall>i j. local_link i j w' = local_link i j w) \<and>
    ln_transports w' = ln_transports w \<and> (\<forall>j. local_inbox j w' = (if j = dest then local_inbox j w @ [m'] else local_inbox j w))"
proof -
  from assms(2) obtain u where u: "ln_transports w dest = Some u" "\<not> mch_closed (ln_chans w (lt_inbox u))"
    and t: "\<not> lt_closed t" "\<not> lt_blocked t dest"
    using assms(5) by (auto simp: local_link_def split: option.splits)
  from assms(1,5) u(1) have p: "lt_peers t dest = Some (lt_inbox u)" by (simp add: local_wired_def)
  let ?c = "lt_inbox u"
  let ?w = "w\<lparr>ln_chans := (ln_chans w)(?c := (ln_chans w ?c)\<lparr>mch_buf := mch_buf (ln_chans w ?c) @ [m']\<rparr>)\<rparr>"
  from assms(4) obtain d where "mc_Marshal C m = Some d" "mc_Unmarshal C d = Some m'"
    by (auto simp: local_wire_def Option.bind_eq_Some_conv)
  with t p u assms(3) have "Local_Send C t False dest m w = (None, ?w)" by (simp add: Local_Send_def local_inbox_def)
  moreover from assms(1) have "local_wired ?w" by (simp add: local_wired_def)
  moreover have "local_link i j ?w = local_link i j w" for i j by (simp add: local_link_def split: option.split)
  moreover have "local_inbox j ?w = (if j = dest then local_inbox j w @ [m'] else local_inbox j w)" for j
    using assms(1) u(1) by (auto simp: local_inbox_def local_wired_def split: option.splits)
  ultimately show ?thesis by (intro exI [of _ ?w]) simp
qed

lemma Local_sendAll_delivers:
  assumes "local_wire C m = Some m'"
  shows "local_wired w \<Longrightarrow> ln_transports w self = Some t \<Longrightarrow> distinct ids \<Longrightarrow>
    (\<And>i. i \<in> set ids \<Longrightarrow> local_link self i w \<and> length (local_inbox i w) < inboxCapacity) \<Longrightarrow>
    \<exists>w'. sendAll (\<lambda>i. Local_Send C t False i m) ids None w = (None, w') \<and> local_wired w' \<and>
      (\<forall>i j. local_link i j w' = local_link i j w) \<and>
      (\<forall>j. local_inbox j w' = (if j \<in> set ids then local_inbox j w @ [m'] else local_inbox j w))"
proof (induction ids arbitrary: w)
  case Nil
  then show ?case by simp
next
  case (Cons i ids)
  from Cons.prems(4) have li: "local_link self i w" "length (local_inbox i w) < inboxCapacity" by simp_all
  obtain w1 where w1: "Local_Send C t False i m w = (None, w1)" "local_wired w1" "\<forall>i j. local_link i j w1 = local_link i j w"
    "ln_transports w1 = ln_transports w" "\<forall>j. local_inbox j w1 = (if j = i then local_inbox j w @ [m'] else local_inbox j w)"
    using Local_Send_delivers [OF Cons.prems(1) li assms Cons.prems(2)] by blast
  have ni: "i \<notin> set ids" using Cons.prems(3) by simp
  have "local_link self j w1 \<and> length (local_inbox j w1) < inboxCapacity" if "j \<in> set ids" for j
    using Cons.prems(4) [of j] that w1(3,5) ni by auto
  then obtain w2 where "sendAll (\<lambda>i. Local_Send C t False i m) ids None w1 = (None, w2)" "local_wired w2"
      "\<forall>i j. local_link i j w2 = local_link i j w1"
      "\<forall>j. local_inbox j w2 = (if j \<in> set ids then local_inbox j w1 @ [m'] else local_inbox j w1)"
    using Cons.IH [OF w1(2)] w1(4) Cons.prems(2,3) by auto
  with w1 ni show ?case by (intro exI [of _ w2]) auto
qed

interpretation localnet: reliable_network "LocalTransportOps C" local_inbox "local_wire C" local_wired local_link inboxCapacity for C
proof unfold_locales
  fix w self dest m m'
  assume *: "local_wired w" "local_link self dest w" "length (local_inbox dest w) < inboxCapacity" "local_wire C m = Some m'"
  then obtain t where t: "ln_transports w self = Some t" by (auto simp: local_link_def split: option.splits)
  from Local_Send_delivers [OF * t] t
  show "\<exists>w'. vt_Send (LocalTransportOps C) self False dest m w = (None, w') \<and> local_wired w' \<and>
      (\<forall>i j. local_link i j w' = local_link i j w) \<and>
      (\<forall>j. local_inbox j w' = (if j = dest then local_inbox j w @ [m'] else local_inbox j w))"
    by (auto simp: LocalTransportOps_def)
next
  fix w and order :: "string list" and self m m'
  assume *: "local_wired w" "distinct order" "\<And>i. i \<in> set order \<Longrightarrow> i \<noteq> self \<Longrightarrow> local_link self i w \<and> length (local_inbox i w) < inboxCapacity"
    "local_link self self w" "local_wire C m = Some m'"
  then obtain t where t: "ln_transports w self = Some t" by (auto simp: local_link_def split: option.splits)
  let ?ids = "filter (\<lambda>i. lt_peers t i \<noteq> None \<and> i \<noteq> lt_localID t) order"
  have "i \<in> set ?ids \<longleftrightarrow> i \<in> set order \<and> i \<noteq> self" for i
    using *(1) *(3) [of i] t by (auto simp: local_wired_def local_link_def split: option.splits)
  with Local_sendAll_delivers [OF *(5,1) t, of ?ids] *(2,3) t
  show "\<exists>w'. vt_Broadcast (LocalTransportOps C) self False order m w = (None, w') \<and> local_wired w' \<and>
      (\<forall>i j. local_link i j w' = local_link i j w) \<and>
      (\<forall>j. local_inbox j w' = (if j \<in> set order \<and> j \<noteq> self then local_inbox j w @ [m'] else local_inbox j w))"
    by (simp add: LocalTransportOps_def Local_Broadcast_def Let_def)
next
  fix w self m ms
  assume *: "local_wired w" "local_inbox self w = m # ms"
  then obtain t where t: "ln_transports w self = Some t" "mch_buf (ln_chans w (lt_inbox t)) = m # ms"
    by (auto simp: local_inbox_def split: option.splits)
  let ?w = "w\<lparr>ln_chans := (ln_chans w)(lt_inbox t := (ln_chans w (lt_inbox t))\<lparr>mch_buf := ms\<rparr>)\<rparr>"
  from t have "vt_Receive (LocalTransportOps C) self False w = (Inr (m, None), ?w)"
    by (simp add: LocalTransportOps_def Local_Receive_def)
  moreover from *(1) have "local_wired ?w" by (simp add: local_wired_def)
  moreover have "local_link i j ?w = local_link i j w" for i j by (simp add: local_link_def split: option.split)
  moreover have "local_inbox j ?w = (if j = self then ms else local_inbox j w)" for j
    using *(1) t by (auto simp: local_inbox_def local_wired_def split: option.splits)
  ultimately show "\<exists>w' p. vt_Receive (LocalTransportOps C) self False w = (Inr (m, p), w') \<and> local_wired w' \<and>
      (\<forall>i j. local_link i j w' = local_link i j w) \<and> (\<forall>j. local_inbox j w' = (if j = self then ms else local_inbox j w))"
    by blast
qed

text \<open>A fresh set of transports is wired, every link is open and every inbox is empty.\<close>

lemma makePeers_props:
  "\<forall>i c. m i = Some c \<longrightarrow> c < k \<Longrightarrow> \<forall>i j c. m i = Some c \<longrightarrow> m j = Some c \<longrightarrow> i = j \<Longrightarrow>
     dom (makePeers k ids m) = dom m \<union> set ids \<and>
     (\<forall>i j c. makePeers k ids m i = Some c \<longrightarrow> makePeers k ids m j = Some c \<longrightarrow> i = j)"
proof (induction k ids m rule: makePeers.induct)
  case (2 k i ids m)
  have a: "\<forall>j c. (m(i \<mapsto> k)) j = Some c \<longrightarrow> c < Suc k" using "2.prems"(1) by (auto simp: less_Suc_eq)
  have new: "m j \<noteq> Some k" for j using "2.prems"(1) by auto
  have b: "\<forall>j j' c. (m(i \<mapsto> k)) j = Some c \<longrightarrow> (m(i \<mapsto> k)) j' = Some c \<longrightarrow> j = j'"
    using "2.prems"(2) new by (simp add: fun_upd_apply) blast
  from "2.IH" [OF a b] show ?case by (simp del: fun_upd_apply)
qed simp

lemma fold_upd_apply: "fold (\<lambda>i m. m(i \<mapsto> f i)) ids m j = (if j \<in> set ids then Some (f j) else m j)"
  by (induction ids arbitrary: m) auto

lemma NewLocalTransportSet_ready:
  "local_wired (NewLocalTransportSet ids)"
  "i \<in> set ids \<Longrightarrow> j \<in> set ids \<Longrightarrow> local_link i j (NewLocalTransportSet ids)"
  "local_inbox i (NewLocalTransportSet ids) = []"
proof -
  let ?p = "makePeers 0 ids Map.empty"
  have d: "dom ?p = set ids" and inj: "\<And>i j c. ?p i = Some c \<Longrightarrow> ?p j = Some c \<Longrightarrow> i = j"
    using makePeers_props [of Map.empty 0 ids] by auto
  have tr: "ln_transports (NewLocalTransportSet ids) i = (if i \<in> set ids then Some (NewLocalTransport i (the (?p i)) ?p) else None)" for i
    by (simp add: NewLocalTransportSet_def Let_def fold_upd_apply)
  have k: "?p i = Some (the (?p i))" if "i \<in> set ids" for i
    using d that by (metis domIff option.collapse)
  have "?p = (\<lambda>j. map_option lt_inbox (ln_transports (NewLocalTransportSet ids) j))"
    using d k by (auto simp: tr NewLocalTransport_def fun_eq_iff)
  moreover have "i = j" if "i \<in> set ids" "j \<in> set ids" "the (?p i) = the (?p j)" for i j
    using inj [of i _ j] k that by metis
  ultimately show "local_wired (NewLocalTransportSet ids)"
    by (auto simp: local_wired_def tr NewLocalTransport_def split: if_splits)
  show "i \<in> set ids \<Longrightarrow> j \<in> set ids \<Longrightarrow> local_link i j (NewLocalTransportSet ids)"
    by (simp add: local_link_def tr NewLocalTransport_def) (simp add: NewLocalTransportSet_def Let_def)
  show "local_inbox i (NewLocalTransportSet ids) = []"
    by (simp add: local_inbox_def NewLocalTransportSet_def Let_def split: option.split)
qed

section \<open>Properties of the SCION transport\<close>

lemma parsePeersLoop_spec:
  "parsePeersLoop U localID vs peers = Inr m \<Longrightarrow>
     dom m = dom peers \<union> (vs_ID ` set vs - {localID}) \<and> (localID \<notin> dom peers \<longrightarrow> m localID = None) \<and>
     (\<forall>i a. m i = Some a \<longrightarrow> peers i = Some a \<or> (\<exists>v\<in>set vs. vs_ID v = i \<and> ua_Parse U (vs_Address v) = Some a))"
proof (induction vs arbitrary: peers)
  case (Cons v vs)
  show ?case
  proof (cases "vs_ID v = localID")
    case True
    with Cons show ?thesis by auto
  next
    case False
    with Cons.prems obtain a where a: "ua_Parse U (vs_Address v) = Some a" "parsePeersLoop U localID vs (peers(vs_ID v \<mapsto> a)) = Inr m"
      by (auto split: option.splits)
    from Cons.IH [OF a(2)] a(1) False show ?thesis by (auto simp: domIff split: if_splits)
  qed
qed auto


definition pipeConn :: "(string, string list) snetConn" where
  "pipeConn = \<lparr>sc_SetWriteDeadline = (\<lambda>c. (True, c)), sc_WriteTo = (\<lambda>d a c. (True, c @ [d])), sc_SetReadDeadline = (\<lambda>c. (True, c)),
     sc_ReadFrom = (\<lambda>k c. case c of [] \<Rightarrow> (None, []) | d # ds \<Rightarrow> (Some (take k d, Some ''peer''), ds)), sc_Close = (\<lambda>c. (True, []))\<rparr>"

definition oneCodec :: "string \<Rightarrow> ConsensusMessage \<Rightarrow> string msgCodec" where
  "oneCodec d m = \<lparr>mc_Marshal = (\<lambda>_. Some d), mc_Unmarshal = (\<lambda>x. if x = d then Some m else None), mc_MarshalTx = (\<lambda>_. None), mc_UnmarshalTx = (\<lambda>_. None)\<rparr>"

definition pingMsg :: ConsensusMessage where
  "pingMsg = \<lparr>cm_Type = MsgVote, cm_TxID = ''t'', cm_ValidatorID = ''b'', cm_Round = 1, cm_Payload = ''yes'', cm_Timestamp = 0\<rparr>"


end
