(* ===== verification/JP_Node.thy ===== *)
theory JP_Node
  imports JP_Consensus JP_Transport
begin

text \<open>
  The validator node of \<^verbatim>\<open>internal/dlt/node.go\<close>: its message loop, the proposal and commit
  handlers and \<open>ProposeSettlement\<close>, over any transport.  A node waits for messages while others
  act, so \<open>ProposeSettlement\<close> is composed of three parts: \<open>proposeBegin\<close> up to the vote loop, one
  \<open>collectStep\<close> per received message, and \<open>proposeFinish\<close>; a cluster of nodes interleaves these
  parts with the message loops of the others.  The vote timeout is the end of the list of waits.
  Contexts and clock readings are arguments.
\<close>

section \<open>node.go\<close>

record ValidatorNode =
  vn_ID :: string
  vn_Ledger :: Ledger
  vn_validators :: "ValidatorState list"
  vn_pendingMsgs :: "string \<rightharpoonup> ConsensusMessage list"

definition NewValidatorNode :: "string \<Rightarrow> ValidatorState list \<Rightarrow> ValidatorNode" where
  "NewValidatorNode i validators =
     \<lparr>vn_ID = i, vn_Ledger = NewLedger validators, vn_validators = validators, vn_pendingMsgs = Map.empty\<rparr>"

text \<open>The transaction a proposal carries is replicated first; \<open>False\<close> means the handler returns.\<close>

definition replicateTx :: "'d msgCodec \<Rightarrow> time \<Rightarrow> ConsensusMessage \<Rightarrow> Ledger \<Rightarrow> bool \<times> Ledger" where
  "replicateTx C now proposal l =
     (if cm_Payload proposal \<noteq> '''' then
        (case mc_UnmarshalTx C (cm_Payload proposal) of
           None \<Rightarrow> (False, l)
         | Some tx \<Rightarrow>
             (case newTx tx l of
                (r, l1) \<Rightarrow>
                  (case SubmitTransactionIfAbsent r now l1 of
                     (Inl _, l2) \<Rightarrow> (False, l2)
                   | (Inr _, l2) \<Rightarrow> (True, l2))))
      else (True, l))"

definition handleProposal ::
  "'w ValidatorTransport \<Rightarrow> 'd msgCodec \<Rightarrow> time \<Rightarrow> time \<Rightarrow> bool \<Rightarrow> ConsensusMessage \<Rightarrow> ValidatorNode \<Rightarrow> 'w \<Rightarrow> ValidatorNode \<times> 'w" where
  "handleProposal T C now1 now2 ctxDone proposal n w =
     (case replicateTx C now1 proposal (vn_Ledger n) of
        (False, l) \<Rightarrow> (n\<lparr>vn_Ledger := l\<rparr>, w)
      | (True, l) \<Rightarrow>
          (case Vote now2 (proposal\<lparr>cm_ValidatorID := vn_ID n\<rparr>) l of
             Inl _ \<Rightarrow> (n\<lparr>vn_Ledger := l\<rparr>, w)
           | Inr vote \<Rightarrow>
               (n\<lparr>vn_Ledger := l\<rparr>,
                snd (vt_Send T (vn_ID n) ctxDone (cm_ValidatorID proposal) (vote\<lparr>cm_ValidatorID := vn_ID n\<rparr>) w))))"

definition handleCommit :: "ConsensusMessage \<Rightarrow> ValidatorNode \<Rightarrow> ValidatorNode" where
  "handleCommit msg n = n\<lparr>vn_Ledger := snd (Commit msg (vn_Ledger n))\<rparr>"

text \<open>One iteration of the message loop; the flag tells whether the loop ends.\<close>

definition runStep ::
  "'w ValidatorTransport \<Rightarrow> 'd msgCodec \<Rightarrow> time \<Rightarrow> time \<Rightarrow> bool \<Rightarrow> ValidatorNode \<Rightarrow> 'w \<Rightarrow> bool \<times> ValidatorNode \<times> 'w" where
  "runStep T C now1 now2 ctxDone n w =
     (case vt_Receive T (vn_ID n) ctxDone w of
        (Inl _, w1) \<Rightarrow> (ctxDone, n, w1)
      | (Inr (msg, pathInfo), w1) \<Rightarrow>
          (case cm_Type msg of
             MsgPropose \<Rightarrow> (False, handleProposal T C now1 now2 ctxDone msg n w1)
           | MsgCommit \<Rightarrow> (False, handleCommit msg n, w1)
           | _ \<Rightarrow> (False, n, w1)))"

datatype NodeError =
    NodeLedger LedgerError
  | MarshalingTx
  | InsufficientVotes nat nat
  | NoReturn TransportError

text \<open>The local variables of \<open>ProposeSettlement\<close> while it collects votes.\<close>

record Collecting =
  co_txID :: string
  co_Round :: uint64
  co_yes :: nat
  co_collected :: nat

definition isYes :: "ConsensusMessage \<Rightarrow> nat" where
  "isYes m = (if cm_Payload m = ''yes'' then 1 else 0)"

definition proposeBegin ::
  "'w ValidatorTransport \<Rightarrow> 'd msgCodec \<Rightarrow> nat \<Rightarrow> (nat \<Rightarrow> time) \<Rightarrow> bool \<Rightarrow> string list \<Rightarrow> txref \<Rightarrow> ValidatorNode \<Rightarrow> 'w
   \<Rightarrow> (ConsensusResult \<times> NodeError + Collecting) \<times> ValidatorNode \<times> 'w" where
  "proposeBegin T C pick now ctxDone order r n w =
     (let txid = tx_ID (lg_heap (vn_Ledger n) r);
          fail = (\<lambda>rnd. \<lparr>cres_Confirmed = False, cres_Round = rnd, cres_Votes = 0, cres_TxID = txid\<rparr>) in
      case SubmitTransaction r (now 0) (vn_Ledger n) of
        (Some e, l1) \<Rightarrow> (Inl (fail 0, NodeLedger e), n\<lparr>vn_Ledger := l1\<rparr>, w)
      | (None, l1) \<Rightarrow>
         (case ProposeBlock pick (now 1) (vn_ID n) l1 of
            (Inl e, l2) \<Rightarrow> (Inl (fail 0, NodeLedger e), n\<lparr>vn_Ledger := CleanupPending txid l2\<rparr>, w)
          | (Inr block, l2) \<Rightarrow>
             (case mc_MarshalTx C (lg_heap l2 r) of
                None \<Rightarrow> (Inl (fail 0, MarshalingTx), n\<lparr>vn_Ledger := CleanupPending txid l2\<rparr>, w)
              | Some txData \<Rightarrow>
                  let proposal = block\<lparr>cm_Payload := txData\<rparr> in
                  (case vt_Broadcast T (vn_ID n) ctxDone order proposal w of
                     (e, w1) \<Rightarrow>
                       if e \<noteq> None \<and> no_return (the e) then (Inl (fail 0, NoReturn (the e)), n\<lparr>vn_Ledger := l2\<rparr>, w1)
                       else
                        (case Vote (now 2) (proposal\<lparr>cm_ValidatorID := vn_ID n\<rparr>) l2 of
                           Inl e \<Rightarrow> (Inl (fail (cm_Round proposal), NodeLedger e), n\<lparr>vn_Ledger := CleanupPending txid l2\<rparr>, w1)
                         | Inr selfVote \<Rightarrow>
                             let pend = (case vn_pendingMsgs n txid of None \<Rightarrow> [] | Some ms \<Rightarrow> filter (\<lambda>pm. cm_Type pm = MsgVote) ms) in
                             (Inr \<lparr>co_txID = txid, co_Round = cm_Round proposal,
                                   co_yes = isYes selfVote + sum_list (map isYes pend), co_collected = length pend\<rparr>,
                              n\<lparr>vn_Ledger := l2, vn_pendingMsgs := (vn_pendingMsgs n)(txid := None)\<rparr>, w1))))))"

text \<open>The body of the vote loop for a received message.\<close>

definition collectStep :: "ConsensusMessage \<Rightarrow> Collecting \<Rightarrow> ValidatorNode \<Rightarrow> Collecting \<times> ValidatorNode" where
  "collectStep msg co n =
     (if cm_Type msg \<noteq> MsgVote \<or> cm_TxID msg \<noteq> co_txID co then
        (co, n\<lparr>vn_pendingMsgs := (vn_pendingMsgs n)(cm_TxID msg \<mapsto>
                (case vn_pendingMsgs n (cm_TxID msg) of None \<Rightarrow> [] | Some ms \<Rightarrow> ms) @ [msg])\<rparr>)
      else (co\<lparr>co_collected := co_collected co + 1, co_yes := co_yes co + isYes msg\<rparr>, n))"

definition votesNeeded :: "ValidatorNode \<Rightarrow> nat" where
  "votesNeeded n = length (vn_validators n) - 1"

text \<open>
  The vote loop.  Each wait is given as what the rest of the system does to the network meanwhile;
  a wait in which nothing arrives is followed by the next one, and the vote timeout ends the list.
\<close>

fun collectVotes ::
  "'w ValidatorTransport \<Rightarrow> ('w \<Rightarrow> 'w) list \<Rightarrow> Collecting \<Rightarrow> ValidatorNode \<Rightarrow> 'w \<Rightarrow> Collecting \<times> ValidatorNode \<times> 'w" where
  "collectVotes T [] co n w = (co, n, w)"
| "collectVotes T (env # envs) co n w =
     (if co_collected co < votesNeeded n then
        (case vt_Receive T (vn_ID n) False (env w) of
           (Inl e, w1) \<Rightarrow> (if e = Waiting then collectVotes T envs co n w1 else (co, n, w1))
         | (Inr (msg, _), w1) \<Rightarrow>
             (case collectStep msg co n of (co1, n1) \<Rightarrow> collectVotes T envs co1 n1 w1))
      else (co, n, w))"

text \<open>When the broadcast of the commit does not return, neither does the call; the ledger is already committed.\<close>

definition proposeFinish ::
  "'w ValidatorTransport \<Rightarrow> time \<Rightarrow> bool \<Rightarrow> string list \<Rightarrow> Collecting \<Rightarrow> ValidatorNode \<Rightarrow> 'w
   \<Rightarrow> (ConsensusResult \<times> NodeError option) \<times> ValidatorNode \<times> 'w" where
  "proposeFinish T now ctxDone order co n w =
     (let majority = length (vn_validators n) div 2 + 1;
          result = (\<lambda>ok. \<lparr>cres_Confirmed = ok, cres_Round = co_Round co, cres_Votes = co_yes co, cres_TxID = co_txID co\<rparr>) in
      if co_yes co \<ge> majority then
        let commitMsg = \<lparr>cm_Type = MsgCommit, cm_TxID = co_txID co, cm_ValidatorID = vn_ID n, cm_Round = co_Round co,
                         cm_Payload = '''', cm_Timestamp = now\<rparr> in
        (case Commit commitMsg (vn_Ledger n) of
           (Some e, l) \<Rightarrow> ((result False, Some (NodeLedger e)), n\<lparr>vn_Ledger := CleanupPending (co_txID co) l\<rparr>, w)
         | (None, l) \<Rightarrow>
             (case vt_Broadcast T (vn_ID n) ctxDone order commitMsg w of
                (e, w1) \<Rightarrow>
                  ((result True, if e \<noteq> None \<and> no_return (the e) then Some (NoReturn (the e)) else None),
                   n\<lparr>vn_Ledger := l\<rparr>, w1)))
      else
        ((result False, Some (InsufficientVotes (co_yes co) majority)),
         n\<lparr>vn_Ledger := CleanupPending (co_txID co) (vn_Ledger n)\<rparr>, w))"

definition ProposeSettlement ::
  "'w ValidatorTransport \<Rightarrow> 'd msgCodec \<Rightarrow> nat \<Rightarrow> (nat \<Rightarrow> time) \<Rightarrow> bool \<Rightarrow> string list \<Rightarrow> ('w \<Rightarrow> 'w) list \<Rightarrow> txref \<Rightarrow> ValidatorNode \<Rightarrow> 'w
   \<Rightarrow> (ConsensusResult \<times> NodeError option) \<times> ValidatorNode \<times> 'w" where
  "ProposeSettlement T C pick now ctxDone order envs r n w =
     (case proposeBegin T C pick now ctxDone order r n w of
        (Inl (res, e), n1, w1) \<Rightarrow> ((res, Some e), n1, w1)
      | (Inr co, n1, w1) \<Rightarrow>
          (case collectVotes T envs co n1 w1 of
             (co2, n2, w2) \<Rightarrow> proposeFinish T (now 3) ctxDone order co2 n2 w2))"

section \<open>A cluster of nodes\<close>

text \<open>
  All nodes of a process group, the proposals they are collecting votes for, the network and the
  results that \<open>ProposeSettlement\<close> has produced so far.
\<close>

record 'w Cluster =
  cl_nodes :: "string \<rightharpoonup> ValidatorNode"
  cl_busy :: "string \<rightharpoonup> Collecting"
  cl_net :: 'w
  cl_results :: "(string \<times> ConsensusResult) list"

text \<open>
  A client submits a transaction to an idle node; a collecting node takes a message or stops
  waiting at any time; every node may run an iteration of its message loop at any time; the network
  may lose messages.
\<close>

inductive cluster_step ::
  "'w ValidatorTransport \<Rightarrow> 'd msgCodec \<Rightarrow> (string \<Rightarrow> 'w \<Rightarrow> ConsensusMessage list) \<Rightarrow> 'w Cluster \<Rightarrow> 'w Cluster \<Rightarrow> bool"
  for T C inbox where
  begins: "cl_nodes s i = Some n \<Longrightarrow> cl_busy s i = None \<Longrightarrow> newTx tx (vn_Ledger n) = (r, l) \<Longrightarrow>
      proposeBegin T C pick now ctx order r (n\<lparr>vn_Ledger := l\<rparr>) (cl_net s) = (Inr co, n', w') \<Longrightarrow>
      cluster_step T C inbox s (s\<lparr>cl_nodes := (cl_nodes s)(i \<mapsto> n'), cl_busy := (cl_busy s)(i \<mapsto> co), cl_net := w'\<rparr>)"
| fails: "cl_nodes s i = Some n \<Longrightarrow> cl_busy s i = None \<Longrightarrow> newTx tx (vn_Ledger n) = (r, l) \<Longrightarrow>
      proposeBegin T C pick now ctx order r (n\<lparr>vn_Ledger := l\<rparr>) (cl_net s) = (Inl (res, e), n', w') \<Longrightarrow>
      cluster_step T C inbox s (s\<lparr>cl_nodes := (cl_nodes s)(i \<mapsto> n'), cl_net := w', cl_results := cl_results s @ [(i, res)]\<rparr>)"
| collects: "cl_nodes s i = Some n \<Longrightarrow> cl_busy s i = Some co \<Longrightarrow> co_collected co < votesNeeded n \<Longrightarrow>
      vt_Receive T (vn_ID n) False (cl_net s) = (Inr (m, p), w') \<Longrightarrow> collectStep m co n = (co', n') \<Longrightarrow>
      cluster_step T C inbox s (s\<lparr>cl_nodes := (cl_nodes s)(i \<mapsto> n'), cl_busy := (cl_busy s)(i \<mapsto> co'), cl_net := w'\<rparr>)"
| finishes: "cl_nodes s i = Some n \<Longrightarrow> cl_busy s i = Some co \<Longrightarrow>
      proposeFinish T t ctx order co n (cl_net s) = ((res, e), n', w') \<Longrightarrow>
      cluster_step T C inbox s (s\<lparr>cl_nodes := (cl_nodes s)(i \<mapsto> n'), cl_busy := (cl_busy s)(i := None), cl_net := w',
        cl_results := cl_results s @ [(i, res)]\<rparr>)"
| runs: "cl_nodes s i = Some n \<Longrightarrow> runStep T C t1 t2 ctx n (cl_net s) = (stop, n', w') \<Longrightarrow>
      cluster_step T C inbox s (s\<lparr>cl_nodes := (cl_nodes s)(i \<mapsto> n'), cl_net := w'\<rparr>)"
| loses: "(\<And>j. set (inbox j w') \<subseteq> set (inbox j (cl_net s))) \<Longrightarrow> cluster_step T C inbox s (s\<lparr>cl_net := w'\<rparr>)"

inductive cluster_reach ::
  "'w ValidatorTransport \<Rightarrow> 'd msgCodec \<Rightarrow> (string \<Rightarrow> 'w \<Rightarrow> ConsensusMessage list) \<Rightarrow> 'w Cluster \<Rightarrow> 'w Cluster \<Rightarrow> bool"
  for T C inbox s where
  start: "cluster_reach T C inbox s s"
| step: "cluster_reach T C inbox s s1 \<Longrightarrow> cluster_step T C inbox s1 s2 \<Longrightarrow> cluster_reach T C inbox s s2"

definition NewCluster :: "ValidatorState list \<Rightarrow> string list \<Rightarrow> 'w \<Rightarrow> 'w Cluster" where
  "NewCluster vs ids w =
     \<lparr>cl_nodes = (\<lambda>i. if i \<in> set ids then Some (NewValidatorNode i vs) else None), cl_busy = Map.empty, cl_net = w, cl_results = []\<rparr>"

text \<open>A transaction is decided when some proposer's call confirmed it with a majority of yes votes.\<close>

definition decided :: "'w Cluster \<Rightarrow> string \<Rightarrow> bool" where
  "decided s t \<longleftrightarrow>
     (\<exists>i n res. (i, res) \<in> set (cl_results s) \<and> cl_nodes s i = Some n \<and> cres_Confirmed res \<and> cres_TxID res = t \<and>
        length (vn_validators n) div 2 + 1 \<le> cres_Votes res \<and> lg_confirmed (vn_Ledger n) t \<noteq> None)"

definition cluster_inv :: "(string \<Rightarrow> 'w \<Rightarrow> ConsensusMessage list) \<Rightarrow> ValidatorState list \<Rightarrow> 'w Cluster \<Rightarrow> bool" where
  "cluster_inv inbox vs s \<longleftrightarrow>
     (\<forall>i n. cl_nodes s i = Some n \<longrightarrow>
        vn_ID n = i \<and> vn_validators n = vs \<and> ledger_reach (NewLedger vs) (vn_Ledger n) \<and>
        (\<forall>t. lg_confirmed (vn_Ledger n) t \<noteq> None \<longrightarrow> decided s t)) \<and>
     (\<forall>i. \<forall>m\<in>set (inbox i (cl_net s)). cm_Type m = MsgCommit \<longrightarrow> decided s (cm_TxID m))"

section \<open>What the node operations do to the ledger\<close>

text \<open>A quiet change: ledger operations other than commits.\<close>

definition quiet :: "Ledger \<Rightarrow> Ledger \<Rightarrow> bool" where
  "quiet l l' \<longleftrightarrow> ledger_reach l l' \<and> lg_confirmed l' = lg_confirmed l"

lemma quiet_refl [simp]: "quiet l l"
  by (simp add: quiet_def reach_refl)

lemma quiet_trans: "quiet l1 l2 \<Longrightarrow> quiet l2 l3 \<Longrightarrow> quiet l1 l3"
  unfolding quiet_def using ledger_reach_trans by metis

lemma confirmed_frame [frame_simps]:
  "lg_confirmed (snd (submitLocked r now l)) = lg_confirmed l"
  "lg_confirmed (snd (newTx tx l)) = lg_confirmed l"
  "lg_confirmed (CleanupPending i l) = lg_confirmed l"
  "lg_confirmed (snd (ProposeBlock pick now v l)) = lg_confirmed l"
  by (auto simp: submitLocked_def newTx_def CleanupPending_def ProposeBlock_def Let_def split: option.split)

lemma quiet_newTx: "quiet l (snd (newTx tx l))"
  unfolding quiet_def by (simp add: frame_simps ledger_reach_one allocate)

lemma quiet_cleanup: "quiet l (CleanupPending i l)"
  unfolding quiet_def by (simp add: frame_simps ledger_reach_one cleaned)

lemma quiet_propose: "quiet l (snd (ProposeBlock pick now v l))"
  unfolding quiet_def by (simp add: frame_simps ledger_reach_one proposed)

lemma quiet_submit: "r < lg_next l \<Longrightarrow> quiet l (snd (SubmitTransaction r now l))"
  unfolding quiet_def using ledger_reach_one [OF submitted] by (simp add: SubmitTransaction_def frame_simps)

lemma quiet_submitIfAbsent: "r < lg_next l \<Longrightarrow> quiet l (snd (SubmitTransactionIfAbsent r now l))"
  unfolding quiet_def using ledger_reach_one [OF submitIfAbsent]
  by (auto simp: SubmitTransactionIfAbsent_def Let_def split: option.split prod.split)
     (metis confirmed_frame(1) snd_conv)+

lemma newTx_fresh: "newTx tx l = (r, l') \<Longrightarrow> r < lg_next l' \<and> lg_heap l' r = tx \<and> quiet l l'"
  using quiet_newTx [of l tx] by (auto simp: newTx_def)

lemma quiet_replicate: "quiet l (snd (replicateTx C now p l))"
proof (cases "cm_Payload p \<noteq> '''' \<and> mc_UnmarshalTx C (cm_Payload p) \<noteq> None")
  case True
  then obtain tx where tx: "mc_UnmarshalTx C (cm_Payload p) = Some tx" by blast
  obtain r l1 where n: "newTx tx l = (r, l1)" by fastforce
  obtain x l2 where s: "SubmitTransactionIfAbsent r now l1 = (x, l2)" by fastforce
  from newTx_fresh [OF n] have "quiet l l1" "r < lg_next l1" by auto
  moreover have "quiet l1 l2" using quiet_submitIfAbsent [OF \<open>r < lg_next l1\<close>, of now] s by simp
  ultimately have "quiet l l2" using quiet_trans by blast
  then show ?thesis using True tx n s by (cases x) (simp_all add: replicateTx_def)
next
  case False
  then show ?thesis by (auto simp: replicateTx_def split: option.split)
qed

lemma confirmed_commit:
  "ledger_inv l \<Longrightarrow> lg_confirmed (snd (Commit m l)) = lg_confirmed l \<or>
     (fst (Commit m l) = None \<and> (\<exists>r. lg_confirmed (snd (Commit m l)) = (lg_confirmed l)(cm_TxID m \<mapsto> r)))"
  by (erule Commit_cases [where msg = m]) auto

lemma commit_confirms:
  "ledger_inv l \<Longrightarrow> Commit m l = (None, l') \<Longrightarrow> \<exists>r. lg_confirmed l' = (lg_confirmed l)(cm_TxID m \<mapsto> r)"
  by (erule Commit_cases [where msg = m]) auto

lemma Vote_shape:
  "Vote now m l = Inr v \<Longrightarrow> cm_Type v = MsgVote \<and> cm_TxID v = cm_TxID m \<and> cm_ValidatorID v = cm_ValidatorID m \<and> cm_Type m = MsgPropose"
  by (auto simp: Vote_def Let_def split: if_splits option.splits)

lemma ProposeBlock_shape:
  "ProposeBlock pick now v l = (Inr b, l') \<Longrightarrow> cm_Type b = MsgPropose \<and> cm_ValidatorID b = v \<and> cm_Round b = lg_currentRound l'"
  by (auto simp: ProposeBlock_def Let_def split: option.splits if_splits)

lemma handleProposal_cases:
  assumes "handleProposal T C t1 t2 ctx p n w = (n', w')"
  obtains l where "n' = n\<lparr>vn_Ledger := l\<rparr>" "quiet (vn_Ledger n) l"
    "w' = w \<or> (\<exists>v. cm_Type v = MsgVote \<and> w' = snd (vt_Send T (vn_ID n) ctx (cm_ValidatorID p) v w))"
proof -
  obtain b l where r: "replicateTx C t1 p (vn_Ledger n) = (b, l)" by fastforce
  then have q: "quiet (vn_Ledger n) l" using quiet_replicate [of "vn_Ledger n" C t1 p] by simp
  show thesis
  proof (rule that [of l])
    show "n' = n\<lparr>vn_Ledger := l\<rparr>" "quiet (vn_Ledger n) l"
      using assms r q by (auto simp: handleProposal_def split: sum.splits bool.splits)
    show "w' = w \<or> (\<exists>v. cm_Type v = MsgVote \<and> w' = snd (vt_Send T (vn_ID n) ctx (cm_ValidatorID p) v w))"
    proof (cases "b \<and> (\<exists>v. Vote t2 (p\<lparr>cm_ValidatorID := vn_ID n\<rparr>) l = Inr v)")
      case True
      then obtain v where "Vote t2 (p\<lparr>cm_ValidatorID := vn_ID n\<rparr>) l = Inr v" by blast
      with True r assms Vote_shape [OF this] show ?thesis
        by (intro disjI2 exI [of _ "v\<lparr>cm_ValidatorID := vn_ID n\<rparr>"]) (auto simp: handleProposal_def)
    next
      case False
      with r assms show ?thesis by (cases b) (auto simp: handleProposal_def split: sum.splits)
    qed
  qed
qed

text \<open>Each step of a node leaves its identity alone; a begin makes a quiet change and broadcasts at most a proposal.\<close>

lemma proposeBegin_cases:
  assumes "proposeBegin T C pick now ctx order r n w = (x, n', w')" "r < lg_next (vn_Ledger n)"
  shows "vn_ID n' = vn_ID n \<and> vn_validators n' = vn_validators n \<and> quiet (vn_Ledger n) (vn_Ledger n') \<and>
    (w' = w \<or> (\<exists>p. cm_Type p = MsgPropose \<and> w' = snd (vt_Broadcast T (vn_ID n) ctx order p w))) \<and>
    (\<forall>res e. x = Inl (res, e) \<longrightarrow> \<not> cres_Confirmed res)"
proof -
  let ?t = "tx_ID (lg_heap (vn_Ledger n) r)"
  obtain e1 l1 where s: "SubmitTransaction r (now 0) (vn_Ledger n) = (e1, l1)" by fastforce
  have q1: "quiet (vn_Ledger n) l1" using quiet_submit [OF assms(2), of "now 0"] s by simp
  obtain y l2 where p: "ProposeBlock pick (now 1) (vn_ID n) l1 = (y, l2)" by fastforce
  have q2: "quiet (vn_Ledger n) l2" using quiet_trans [OF q1] quiet_propose [of l1 pick "now 1" "vn_ID n"] p by simp
  have q3: "quiet (vn_Ledger n) (CleanupPending ?t l2)" using quiet_trans [OF q2 quiet_cleanup] .
  show ?thesis
  proof (cases "e1 = None \<and> (\<exists>b d. y = Inr b \<and> mc_MarshalTx C (lg_heap l2 r) = Some d)")
    case True
    then obtain b d where y: "y = Inr b" and m: "mc_MarshalTx C (lg_heap l2 r) = Some d" by blast
    obtain e w1 where bc: "vt_Broadcast T (vn_ID n) ctx order (b\<lparr>cm_Payload := d\<rparr>) w = (e, w1)" by fastforce
    have "cm_Type (b\<lparr>cm_Payload := d\<rparr>) = MsgPropose" using ProposeBlock_shape p y by simp
    moreover have "w' = snd (vt_Broadcast T (vn_ID n) ctx order (b\<lparr>cm_Payload := d\<rparr>) w)"
      using assms(1) s p y m bc True
      by (simp add: proposeBegin_def Let_def split: if_splits sum.splits)
    moreover have "vn_ID n' = vn_ID n \<and> vn_validators n' = vn_validators n \<and> quiet (vn_Ledger n) (vn_Ledger n') \<and>
      (\<forall>res e. x = Inl (res, e) \<longrightarrow> \<not> cres_Confirmed res)"
      using assms(1) s p y m bc True q2 q3
      by (simp add: proposeBegin_def Let_def split: if_splits sum.splits) auto
    ultimately show ?thesis by blast
  next
    case False
    then show ?thesis
      using assms(1) s p q1 q3 by (cases e1; cases y) (auto simp: proposeBegin_def Let_def split: option.splits)
  qed
qed

lemma collectStep_frame [frame_simps]:
  "collectStep m co n = (co', n') \<Longrightarrow>
     vn_ID n' = vn_ID n \<and> vn_validators n' = vn_validators n \<and> vn_Ledger n' = vn_Ledger n \<and> co_txID co' = co_txID co"
  by (auto simp: collectStep_def split: if_splits)

lemma ledger_reach_commit: "ledger_reach l (snd (Commit m l))"
  by (rule ledger_reach_one) (rule committed)

lemma proposeFinish_cases:
  assumes "proposeFinish T t ctx order co n w = ((res, e), n', w')" "ledger_inv (vn_Ledger n)"
  obtains (confirmed) l m where "n' = n\<lparr>vn_Ledger := l\<rparr>" "Commit m (vn_Ledger n) = (None, l)" "cm_Type m = MsgCommit"
      "cm_TxID m = co_txID co" "cm_ValidatorID m = vn_ID n" "w' = snd (vt_Broadcast T (vn_ID n) ctx order m w)"
      "res = \<lparr>cres_Confirmed = True, cres_Round = co_Round co, cres_Votes = co_yes co, cres_TxID = co_txID co\<rparr>"
      "length (vn_validators n) div 2 + 1 \<le> co_yes co"
  | (rejected) l where "n' = n\<lparr>vn_Ledger := l\<rparr>" "quiet (vn_Ledger n) l" "w' = w" "\<not> cres_Confirmed res" "e \<noteq> None"
proof -
  let ?m = "\<lparr>cm_Type = MsgCommit, cm_TxID = co_txID co, cm_ValidatorID = vn_ID n, cm_Round = co_Round co,
             cm_Payload = '''', cm_Timestamp = t\<rparr>"
  obtain x l where c: "Commit ?m (vn_Ledger n) = (x, l)" by fastforce
  show thesis
  proof (cases "length (vn_validators n) div 2 + 1 \<le> co_yes co")
    case True
    show thesis
    proof (cases x)
      case None
      with True c assms(1) show thesis
        by (intro confirmed [of l ?m]) (auto simp: proposeFinish_def Let_def split: prod.splits)
    next
      case (Some y)
      from confirmed_commit [OF assms(2), of ?m] c Some ledger_reach_commit [of "vn_Ledger n" ?m]
      have "quiet (vn_Ledger n) l" by (simp add: quiet_def)
      then have "quiet (vn_Ledger n) (CleanupPending (co_txID co) l)" using quiet_trans quiet_cleanup by blast
      with True c Some assms(1) show thesis
        by (intro rejected) (auto simp: proposeFinish_def Let_def)
    qed
  next
    case False
    with assms(1) quiet_cleanup show thesis
      by (intro rejected) (auto simp: proposeFinish_def Let_def)
  qed
qed

section \<open>Replicas commit only what was decided\<close>

text \<open>What encoding must keep of a message for the argument: its type and its transaction.\<close>

definition wire_keeps_kind :: "(ConsensusMessage \<Rightarrow> ConsensusMessage option) \<Rightarrow> bool" where
  "wire_keeps_kind wire \<longleftrightarrow> (\<forall>m m'. wire m = Some m' \<longrightarrow> cm_Type m' = cm_Type m \<and> cm_TxID m' = cm_TxID m)"

lemma decided_mono:
  assumes "decided s t" "cl_nodes s i = Some n" "cl_nodes s' = (cl_nodes s)(i \<mapsto> n')"
    and "set (cl_results s) \<subseteq> set (cl_results s')" "vn_validators n' = vn_validators n"
    and "\<And>t. lg_confirmed (vn_Ledger n) t \<noteq> None \<Longrightarrow> lg_confirmed (vn_Ledger n') t \<noteq> None"
  shows "decided s' t"
proof -
  from assms(1) obtain j m res where *: "(j, res) \<in> set (cl_results s)" "cl_nodes s j = Some m" "cres_Confirmed res" "cres_TxID res = t"
    "length (vn_validators m) div 2 + 1 \<le> cres_Votes res" "lg_confirmed (vn_Ledger m) t \<noteq> None"
    unfolding decided_def by blast
  have "\<exists>m'. cl_nodes s' j = Some m' \<and> vn_validators m' = vn_validators m \<and> lg_confirmed (vn_Ledger m') t \<noteq> None"
    using *(2,6) assms(2,3,5) assms(6) [of t] by (cases "j = i") auto
  with * assms(4) show ?thesis unfolding decided_def by force
qed

lemma cluster_inv_upd:
  assumes "cluster_inv inbox vs s" "cl_nodes s i = Some n" "cl_nodes s' = (cl_nodes s)(i \<mapsto> n')"
    and "set (cl_results s) \<subseteq> set (cl_results s')" "vn_ID n' = vn_ID n" "vn_validators n' = vn_validators n"
    and "ledger_reach (vn_Ledger n) (vn_Ledger n')"
    and keep: "\<And>t. lg_confirmed (vn_Ledger n) t \<noteq> None \<Longrightarrow> lg_confirmed (vn_Ledger n') t \<noteq> None"
    and new: "\<And>t. lg_confirmed (vn_Ledger n') t \<noteq> None \<Longrightarrow> lg_confirmed (vn_Ledger n) t \<noteq> None \<or> decided s' t"
    and msgs: "\<And>j m. m \<in> set (inbox j (cl_net s')) \<Longrightarrow> cm_Type m = MsgCommit \<Longrightarrow>
      m \<in> set (inbox j (cl_net s)) \<or> decided s' (cm_TxID m)"
  shows "cluster_inv inbox vs s'"
proof -
  have mono: "decided s' t" if "decided s t" for t
    by (rule decided_mono [OF that assms(2,3,4,6) keep])
  from assms(1,2) have n: "vn_ID n = i" "vn_validators n = vs" "ledger_reach (NewLedger vs) (vn_Ledger n)"
    "\<And>t. lg_confirmed (vn_Ledger n) t \<noteq> None \<Longrightarrow> decided s t" unfolding cluster_inv_def by blast+
  have r: "ledger_reach (NewLedger vs) (vn_Ledger n')" by (rule ledger_reach_trans [OF assms(7) n(3)])
  have "vn_ID m = j \<and> vn_validators m = vs \<and> ledger_reach (NewLedger vs) (vn_Ledger m) \<and>
      (\<forall>t. lg_confirmed (vn_Ledger m) t \<noteq> None \<longrightarrow> decided s' t)" if "cl_nodes s' j = Some m" for j m
  proof (cases "j = i")
    case True
    with that assms(3) have "m = n'" by simp
    with True n r new mono assms(5,6) show ?thesis by metis
  next
    case False
    with that assms(3) have "cl_nodes s j = Some m" by simp
    with assms(1) mono show ?thesis unfolding cluster_inv_def by blast
  qed
  moreover have "decided s' (cm_TxID m)" if "m \<in> set (inbox j (cl_net s'))" "cm_Type m = MsgCommit" for j m
    using msgs [OF that] assms(1) that(2) mono unfolding cluster_inv_def by blast
  ultimately show ?thesis unfolding cluster_inv_def by blast
qed

lemma cluster_inv_ledger: "cluster_inv inbox vs s \<Longrightarrow> cl_nodes s i = Some n \<Longrightarrow> ledger_inv (vn_Ledger n)"
  unfolding cluster_inv_def using ledger_inv_reach ledger_inv_New by blast

context lossy_network
begin

text \<open>No operation but the broadcast of a commit puts a commit message into an inbox.\<close>

lemma quiet_traffic:
  assumes "wire_keeps_kind wire" "cm_Type m \<noteq> MsgCommit"
    and "w' = snd (vt_Send T self ctx dest m w) \<or> w' = snd (vt_Broadcast T self ctx order m w)"
    and "x \<in> set (inbox j w')" "cm_Type x = MsgCommit"
  shows "x \<in> set (inbox j w)"
proof -
  have "set (inbox j w') \<subseteq> set_option (wire m) \<union> set (inbox j w)"
    using assms(3) send_adds [of self ctx dest m w _ w' j] broadcast_adds [of self ctx order m w _ w' j] by (metis prod.collapse)
  moreover have "x \<notin> set_option (wire m)"
    using assms(1,2,5) unfolding wire_keeps_kind_def by force
  ultimately show ?thesis using assms(4) by blast
qed

lemma cluster_inv_runs:
  assumes "wire_keeps_kind wire" "cluster_inv inbox vs s" "cl_nodes s i = Some n"
    and "runStep T C t1 t2 ctx n (cl_net s) = (stop, n', w')"
  shows "cluster_inv inbox vs (s\<lparr>cl_nodes := (cl_nodes s)(i \<mapsto> n'), cl_net := w'\<rparr>)"
proof -
  let ?s' = "s\<lparr>cl_nodes := (cl_nodes s)(i \<mapsto> n'), cl_net := w'\<rparr>"
  obtain y w1 where rv: "vt_Receive T (vn_ID n) ctx (cl_net s) = (y, w1)" by fastforce
  have sub: "set (inbox j w1) \<subseteq> set (inbox j (cl_net s))" for j using receive_removes [OF rv] .
  note inv = cluster_inv_ledger [OF assms(2,3)]
  consider (nothing) "n' = n" "w' = w1"
    | (propose) m where "handleProposal T C t1 t2 ctx m n w1 = (n', w')"
    | (commit) m p where "y = Inr (m, p)" "cm_Type m = MsgCommit" "n' = handleCommit m n" "w' = w1"
    using assms(4) rv by (cases y) (auto simp: runStep_def split: MsgType.splits)
  then show ?thesis
  proof cases
    case nothing
    with sub show ?thesis by (intro cluster_inv_upd [OF assms(2,3), of _ n']) (auto simp: reach_refl)
  next
    case (propose m)
    then obtain l where l: "n' = n\<lparr>vn_Ledger := l\<rparr>" "quiet (vn_Ledger n) l"
      "w' = w1 \<or> (\<exists>v. cm_Type v = MsgVote \<and> w' = snd (vt_Send T (vn_ID n) ctx (cm_ValidatorID m) v w1))"
      by (rule handleProposal_cases)
    have "x \<in> set (inbox j (cl_net s))" if x: "x \<in> set (inbox j w')" "cm_Type x = MsgCommit" for x j
    proof -
      have "x \<in> set (inbox j w1)"
        using l(3) x quiet_traffic [OF assms(1), of _ w' "vn_ID n" ctx "cm_ValidatorID m" w1] by (metis MsgType.distinct(7))
      with sub show ?thesis by blast
    qed
    with l show ?thesis by (intro cluster_inv_upd [OF assms(2,3), of _ n']) (auto simp: quiet_def)
  next
    case (commit m p)
    from receive_waiting rv commit(1) have "m \<in> set (inbox (vn_ID n) (cl_net s))" by blast
    with assms(2) commit(2) have d: "decided s (cm_TxID m)" unfolding cluster_inv_def by blast
    let ?l = "snd (Commit m (vn_Ledger n))"
    have l: "n' = n\<lparr>vn_Ledger := ?l\<rparr>" using commit(3) by (simp add: handleCommit_def)
    from confirmed_commit [OF inv, of m]
    have c: "lg_confirmed ?l = lg_confirmed (vn_Ledger n) \<or> (\<exists>r. lg_confirmed ?l = (lg_confirmed (vn_Ledger n))(cm_TxID m \<mapsto> r))" by blast
    have keep: "lg_confirmed (vn_Ledger n') t \<noteq> None" if "lg_confirmed (vn_Ledger n) t \<noteq> None" for t
      using c that l by auto
    have "decided ?s' (cm_TxID m)"
      by (rule decided_mono [OF d assms(3), of _ n']) (use l keep in auto)
    then have new: "lg_confirmed (vn_Ledger n) t \<noteq> None \<or> decided ?s' t" if "lg_confirmed (vn_Ledger n') t \<noteq> None" for t
      using c that l by (cases "t = cm_TxID m") auto
    show ?thesis
      by (rule cluster_inv_upd [OF assms(2,3) _ _ _ _ _ keep new])
         (use l sub commit(4) ledger_reach_commit [of "vn_Ledger n" m] in auto)
  qed
qed

lemma cluster_inv_finishes:
  assumes "wire_keeps_kind wire" "cluster_inv inbox vs s" "cl_nodes s i = Some n"
    and "proposeFinish T t ctx order co n (cl_net s) = ((res, e), n', w')"
  shows "cluster_inv inbox vs (s\<lparr>cl_nodes := (cl_nodes s)(i \<mapsto> n'), cl_busy := (cl_busy s)(i := None), cl_net := w',
        cl_results := cl_results s @ [(i, res)]\<rparr>)" (is "cluster_inv _ _ ?s'")
  using assms(4) cluster_inv_ledger [OF assms(2,3)]
proof (cases rule: proposeFinish_cases)
  case (rejected l)
  then show ?thesis by (intro cluster_inv_upd [OF assms(2,3), of _ n']) (auto simp: quiet_def)
next
  case (confirmed l m)
  note inv = cluster_inv_ledger [OF assms(2,3)]
  from commit_confirms [OF inv confirmed(2)]
  obtain r where c: "lg_confirmed l = (lg_confirmed (vn_Ledger n))(cm_TxID m \<mapsto> r)" by blast
  have keep: "lg_confirmed (vn_Ledger n') t \<noteq> None" if "lg_confirmed (vn_Ledger n) t \<noteq> None" for t
    using c that confirmed(1) by auto
  have d: "decided ?s' (cm_TxID m)"
    unfolding decided_def using confirmed c by (intro exI [of _ i] exI [of _ n'] exI [of _ res]) simp
  then have new: "lg_confirmed (vn_Ledger n) t \<noteq> None \<or> decided ?s' t" if "lg_confirmed (vn_Ledger n') t \<noteq> None" for t
    using c that confirmed(1) by (cases "t = cm_TxID m") auto
  have msgs: "x \<in> set (inbox j (cl_net s)) \<or> decided ?s' (cm_TxID x)" if "x \<in> set (inbox j (cl_net ?s'))" for x j
  proof -
    have "set (inbox j w') \<subseteq> set_option (wire m) \<union> set (inbox j (cl_net s))"
      using broadcast_adds [of "vn_ID n" ctx order m "cl_net s" _ w' j] confirmed(6) by (metis prod.collapse)
    with that have "wire m = Some x \<or> x \<in> set (inbox j (cl_net s))" by auto
    moreover have "cm_TxID x = cm_TxID m" if "wire m = Some x"
      using assms(1) that unfolding wire_keeps_kind_def by blast
    ultimately show ?thesis using d by auto
  qed
  show ?thesis
    by (rule cluster_inv_upd [OF assms(2,3) _ _ _ _ _ keep new msgs])
       (use confirmed ledger_reach_commit [of "vn_Ledger n" m] in auto)
qed

lemma cluster_inv_begins:
  assumes "wire_keeps_kind wire" "cluster_inv inbox vs s" "cl_nodes s i = Some n" "newTx tx (vn_Ledger n) = (r, l)"
    and "proposeBegin T C pick now ctx order r (n\<lparr>vn_Ledger := l\<rparr>) (cl_net s) = (x, n', w')"
    and "cl_nodes s' = (cl_nodes s)(i \<mapsto> n')" "cl_net s' = w'" "set (cl_results s) \<subseteq> set (cl_results s')"
  shows "cluster_inv inbox vs s'"
proof -
  from newTx_fresh [OF assms(4)] have l: "r < lg_next (vn_Ledger (n\<lparr>vn_Ledger := l\<rparr>))" "quiet (vn_Ledger n) l" by auto
  from proposeBegin_cases [OF assms(5) l(1)] l(2)
  have n': "vn_ID n' = vn_ID n" "vn_validators n' = vn_validators n" "quiet (vn_Ledger n) (vn_Ledger n')"
    and w': "w' = cl_net s \<or> (\<exists>p. cm_Type p = MsgPropose \<and> w' = snd (vt_Broadcast T (vn_ID n) ctx order p (cl_net s)))"
    using quiet_trans [of "vn_Ledger n" l "vn_Ledger n'"] by auto
  have "m \<in> set (inbox j (cl_net s))" if m: "m \<in> set (inbox j w')" "cm_Type m = MsgCommit" for j m
    using w' m quiet_traffic [OF assms(1), of _ w' "vn_ID n" ctx _ "cl_net s" order] by (metis MsgType.distinct(3))
  with assms(6-8) n' show ?thesis
    by (intro cluster_inv_upd [OF assms(2,3), of _ n']) (auto simp: quiet_def)
qed

lemma cluster_inv_step:
  assumes "wire_keeps_kind wire" "cluster_step T C inbox s s'" "cluster_inv inbox vs s"
  shows "cluster_inv inbox vs s'"
  using assms(2,3)
proof (cases rule: cluster_step.cases)
  case (begins i n tx r l pick now ctx order co n' w')
  then show ?thesis using assms(3) by (intro cluster_inv_begins [OF assms(1) assms(3) begins(2,4,5)]) auto
next
  case (fails i n tx r l pick now ctx order res e n' w')
  then show ?thesis using assms(3) by (intro cluster_inv_begins [OF assms(1) assms(3) fails(2,4,5)]) auto
next
  case (collects i n co m p w' co' n')
  have "set (inbox j w') \<subseteq> set (inbox j (cl_net s))" for j using receive_removes [OF collects(5)] .
  with collects collectStep_frame [OF collects(6)] show ?thesis
    by (intro cluster_inv_upd [OF assms(3) collects(2), of _ n']) (auto simp: reach_refl)
next
  case (finishes i n co t ctx order res e n' w')
  then show ?thesis using cluster_inv_finishes [OF assms(1,3)] by blast
next
  case (runs i n t1 t2 ctx stop n' w')
  then show ?thesis using cluster_inv_runs [OF assms(1,3)] by blast
next
  case (loses w')
  have "decided s' = decided s" unfolding decided_def loses(1) by simp
  with loses assms(3) show ?thesis unfolding cluster_inv_def by (auto; blast)
qed

lemma cluster_inv_reach:
  assumes "wire_keeps_kind wire" "cluster_reach T C inbox s s'" "cluster_inv inbox vs s"
  shows "cluster_inv inbox vs s'"
  using assms(2,3) by (induction rule: cluster_reach.induct) (blast intro: cluster_inv_step [OF assms(1)])+

end

section \<open>A settlement that every validator takes part in\<close>

text \<open>A ledger that has the transaction pending and can still pay it.\<close>

definition same_transfer :: "Transaction \<Rightarrow> Transaction \<Rightarrow> bool" where
  "same_transfer tx tx' \<longleftrightarrow>
     tx_ID tx = tx_ID tx' \<and> tx_From tx = tx_From tx' \<and> tx_To tx = tx_To tx' \<and> tx_Currency tx = tx_Currency tx' \<and> tx_Amount tx = tx_Amount tx'"

definition primed :: "Transaction \<Rightarrow> Ledger \<Rightarrow> bool" where
  "primed tx l \<longleftrightarrow>
     ledger_inv l \<and> acceptable tx l \<and> (\<exists>r. map_of (lg_pending l) (tx_ID tx) = Some r \<and> same_transfer tx (lg_heap l r))"

lemma acceptable_cong:
  "dom (lg_validators l') = dom (lg_validators l) \<Longrightarrow> balances l' = balances l \<Longrightarrow> same_transfer tx tx' \<Longrightarrow>
     acceptable tx l \<longleftrightarrow> acceptable tx' l'"
  unfolding acceptable_def same_transfer_def balances_def by (metis domIff)

lemma primed_submit:
  assumes "ledger_inv l" "r < lg_next l" "acceptable (lg_heap l r) l"
  obtains l' where "submitLocked r now l = (None, l')" "primed (lg_heap l r) l'" "balances l' = balances l"
    "dom (lg_validators l') = dom (lg_validators l)" "same_transfer (lg_heap l r) (lg_heap l' r)"
    "lg_pending l' = AList.update (tx_ID (lg_heap l r)) r (lg_pending l)" "lg_next l' = lg_next l"
proof (cases rule: submitLocked_cases [of r now l])
  case (err e)
  with assms(3) submitLocked_acceptable [of r now l] show thesis by simp
next
  case (ok sender)
  let ?l' = "snd (submitLocked r now l)"
  have st: "same_transfer (lg_heap l r) (lg_heap ?l' r)" using ok by (simp add: same_transfer_def)
  have dm: "dom (lg_validators ?l') = dom (lg_validators l)" using ok by auto
  have bal: "balances ?l' = balances l" using ok by (auto simp: balances_def GetBalance_def fun_eq_iff)
  have inv: "ledger_inv ?l'" using ledger_inv_submit [OF assms(1,2)] .
  have "primed (lg_heap l r) ?l'"
    unfolding primed_def using inv acceptable_cong [OF dm bal, of "lg_heap l r" "lg_heap l r"] assms(3) st ok
    by (auto simp: same_transfer_def update_conv')
  with that [of ?l'] ok st dm bal show thesis by simp
qed

lemma primed_vote:
  assumes "primed tx l" "cm_Type m = MsgPropose" "cm_TxID m = tx_ID tx"
  obtains v where "Vote now m l = Inr v" "cm_Type v = MsgVote" "cm_TxID v = tx_ID tx" "cm_Payload v = ''yes''"
proof -
  from assms(1) obtain r where r: "map_of (lg_pending l) (tx_ID tx) = Some r" "same_transfer tx (lg_heap l r)" and a: "acceptable tx l"
    unfolding primed_def by blast
  then obtain s where "lg_validators l (tx_From (lg_heap l r)) = Some s"
    "sint (tx_Amount (lg_heap l r)) \<le> sint (balance_of s (tx_Currency (lg_heap l r)))"
    by (auto simp: acceptable_def same_transfer_def GetBalance_def split: option.splits)
  with assms(2,3) r(1) have "Vote now m l = Inr \<lparr>cm_Type = MsgVote, cm_TxID = tx_ID tx, cm_ValidatorID = cm_ValidatorID m,
      cm_Round = cm_Round m, cm_Payload = ''yes'', cm_Timestamp = now\<rparr>" by (simp add: Vote_def Let_def word_sle_eq)
  from that [OF this] show thesis by simp
qed

lemma primed_commit:
  assumes "primed tx l" "cm_TxID m = tx_ID tx"
  obtains l' where "Commit m l = (None, l')" "lg_confirmed l' (tx_ID tx) \<noteq> None"
    "balances l' = transfer (tx_From tx) (tx_To tx) (tx_Currency tx) (tx_Amount tx) (balances l)"
proof -
  from assms(1) obtain r where r: "map_of (lg_pending l) (cm_TxID m) = Some r" "same_transfer tx (lg_heap l r)"
    and a: "acceptable tx l" and inv: "ledger_inv l"
    unfolding primed_def assms(2) by blast
  then obtain s where s: "lg_validators l (tx_From (lg_heap l r)) = Some s"
    "sint (tx_Amount (lg_heap l r)) \<le> sint (balance_of s (tx_Currency (lg_heap l r)))"
    by (auto simp: acceptable_def same_transfer_def GetBalance_def split: option.splits)
  show thesis
    by (rule Commit_balances [OF inv r(1) s]) (use r(2) assms(2) that in \<open>auto simp: same_transfer_def\<close>)
qed

text \<open>
  The schedule: the proposer begins, every peer handles the proposal in the order \<open>js\<close>, the
  proposer collects the votes and finishes, every peer handles the commit.
\<close>

fun runNodes ::
  "'w ValidatorTransport \<Rightarrow> 'd msgCodec \<Rightarrow> time \<Rightarrow> string list \<Rightarrow> (string \<rightharpoonup> ValidatorNode) \<Rightarrow> 'w \<Rightarrow> (string \<rightharpoonup> ValidatorNode) \<times> 'w" where
  "runNodes T C now [] nodes w = (nodes, w)"
| "runNodes T C now (j # js) nodes w =
     (case nodes j of
        None \<Rightarrow> runNodes T C now js nodes w
      | Some n \<Rightarrow> (case runStep T C now now False n w of (_, n', w') \<Rightarrow> runNodes T C now js (nodes(j \<mapsto> n')) w'))"

definition settlementRound ::
  "'w ValidatorTransport \<Rightarrow> 'd msgCodec \<Rightarrow> nat \<Rightarrow> (nat \<Rightarrow> time) \<Rightarrow> string list \<Rightarrow> string list \<Rightarrow> txref \<Rightarrow> ValidatorNode
   \<Rightarrow> (string \<rightharpoonup> ValidatorNode) \<Rightarrow> 'w \<Rightarrow> (ConsensusResult \<times> NodeError option) \<times> (string \<rightharpoonup> ValidatorNode) \<times> 'w" where
  "settlementRound T C pick now order js r n peers w =
     (case proposeBegin T C pick now False order r n w of
        (Inl (res, e), n1, w1) \<Rightarrow> ((res, Some e), peers(vn_ID n \<mapsto> n1), w1)
      | (Inr co, n1, w1) \<Rightarrow>
         (case runNodes T C (now 4) js peers w1 of
            (peers2, w2) \<Rightarrow>
             (case collectVotes T (replicate (length js) id) co n1 w2 of
                (co3, n3, w3) \<Rightarrow>
                 (case proposeFinish T (now 3) False order co3 n3 w3 of
                    (out, n4, w4) \<Rightarrow>
                     (case runNodes T C (now 5) js peers2 w4 of
                        (peers5, w5) \<Rightarrow> (out, peers5(vn_ID n \<mapsto> n4), w5))))))"

definition goodVote :: "string \<Rightarrow> ConsensusMessage \<Rightarrow> bool" where
  "goodVote i v \<longleftrightarrow> cm_Type v = MsgVote \<and> cm_TxID v = i \<and> cm_Payload v = ''yes''"

text \<open>A peer that is up to date with the proposer and has not seen the transaction.\<close>

definition in_step :: "Ledger \<Rightarrow> string \<Rightarrow> string \<Rightarrow> ValidatorNode \<Rightarrow> bool" where
  "in_step l i j n \<longleftrightarrow>
     vn_ID n = j \<and> ledger_inv (vn_Ledger n) \<and> balances (vn_Ledger n) = balances l \<and>
     dom (lg_validators (vn_Ledger n)) = dom (lg_validators l) \<and> \<not> lg_seen (vn_Ledger n) i"

lemma primed_round: "primed tx l \<Longrightarrow> primed tx (l\<lparr>lg_currentRound := x\<rparr>)"
  by (simp add: primed_def ledger_inv_iff fileable_def acceptable_def GetBalance_def)

lemma primed_cong: "same_transfer tx tx' \<Longrightarrow> primed tx l \<Longrightarrow> primed tx' l"
  using acceptable_cong [of l l tx tx'] by (auto simp: primed_def same_transfer_def)

text \<open>The proposer: nothing pending, itself a known validator, no buffered messages for the transaction.\<close>

definition proposer_ready :: "txref \<Rightarrow> ValidatorNode \<Rightarrow> bool" where
  "proposer_ready r n \<longleftrightarrow>
     ledger_inv (vn_Ledger n) \<and> lg_pending (vn_Ledger n) = [] \<and> lg_validators (vn_Ledger n) (vn_ID n) \<noteq> None \<and>
     r < lg_next (vn_Ledger n) \<and> acceptable (lg_heap (vn_Ledger n) r) (vn_Ledger n) \<and>
     vn_pendingMsgs n (tx_ID (lg_heap (vn_Ledger n) r)) = None"

text \<open>The transaction as the proposal carries it.\<close>

definition submittedTx :: "txref \<Rightarrow> time \<Rightarrow> ValidatorNode \<Rightarrow> Transaction" where
  "submittedTx r now n = lg_heap (snd (SubmitTransaction r now (vn_Ledger n))) r"

lemma submittedTx_acceptable:
  assumes "proposer_ready r n"
  shows "same_transfer (lg_heap (vn_Ledger n) r) (submittedTx r now n)" "acceptable (submittedTx r now n) (vn_Ledger n)"
proof -
  let ?l = "vn_Ledger n"
  from assms have r: "ledger_inv ?l" "r < lg_next ?l" "acceptable (lg_heap ?l r) ?l" by (auto simp: proposer_ready_def)
  show st: "same_transfer (lg_heap ?l r) (submittedTx r now n)"
    by (rule primed_submit [OF r, of now]) (simp add: submittedTx_def SubmitTransaction_def)
  show "acceptable (submittedTx r now n) ?l" using r(3) acceptable_cong [OF refl refl st] by simp
qed

lemma runNodes_frame: "runNodes T C t js nodes w = (nodes', w') \<Longrightarrow> k \<notin> set js \<Longrightarrow> nodes' k = nodes k"
  by (induction js arbitrary: nodes w) (auto split: option.splits prod.splits)

context reliable_network
begin

lemma peer_votes:
  assumes net: "net_inv w" "link j i w" "inbox j w = [p]" "length (inbox i w) < cap" "i \<noteq> j" and wire: "\<And>m. wire m = Some m"
    and p: "cm_Type p = MsgPropose" "cm_TxID p = tx_ID tx" "cm_ValidatorID p = i" "cm_Payload p \<noteq> ''''"
      "mc_UnmarshalTx C (cm_Payload p) = Some tx"
    and n: "in_step l (tx_ID tx) j n" "acceptable tx l"
  shows "\<exists>n' w' v. runStep T C t t False n w = (False, n', w') \<and> vn_ID n' = j \<and> primed tx (vn_Ledger n') \<and>
    balances (vn_Ledger n') = balances l \<and> net_inv w' \<and> (\<forall>a b. link a b w' = link a b w) \<and> goodVote (tx_ID tx) v \<and>
    (\<forall>a. inbox a w' = (if a = i then inbox i w @ [v] else if a = j then [] else inbox a w))"
proof -
  let ?l = "vn_Ledger n"
  from n(1) have id: "vn_ID n = j" and inv: "ledger_inv ?l" and bal: "balances ?l = balances l"
    and dm: "dom (lg_validators ?l) = dom (lg_validators l)" and ns: "\<not> lg_seen ?l (tx_ID tx)" by (auto simp: in_step_def)
  obtain r l1 where nt: "newTx tx ?l = (r, l1)" by fastforce
  then have l1: "r < lg_next l1" "lg_heap l1 r = tx" "lg_validators l1 = lg_validators ?l" "lg_seen l1 = lg_seen ?l"
    by (auto simp: newTx_def)
  have inv1: "ledger_inv l1" using ledger_inv_alloc [OF inv, of tx] nt by simp
  have bal1: "balances l1 = balances ?l" using l1(3) by (simp add: balances_def GetBalance_def fun_eq_iff)
  have acc: "acceptable (lg_heap l1 r) l1"
    using acceptable_cong [of l1 l tx tx] n(2) dm bal bal1 l1 by (simp add: same_transfer_def)
  obtain l2 where l2: "submitLocked r t l1 = (None, l2)" "primed tx l2" "balances l2 = balances l1"
    by (rule primed_submit [OF inv1 l1(1) acc, of t]) (simp add: l1(2))
  have rep: "replicateTx C t p ?l = (True, l2)"
    using p(4,5) nt l1 ns l2(1) by (simp add: replicateTx_def SubmitTransactionIfAbsent_def Let_def)
  obtain v where v: "Vote t (p\<lparr>cm_ValidatorID := vn_ID n\<rparr>) l2 = Inr v" "cm_Type v = MsgVote" "cm_TxID v = tx_ID tx" "cm_Payload v = ''yes''"
    by (rule primed_vote [OF l2(2), of "p\<lparr>cm_ValidatorID := vn_ID n\<rparr>" t]) (use p in auto)
  obtain w1 q where w1: "vt_Receive T j False w = (Inr (p, q), w1)" "net_inv w1" "\<forall>a b. link a b w1 = link a b w"
    "\<forall>a. inbox a w1 = (if a = j then [] else inbox a w)"
    using receive_oldest [OF net(1,3)] by blast
  let ?v = "v\<lparr>cm_ValidatorID := j\<rparr>"
  have "link j i w1" "length (inbox i w1) < cap" using w1 net by auto
  then obtain w2 where w2: "vt_Send T j False i ?v w1 = (None, w2)" "net_inv w2" "\<forall>a b. link a b w2 = link a b w1"
    "\<forall>a. inbox a w2 = (if a = i then inbox a w1 @ [?v] else inbox a w1)"
    using send_delivers [OF w1(2) _ _ wire] by blast
  have "runStep T C t t False n w = (False, n\<lparr>vn_Ledger := l2\<rparr>, w2)"
    using w1(1) p id rep v(1) w2(1) by (simp add: runStep_def handleProposal_def)
  with id l2 bal bal1 w2 w1 v net(5) show ?thesis
    by (intro exI [of _ "n\<lparr>vn_Ledger := l2\<rparr>"] exI [of _ w2] exI [of _ ?v]) (auto simp: goodVote_def)
qed

lemma peers_vote:
  assumes wire: "\<And>m. wire m = Some m"
    and p: "cm_Type p = MsgPropose" "cm_TxID p = tx_ID tx" "cm_ValidatorID p = i" "cm_Payload p \<noteq> ''''"
      "mc_UnmarshalTx C (cm_Payload p) = Some tx" and acc: "acceptable tx l"
  shows "net_inv w \<Longrightarrow> distinct js \<Longrightarrow> i \<notin> set js \<Longrightarrow>
    (\<And>j. j \<in> set js \<Longrightarrow> link j i w \<and> inbox j w = [p] \<and> (\<exists>n. nodes j = Some n \<and> in_step l (tx_ID tx) j n)) \<Longrightarrow>
    length (inbox i w) + length js \<le> cap \<Longrightarrow>
    \<exists>nodes' w' vs. runNodes T C t js nodes w = (nodes', w') \<and> net_inv w' \<and> (\<forall>a b. link a b w' = link a b w) \<and>
      length vs = length js \<and> list_all (goodVote (tx_ID tx)) vs \<and>
      (\<forall>a. inbox a w' = (if a = i then inbox i w @ vs else if a \<in> set js then [] else inbox a w)) \<and>
      (\<forall>j\<in>set js. \<exists>n'. nodes' j = Some n' \<and> vn_ID n' = j \<and> primed tx (vn_Ledger n') \<and> balances (vn_Ledger n') = balances l)"
proof (induction js arbitrary: w nodes)
  case Nil
  then show ?case by simp
next
  case (Cons j js)
  from Cons.prems(4) [of j] obtain n where n: "link j i w" "inbox j w = [p]" "nodes j = Some n" "in_step l (tx_ID tx) j n" by auto
  from Cons.prems(3,5) have ij: "i \<noteq> j" "length (inbox i w) < cap" by auto
  from peer_votes [OF Cons.prems(1) n(1,2) ij(2,1) wire p n(4) acc, of t]
  obtain n' w1 v where v: "runStep T C t t False n w = (False, n', w1)" "vn_ID n' = j" "primed tx (vn_Ledger n')"
    "balances (vn_Ledger n') = balances l" "net_inv w1" "\<forall>a b. link a b w1 = link a b w" "goodVote (tx_ID tx) v"
    and ib: "\<forall>a. inbox a w1 = (if a = i then inbox i w @ [v] else if a = j then [] else inbox a w)" by blast
  have dj: "distinct js" "i \<notin> set js" "j \<notin> set js" using Cons.prems(2,3) by auto
  have rest: "link k i w1 \<and> inbox k w1 = [p] \<and> (\<exists>n. (nodes(j \<mapsto> n')) k = Some n \<and> in_step l (tx_ID tx) k n)" if "k \<in> set js" for k
    using Cons.prems(4) [of k] that dj v(6) ib by auto
  have "length (inbox i w1) + length js \<le> cap" using Cons.prems(5) ib by simp
  from Cons.IH [OF v(5) dj(1,2) rest this]
  obtain nodes' w2 vs where r: "runNodes T C t js (nodes(j \<mapsto> n')) w1 = (nodes', w2)" "net_inv w2" "\<forall>a b. link a b w2 = link a b w1"
      "length vs = length js" "list_all (goodVote (tx_ID tx)) vs"
      "\<forall>a. inbox a w2 = (if a = i then inbox i w1 @ vs else if a \<in> set js then [] else inbox a w1)"
      "\<forall>k\<in>set js. \<exists>n'. nodes' k = Some n' \<and> vn_ID n' = k \<and> primed tx (vn_Ledger n') \<and> balances (vn_Ledger n') = balances l"
    by blast
  have "nodes' j = Some n'" using runNodes_frame [OF r(1) dj(3)] by simp
  with r v ib ij(1) n(3) show ?case
    by (intro exI [of _ nodes'] exI [of _ w2] exI [of _ "v # vs"]) auto
qed

lemma votes_collected:
  "net_inv w \<Longrightarrow> inbox (vn_ID n) w = vs \<Longrightarrow> list_all (goodVote (co_txID co)) vs \<Longrightarrow> co_collected co + length vs = votesNeeded n \<Longrightarrow>
    \<exists>w'. collectVotes T (replicate (length vs) id) co n w =
        (co\<lparr>co_collected := co_collected co + length vs, co_yes := co_yes co + length vs\<rparr>, n, w') \<and>
      net_inv w' \<and> (\<forall>a b. link a b w' = link a b w) \<and> (\<forall>a. inbox a w' = (if a = vn_ID n then [] else inbox a w))"
proof (induction vs arbitrary: w co)
  case Nil
  then show ?case by auto
next
  case (Cons v vs)
  obtain w1 q where w1: "vt_Receive T (vn_ID n) False w = (Inr (v, q), w1)" "net_inv w1" "\<forall>a b. link a b w1 = link a b w"
    "\<forall>a. inbox a w1 = (if a = vn_ID n then vs else inbox a w)"
    using receive_oldest [OF Cons.prems(1,2)] by blast
  let ?co = "co\<lparr>co_collected := co_collected co + 1, co_yes := co_yes co + 1\<rparr>"
  have "collectStep v co n = (?co, n)" using Cons.prems(3) by (simp add: collectStep_def goodVote_def isYes_def)
  moreover have "list_all (goodVote (co_txID ?co)) vs" "co_collected ?co + length vs = votesNeeded n"
    using Cons.prems(3,4) by simp_all
  ultimately show ?case using Cons.IH [OF w1(2), of ?co] w1 Cons.prems(4) by auto
qed

lemma peer_commits:
  assumes "net_inv w" "inbox j w = [m]" "cm_Type m = MsgCommit" "cm_TxID m = tx_ID tx"
    and "vn_ID n = j" "primed tx (vn_Ledger n)"
  shows "\<exists>n' w'. runStep T C t t False n w = (False, n', w') \<and> vn_ID n' = j \<and> lg_confirmed (vn_Ledger n') (tx_ID tx) \<noteq> None \<and>
    balances (vn_Ledger n') = transfer (tx_From tx) (tx_To tx) (tx_Currency tx) (tx_Amount tx) (balances (vn_Ledger n)) \<and>
    net_inv w' \<and> (\<forall>a. inbox a w' = (if a = j then [] else inbox a w))"
proof -
  obtain w1 q where w1: "vt_Receive T j False w = (Inr (m, q), w1)" "net_inv w1" "\<forall>a. inbox a w1 = (if a = j then [] else inbox a w)"
    using receive_oldest [OF assms(1,2)] by blast
  obtain l where "Commit m (vn_Ledger n) = (None, l)" "lg_confirmed l (tx_ID tx) \<noteq> None"
    "balances l = transfer (tx_From tx) (tx_To tx) (tx_Currency tx) (tx_Amount tx) (balances (vn_Ledger n))"
    by (rule primed_commit [OF assms(6,4)])
  with w1 assms(3,5) show ?thesis
    by (intro exI [of _ "n\<lparr>vn_Ledger := l\<rparr>"] exI [of _ w1]) (simp add: runStep_def handleCommit_def)
qed

lemma peers_commit:
  assumes m: "cm_Type m = MsgCommit" "cm_TxID m = tx_ID tx"
  shows "net_inv w \<Longrightarrow> distinct js \<Longrightarrow>
    (\<And>j. j \<in> set js \<Longrightarrow> inbox j w = [m] \<and> (\<exists>n. nodes j = Some n \<and> vn_ID n = j \<and> primed tx (vn_Ledger n) \<and> balances (vn_Ledger n) = bal)) \<Longrightarrow>
    \<exists>nodes' w'. runNodes T C t js nodes w = (nodes', w') \<and> net_inv w' \<and>
      (\<forall>a. inbox a w' = (if a \<in> set js then [] else inbox a w)) \<and>
      (\<forall>j\<in>set js. \<exists>n'. nodes' j = Some n' \<and> lg_confirmed (vn_Ledger n') (tx_ID tx) \<noteq> None \<and>
         balances (vn_Ledger n') = transfer (tx_From tx) (tx_To tx) (tx_Currency tx) (tx_Amount tx) bal)"
proof (induction js arbitrary: w nodes)
  case Nil
  then show ?case by simp
next
  case (Cons j js)
  from Cons.prems(3) [of j] obtain n where n: "inbox j w = [m]" "nodes j = Some n" "vn_ID n = j" "primed tx (vn_Ledger n)"
    "balances (vn_Ledger n) = bal" by auto
  from peer_commits [OF Cons.prems(1) n(1) m n(3,4), of C t]
  obtain n' w1 where v: "runStep T C t t False n w = (False, n', w1)" "vn_ID n' = j" "lg_confirmed (vn_Ledger n') (tx_ID tx) \<noteq> None"
    "balances (vn_Ledger n') = transfer (tx_From tx) (tx_To tx) (tx_Currency tx) (tx_Amount tx) bal" "net_inv w1"
    "\<forall>a. inbox a w1 = (if a = j then [] else inbox a w)" unfolding n(5) by blast
  have dj: "distinct js" "j \<notin> set js" using Cons.prems(2) by auto
  have rest: "inbox k w1 = [m] \<and> (\<exists>n. (nodes(j \<mapsto> n')) k = Some n \<and> vn_ID n = k \<and> primed tx (vn_Ledger n) \<and> balances (vn_Ledger n) = bal)"
    if "k \<in> set js" for k
    using Cons.prems(3) [of k] that dj v(6) by auto
  from Cons.IH [OF v(5) dj(1) rest]
  obtain nodes' w2 where r: "runNodes T C t js (nodes(j \<mapsto> n')) w1 = (nodes', w2)" "net_inv w2"
      "\<forall>a. inbox a w2 = (if a \<in> set js then [] else inbox a w1)"
      "\<forall>k\<in>set js. \<exists>n'. nodes' k = Some n' \<and> lg_confirmed (vn_Ledger n') (tx_ID tx) \<noteq> None \<and>
         balances (vn_Ledger n') = transfer (tx_From tx) (tx_To tx) (tx_Currency tx) (tx_Amount tx) bal"
    by blast
  have "nodes' j = Some n'" using runNodes_frame [OF r(1) dj(2)] by simp
  with r v n(2) show ?case
    by (intro exI [of _ nodes'] exI [of _ w2]) auto
qed

lemma proposer_begins:
  assumes wire: "\<And>m. wire m = Some m" and n: "proposer_ready r n"
    and d: "mc_MarshalTx C (submittedTx r (now 0) n) = Some d"
    and net: "net_inv w" "distinct order" "\<And>i. i \<in> set order \<Longrightarrow> i \<noteq> vn_ID n \<Longrightarrow> link (vn_ID n) i w \<and> length (inbox i w) < cap"
      "link (vn_ID n) (vn_ID n) w"
  shows "\<exists>p n1 w1. proposeBegin T C pick now False order r n w =
      (Inr \<lparr>co_txID = tx_ID (submittedTx r (now 0) n), co_Round = cm_Round p, co_yes = 1, co_collected = 0\<rparr>, n1, w1) \<and>
    cm_Type p = MsgPropose \<and> cm_TxID p = tx_ID (submittedTx r (now 0) n) \<and> cm_ValidatorID p = vn_ID n \<and> cm_Payload p = d \<and>
    vn_ID n1 = vn_ID n \<and> vn_validators n1 = vn_validators n \<and> primed (submittedTx r (now 0) n) (vn_Ledger n1) \<and>
    balances (vn_Ledger n1) = balances (vn_Ledger n) \<and> net_inv w1 \<and> (\<forall>i j. link i j w1 = link i j w) \<and>
    (\<forall>j. inbox j w1 = (if j \<in> set order \<and> j \<noteq> vn_ID n then inbox j w @ [p] else inbox j w))"
proof -
  let ?l = "vn_Ledger n" and ?tx = "submittedTx r (now 0) n"
  from n have inv: "ledger_inv ?l" and pe: "lg_pending ?l = []" and me: "lg_validators ?l (vn_ID n) \<noteq> None"
    and r: "r < lg_next ?l" and acc: "acceptable (lg_heap ?l r) ?l" and buf: "vn_pendingMsgs n (tx_ID (lg_heap ?l r)) = None"
    by (auto simp: proposer_ready_def)
  obtain l1 where l1: "submitLocked r (now 0) ?l = (None, l1)" "primed (lg_heap ?l r) l1" "balances l1 = balances ?l"
    "dom (lg_validators l1) = dom (lg_validators ?l)" "same_transfer (lg_heap ?l r) (lg_heap l1 r)"
    "lg_pending l1 = AList.update (tx_ID (lg_heap ?l r)) r (lg_pending ?l)"
    by (rule primed_submit [OF inv r acc, of "now 0"])
  have tx: "?tx = lg_heap l1 r" and tid: "tx_ID (lg_heap ?l r) = tx_ID ?tx"
    using l1(1,5) by (simp_all add: submittedTx_def SubmitTransaction_def same_transfer_def)
  from l1(6) pe have p1: "lg_pending l1 = [(tx_ID ?tx, r)]" by (simp add: tid)
  from me l1(4) have me1: "lg_validators l1 (vn_ID n) \<noteq> None" by (auto simp: domIff)
  let ?l2 = "l1\<lparr>lg_currentRound := lg_currentRound l1 + 1\<rparr>"
  let ?b = "\<lparr>cm_Type = MsgPropose, cm_TxID = tx_ID ?tx, cm_ValidatorID = vn_ID n, cm_Round = lg_currentRound l1 + 1,
             cm_Payload = '''', cm_Timestamp = now 1\<rparr>"
  let ?p = "?b\<lparr>cm_Payload := d\<rparr>"
  have blk: "ProposeBlock pick (now 1) (vn_ID n) l1 = (Inr ?b, ?l2)"
    using p1 me1 tx by (auto simp: ProposeBlock_def Let_def)
  have pr2: "primed ?tx ?l2" using primed_round [OF primed_cong [OF l1(5)[folded tx] l1(2)]] .
  obtain v where v: "Vote (now 2) (?p\<lparr>cm_ValidatorID := vn_ID n\<rparr>) ?l2 = Inr v" "cm_Payload v = ''yes''"
    by (rule primed_vote [OF pr2, of "?p\<lparr>cm_ValidatorID := vn_ID n\<rparr>" "now 2"]) auto
  obtain w1 where w1: "vt_Broadcast T (vn_ID n) False order ?p w = (None, w1)" "net_inv w1" "\<forall>i j. link i j w1 = link i j w"
    "\<forall>j. inbox j w1 = (if j \<in> set order \<and> j \<noteq> vn_ID n then inbox j w @ [?p] else inbox j w)"
    using broadcast_delivers [OF net wire, of ?p] by blast
  have "proposeBegin T C pick now False order r n w =
      (Inr \<lparr>co_txID = tx_ID ?tx, co_Round = cm_Round ?p, co_yes = 1, co_collected = 0\<rparr>,
       n\<lparr>vn_Ledger := ?l2, vn_pendingMsgs := (vn_pendingMsgs n)(tx_ID ?tx := None)\<rparr>, w1)"
    using l1(1) blk d tx w1(1) v buf tid
    by (simp add: proposeBegin_def SubmitTransaction_def Let_def isYes_def)
  moreover have "balances ?l2 = balances ?l" using l1(3) by (simp add: balances_def GetBalance_def fun_eq_iff)
  ultimately show ?thesis using pr2 w1 by (intro exI) auto
qed

lemma proposer_finishes:
  assumes wire: "\<And>m. wire m = Some m" and n: "primed tx (vn_Ledger n)" "co_txID co = tx_ID tx"
      "length (vn_validators n) div 2 + 1 \<le> co_yes co"
    and net: "net_inv w" "distinct order" "\<And>i. i \<in> set order \<Longrightarrow> i \<noteq> vn_ID n \<Longrightarrow> link (vn_ID n) i w \<and> length (inbox i w) < cap"
      "link (vn_ID n) (vn_ID n) w"
  shows "\<exists>m n1 w1. proposeFinish T t False order co n w =
      ((\<lparr>cres_Confirmed = True, cres_Round = co_Round co, cres_Votes = co_yes co, cres_TxID = tx_ID tx\<rparr>, None), n1, w1) \<and>
    cm_Type m = MsgCommit \<and> cm_TxID m = tx_ID tx \<and> lg_confirmed (vn_Ledger n1) (tx_ID tx) \<noteq> None \<and>
    balances (vn_Ledger n1) = transfer (tx_From tx) (tx_To tx) (tx_Currency tx) (tx_Amount tx) (balances (vn_Ledger n)) \<and>
    net_inv w1 \<and> (\<forall>j. inbox j w1 = (if j \<in> set order \<and> j \<noteq> vn_ID n then inbox j w @ [m] else inbox j w))"
proof -
  let ?m = "\<lparr>cm_Type = MsgCommit, cm_TxID = tx_ID tx, cm_ValidatorID = vn_ID n, cm_Round = co_Round co,
             cm_Payload = '''', cm_Timestamp = t\<rparr>"
  obtain l where l: "Commit ?m (vn_Ledger n) = (None, l)" "lg_confirmed l (tx_ID tx) \<noteq> None"
    "balances l = transfer (tx_From tx) (tx_To tx) (tx_Currency tx) (tx_Amount tx) (balances (vn_Ledger n))"
    by (rule primed_commit [OF n(1), of ?m]) simp
  obtain w1 where "vt_Broadcast T (vn_ID n) False order ?m w = (None, w1)" "net_inv w1"
    "\<forall>j. inbox j w1 = (if j \<in> set order \<and> j \<noteq> vn_ID n then inbox j w @ [?m] else inbox j w)"
    using broadcast_delivers [OF net wire, of ?m] by blast
  with l n(2,3) show ?thesis
    by (intro exI [of _ ?m] exI [of _ "n\<lparr>vn_Ledger := l\<rparr>"] exI [of _ w1]) (simp add: proposeFinish_def Let_def)
qed

lemma round_replicates:
  fixes n r now defines "tx \<equiv> submittedTx r (now 0) n"
  assumes wire: "\<And>m. wire m = Some m" and n: "proposer_ready r n"
    and d: "mc_MarshalTx C tx = Some d" "d \<noteq> ''''" "mc_UnmarshalTx C d = Some tx"
    and ids: "distinct (vn_ID n # js)" "length (vn_validators n) = Suc (length js)" "distinct order" "set order = set (vn_ID n # js)"
    and net: "net_inv w" "\<And>a b. a \<in> set (vn_ID n # js) \<Longrightarrow> b \<in> set (vn_ID n # js) \<Longrightarrow> link a b w"
      "\<And>a. a \<in> set (vn_ID n # js) \<Longrightarrow> inbox a w = []" "length js \<le> cap" "0 < cap"
    and peers: "\<And>j. j \<in> set js \<Longrightarrow> \<exists>m. peers j = Some m \<and> in_step (vn_Ledger n) (tx_ID tx) j m"
  shows "\<exists>rnd nodes w'. settlementRound T C pick now order js r n peers w =
      ((\<lparr>cres_Confirmed = True, cres_Round = rnd, cres_Votes = Suc (length js), cres_TxID = tx_ID tx\<rparr>, None), nodes, w') \<and>
    (\<forall>j\<in>set (vn_ID n # js). inbox j w' = [] \<and> (\<exists>m. nodes j = Some m \<and> lg_confirmed (vn_Ledger m) (tx_ID tx) \<noteq> None \<and>
       balances (vn_Ledger m) = transfer (tx_From tx) (tx_To tx) (tx_Currency tx) (tx_Amount tx) (balances (vn_Ledger n))))"
proof -
  let ?i = "vn_ID n"
  have room: "link ?i j w \<and> length (inbox j w) < cap" if "j \<in> set order" for j
    using net(2,3,5) ids(4) that by auto
  have self: "link ?i ?i w" using net(2) by simp
  obtain p n1 w1 where b: "proposeBegin T C pick now False order r n w =
      (Inr \<lparr>co_txID = tx_ID tx, co_Round = cm_Round p, co_yes = 1, co_collected = 0\<rparr>, n1, w1)"
    and p: "cm_Type p = MsgPropose" "cm_TxID p = tx_ID tx" "cm_ValidatorID p = ?i" "cm_Payload p = d"
    and n1: "vn_ID n1 = ?i" "vn_validators n1 = vn_validators n" "primed tx (vn_Ledger n1)" "balances (vn_Ledger n1) = balances (vn_Ledger n)"
    and w1: "net_inv w1" "\<forall>i j. link i j w1 = link i j w"
      "\<forall>j. inbox j w1 = (if j \<in> set order \<and> j \<noteq> ?i then inbox j w @ [p] else inbox j w)"
    using proposer_begins [where now = now, OF wire n d(1)[unfolded tx_def] net(1) ids(3) room self, of pick] unfolding tx_def by blast
  have acc: "acceptable tx (vn_Ledger n)" unfolding tx_def by (rule submittedTx_acceptable [OF n])
  let ?co = "\<lparr>co_txID = tx_ID tx, co_Round = cm_Round p, co_yes = 1, co_collected = 0\<rparr>"
  from ids(1) have ij: "distinct js" "?i \<notin> set js" by auto
  have j1: "link j ?i w1 \<and> inbox j w1 = [p] \<and> (\<exists>m. peers j = Some m \<and> in_step (vn_Ledger n) (tx_ID tx) j m)" if "j \<in> set js" for j
    using that w1 net(2,3) ids(4) ij(2) peers by auto
  have c1: "length (inbox ?i w1) + length js \<le> cap" using w1(3) net(3,4) by simp
  obtain nodes2 w2 vs where r2: "runNodes T C (now 4) js peers w1 = (nodes2, w2)" and w2: "net_inv w2" "\<forall>a b. link a b w2 = link a b w1"
    and vs: "length vs = length js" "list_all (goodVote (tx_ID tx)) vs"
    and i2: "\<forall>a. inbox a w2 = (if a = ?i then inbox ?i w1 @ vs else if a \<in> set js then [] else inbox a w1)"
    and p2: "\<forall>j\<in>set js. \<exists>m. nodes2 j = Some m \<and> vn_ID m = j \<and> primed tx (vn_Ledger m) \<and> balances (vn_Ledger m) = balances (vn_Ledger n)"
    using peers_vote [OF wire p(1-3) _ _ acc w1(1) ij j1 c1] p(4) d(2,3) by blast
  have ii: "inbox (vn_ID n1) w2 = vs" using i2 w1(3) net(3) n1(1) by simp
  have need: "co_collected ?co + length vs = votesNeeded n1" using ids(2) vs(1) n1(2) by (simp add: votesNeeded_def)
  let ?co3 = "\<lparr>co_txID = tx_ID tx, co_Round = cm_Round p, co_yes = Suc (length js), co_collected = length js\<rparr>"
  obtain w3 where r3: "collectVotes T (replicate (length js) id) ?co n1 w2 = (?co3, n1, w3)"
    and w3: "net_inv w3" "\<forall>a b. link a b w3 = link a b w2" "\<forall>a. inbox a w3 = (if a = ?i then [] else inbox a w2)"
    using votes_collected [OF w2(1) ii _ need] vs n1(1) by auto
  have e3: "inbox j w3 = []" if "j \<in> set (?i # js)" for j using that w3(3) i2 by auto
  have room3: "link (vn_ID n1) j w3 \<and> length (inbox j w3) < cap" if "j \<in> set order" for j
    using that ids(4) net(2,5) e3 [of j] w1(2) w2(2) w3(2) n1(1) by simp
  have self3: "link (vn_ID n1) (vn_ID n1) w3" using self w1(2) w2(2) w3(2) n1(1) by simp
  have maj: "length (vn_validators n1) div 2 + 1 \<le> co_yes ?co3" using ids(2) n1(2) by simp
  obtain m n4 w4 where f: "proposeFinish T (now 3) False order ?co3 n1 w3 =
      ((\<lparr>cres_Confirmed = True, cres_Round = cm_Round p, cres_Votes = Suc (length js), cres_TxID = tx_ID tx\<rparr>, None), n4, w4)"
    and m: "cm_Type m = MsgCommit" "cm_TxID m = tx_ID tx"
    and n4: "lg_confirmed (vn_Ledger n4) (tx_ID tx) \<noteq> None"
      "balances (vn_Ledger n4) = transfer (tx_From tx) (tx_To tx) (tx_Currency tx) (tx_Amount tx) (balances (vn_Ledger n))"
    and w4: "net_inv w4" "\<forall>j. inbox j w4 = (if j \<in> set order \<and> j \<noteq> ?i then inbox j w3 @ [m] else inbox j w3)"
    using proposer_finishes [where co = ?co3, OF wire n1(3) _ maj w3(1) ids(3) room3 self3, of "now 3"]
    unfolding n1(1,4) by auto
  have j4: "inbox j w4 = [m] \<and> (\<exists>m. nodes2 j = Some m \<and> vn_ID m = j \<and> primed tx (vn_Ledger m) \<and> balances (vn_Ledger m) = balances (vn_Ledger n))"
    if "j \<in> set js" for j
    using that w4(2) e3 [of j] ids(4) ij(2) p2 by auto
  obtain nodes5 w5 where r5: "runNodes T C (now 5) js nodes2 w4 = (nodes5, w5)"
    and i5: "\<forall>a. inbox a w5 = (if a \<in> set js then [] else inbox a w4)"
    and p5: "\<forall>j\<in>set js. \<exists>n'. nodes5 j = Some n' \<and> lg_confirmed (vn_Ledger n') (tx_ID tx) \<noteq> None \<and>
         balances (vn_Ledger n') = transfer (tx_From tx) (tx_To tx) (tx_Currency tx) (tx_Amount tx) (balances (vn_Ledger n))"
    using peers_commit [OF m w4(1) ij(1) j4] by blast
  have "inbox ?i w5 = []" using i5 w4(2) e3 [of ?i] by simp
  moreover have "settlementRound T C pick now order js r n peers w =
      ((\<lparr>cres_Confirmed = True, cres_Round = cm_Round p, cres_Votes = Suc (length js), cres_TxID = tx_ID tx\<rparr>, None), nodes5(?i \<mapsto> n4), w5)"
    using b r2 r3 f r5 by (simp add: settlementRound_def)
  ultimately show ?thesis using p5 i5 n4 ij(2) by (intro exI [of _ "cm_Round p"] exI [of _ "nodes5(?i \<mapsto> n4)"] exI [of _ w5]) auto
qed

end

text \<open>One validator sends the same message \<open>k\<close> times.\<close>

definition flood :: "'w ValidatorTransport \<Rightarrow> string \<Rightarrow> string \<Rightarrow> ConsensusMessage \<Rightarrow> nat \<Rightarrow> 'w \<Rightarrow> 'w" where
  "flood T j i v k = (\<lambda>w. snd (vt_Send T j False i v w)) ^^ k"

context reliable_network
begin

lemma flood_delivers:
  assumes "wire v = Some v" "net_inv w" "link j i w"
  shows "length (inbox i w) + k \<le> cap \<Longrightarrow>
    net_inv (flood T j i v k w) \<and> (\<forall>a b. link a b (flood T j i v k w) = link a b w) \<and>
    (\<forall>a. inbox a (flood T j i v k w) = (if a = i then inbox i w @ replicate k v else inbox a w))"
proof (induction k)
  case 0
  then show ?case using assms(2) by (simp add: flood_def)
next
  case (Suc k)
  let ?w = "flood T j i v k w"
  from Suc have w: "net_inv ?w" "\<forall>a b. link a b ?w = link a b w"
    "\<forall>a. inbox a ?w = (if a = i then inbox i w @ replicate k v else inbox a w)" by simp_all
  have "length (inbox i ?w) < cap" using w(3) Suc.prems by simp
  then obtain w' where "vt_Send T j False i v ?w = (None, w')" "net_inv w'" "\<forall>a b. link a b w' = link a b ?w"
      "\<forall>a. inbox a w' = (if a = i then inbox a ?w @ [v] else inbox a ?w)"
    using send_delivers [OF w(1) _ _ assms(1)] assms(3) w(2) by blast
  moreover have "flood T j i v (Suc k) w = snd (vt_Send T j False i v ?w)" by (simp add: flood_def)
  ultimately show ?case using w by (simp add: replicate_append_same)
qed

lemma collectVotes_env: "collectVotes T (env # envs) co n w = collectVotes T (id # envs) co n (env w)"
  if "co_collected co < votesNeeded n"
  using that by simp

lemma flood_decides:
  fixes n r now defines "tx \<equiv> submittedTx r (now 0) n"
  assumes wire: "\<And>m. wire m = Some m" and n: "proposer_ready r n" and d: "mc_MarshalTx C tx = Some d"
    and k: "length (vn_validators n) = Suc (Suc k)" "Suc k \<le> cap" and ord: "distinct order" "vn_ID n \<in> set order"
    and net: "net_inv w" "\<And>a b. a \<in> set order \<Longrightarrow> b \<in> set order \<Longrightarrow> link a b w" "\<And>a. a \<in> set order \<Longrightarrow> inbox a w = []" "1 < cap"
    and v: "j \<in> set order" "goodVote (tx_ID tx) v"
  shows "\<exists>rnd n' w'. ProposeSettlement T C pick now False order (flood T j (vn_ID n) v (Suc k) # replicate k id) r n w =
    ((\<lparr>cres_Confirmed = True, cres_Round = rnd, cres_Votes = Suc (Suc k), cres_TxID = tx_ID tx\<rparr>, None), n', w')"
proof -
  let ?i = "vn_ID n"
  have room: "link ?i a w \<and> length (inbox a w) < cap" if "a \<in> set order" for a using net ord that by auto
  have self: "link ?i ?i w" using net(2) ord(2) by simp
  obtain p n1 w1 where b: "proposeBegin T C pick now False order r n w =
      (Inr \<lparr>co_txID = tx_ID tx, co_Round = cm_Round p, co_yes = 1, co_collected = 0\<rparr>, n1, w1)"
    and n1: "vn_ID n1 = ?i" "vn_validators n1 = vn_validators n" "primed tx (vn_Ledger n1)"
    and w1: "net_inv w1" "\<forall>i j. link i j w1 = link i j w"
      "\<forall>a. inbox a w1 = (if a \<in> set order \<and> a \<noteq> ?i then inbox a w @ [p] else inbox a w)"
    using proposer_begins [where now = now, OF wire n d[unfolded tx_def] net(1) ord(1) room self, of pick] unfolding tx_def by blast
  let ?co = "\<lparr>co_txID = tx_ID tx, co_Round = cm_Round p, co_yes = 1, co_collected = 0\<rparr>" and ?w = "flood T j ?i v (Suc k) w1"
  have "link j ?i w1" "length (inbox ?i w1) + Suc k \<le> cap" using w1 net(2) [OF v(1) ord(2)] net(3) [OF ord(2)] k(2) by auto
  from flood_delivers [OF wire w1(1) this]
  have w2: "net_inv ?w" "\<forall>a b. link a b ?w = link a b w1" "\<forall>a. inbox a ?w = (if a = ?i then replicate (Suc k) v else inbox a w1)"
    using w1(3) net(3) [OF ord(2)] by auto
  have need: "co_collected ?co + length (replicate (Suc k) v) = votesNeeded n1" using k(1) n1(2) by (simp add: votesNeeded_def)
  let ?co3 = "\<lparr>co_txID = tx_ID tx, co_Round = cm_Round p, co_yes = Suc (Suc k), co_collected = Suc k\<rparr>"
  have gv: "list_all (goodVote (co_txID ?co)) (replicate (Suc k) v)" using v(2) by (simp add: list_all_iff)
  have ib: "inbox (vn_ID n1) ?w = replicate (Suc k) v" using w2(3) n1(1) by simp
  from votes_collected [OF w2(1) ib gv need]
  obtain w3 where c: "collectVotes T (replicate (Suc k) id) ?co n1 ?w = (?co3, n1, w3)"
    and w3: "net_inv w3" "\<forall>a b. link a b w3 = link a b ?w" "\<forall>a. inbox a w3 = (if a = ?i then [] else inbox a ?w)"
    using n1(1) by auto
  have "co_collected ?co < votesNeeded n1" using need by simp
  from collectVotes_env [OF this] c
  have c': "collectVotes T (flood T j ?i v (Suc k) # replicate k id) ?co n1 w1 = (?co3, n1, w3)" by simp
  have room3: "link (vn_ID n1) a w3 \<and> length (inbox a w3) < cap" if "a \<in> set order" for a
    using that net w1(2,3) w2 w3 n1(1) ord by auto
  have self3: "link (vn_ID n1) (vn_ID n1) w3" using self w1(2) w2(2) w3(2) n1(1) by simp
  have maj: "length (vn_validators n1) div 2 + 1 \<le> co_yes ?co3" using k(1) n1(2) by simp
  obtain n4 w4 where "proposeFinish T (now 3) False order ?co3 n1 w3 =
      ((\<lparr>cres_Confirmed = True, cres_Round = cm_Round p, cres_Votes = Suc (Suc k), cres_TxID = tx_ID tx\<rparr>, None), n4, w4)"
    using proposer_finishes [where co = ?co3, OF wire n1(3) _ maj w3(1) ord(1) room3 self3, of "now 3"] by auto
  with b c' show ?thesis by (intro exI) (simp add: ProposeSettlement_def)
qed

end

section \<open>Properties of the node and the cluster\<close>


definition plainCodec :: "Transaction \<Rightarrow> ConsensusMessage msgCodec" where
  "plainCodec tx = \<lparr>mc_Marshal = Some, mc_Unmarshal = Some, mc_MarshalTx = (\<lambda>_. Some ''tx''), mc_UnmarshalTx = (\<lambda>_. Some tx)\<rparr>"

lemma plain_codec: "mc_MarshalTx (plainCodec tx) t = Some ''tx''" "mc_UnmarshalTx (plainCodec tx) d = Some tx"
  by (simp_all add: plainCodec_def)

lemma plain_wire: "local_wire (plainCodec tx) m = Some m"
  by (simp add: local_wire_def plainCodec_def)

definition solo :: "ValidatorState list" where
  "solo = [chf_validator ''a'' 100]"

definition with_client_tx :: "Transaction \<Rightarrow> ValidatorNode \<Rightarrow> ValidatorNode" where
  "with_client_tx tx n = n\<lparr>vn_Ledger := snd (newTx tx (vn_Ledger n))\<rparr>"

lemma ready_with_client_tx:
  assumes "lg_validators (NewLedger vs) i \<noteq> None" "acceptable tx (NewLedger vs)"
  shows "proposer_ready 0 (with_client_tx tx (NewValidatorNode i vs))" "lg_heap (vn_Ledger (with_client_tx tx (NewValidatorNode i vs))) 0 = tx"
proof -
  let ?n = "with_client_tx tx (NewValidatorNode i vs)"
  have l: "vn_Ledger ?n = snd (newTx tx (NewLedger vs))" "vn_ID ?n = i" "vn_pendingMsgs ?n = Map.empty"
    by (simp_all add: with_client_tx_def NewValidatorNode_def)
  show h: "lg_heap (vn_Ledger ?n) 0 = tx" by (simp add: l newTx_def NewLedger_def)
  have "ledger_inv (vn_Ledger ?n)" unfolding l by (rule ledger_inv_alloc [OF ledger_inv_New])
  moreover have "acceptable tx (vn_Ledger ?n)" using assms(2) by (simp add: l newTx_def acceptable_def GetBalance_def)
  ultimately show "proposer_ready 0 ?n"
    using assms(1) unfolding proposer_ready_def h l(2,3) by (simp add: l newTx_def NewLedger_def)
qed


text \<open>The network between settlements: wired, all links among \<open>ids\<close> open, all their inboxes empty.\<close>

definition net_idle :: "string list \<Rightarrow> LocalNet \<Rightarrow> bool" where
  "net_idle ids w \<longleftrightarrow>
     local_wired w \<and> (\<forall>a\<in>set ids. \<forall>b\<in>set ids. local_link a b w) \<and> (\<forall>a\<in>set ids. local_inbox a w = [])"

lemma net_idle_New: "net_idle ids (NewLocalTransportSet ids)"
  by (simp add: net_idle_def NewLocalTransportSet_ready)

text \<open>
  C11. A settlement goes through and is replicated.  When the proposer's ledger accepts the
  transaction, its peers are up to date, the network delivers and the encodings round-trip, then in
  whatever order the peers take their turns the settlement is confirmed with the votes of all
  validators, and afterwards the proposer and every peer hold the transaction as confirmed with the
  same balances: the old ones after exactly one transfer.  No message is left over.
\<close>

theorem settlement_replicates:
  assumes "\<forall>m. local_wire C m = Some m" and "proposer_ready r n"
    and "mc_MarshalTx C (submittedTx r (now 0) n) = Some d" "d \<noteq> ''''" "mc_UnmarshalTx C d = Some (submittedTx r (now 0) n)"
    and "distinct (vn_ID n # js)" "length (vn_validators n) = Suc (length js)" "length js \<le> inboxCapacity"
    and "distinct order" "set order = set (vn_ID n # js)" "net_idle (vn_ID n # js) w"
    and "\<forall>j\<in>set js. \<exists>m. peers j = Some m \<and> in_step (vn_Ledger n) (tx_ID (submittedTx r (now 0) n)) j m"
  shows "\<exists>rnd nodes w'. settlementRound (LocalTransportOps C) C pick now order js r n peers w =
      ((\<lparr>cres_Confirmed = True, cres_Round = rnd, cres_Votes = length (vn_validators n), cres_TxID = tx_ID (lg_heap (vn_Ledger n) r)\<rparr>, None),
       nodes, w') \<and>
    (\<forall>j\<in>set (vn_ID n # js). local_inbox j w' = [] \<and>
       (\<exists>m. nodes j = Some m \<and> lg_confirmed (vn_Ledger m) (tx_ID (lg_heap (vn_Ledger n) r)) \<noteq> None \<and>
        balances (vn_Ledger m) = (let tx = lg_heap (vn_Ledger n) r in
          transfer (tx_From tx) (tx_To tx) (tx_Currency tx) (tx_Amount tx) (balances (vn_Ledger n)))))"
proof -
  let ?tx = "submittedTx r (now 0) n"
  have st: "tx_ID ?tx = tx_ID (lg_heap (vn_Ledger n) r)" "tx_From ?tx = tx_From (lg_heap (vn_Ledger n) r)" "tx_To ?tx = tx_To (lg_heap (vn_Ledger n) r)"
    "tx_Currency ?tx = tx_Currency (lg_heap (vn_Ledger n) r)" "tx_Amount ?tx = tx_Amount (lg_heap (vn_Ledger n) r)"
    using submittedTx_acceptable(1) [OF assms(2), of "now 0"] by (simp_all add: same_transfer_def)
  have wire: "\<And>m. local_wire C m = Some m" using assms(1) by blast
  have net: "local_wired w" "\<And>a b. a \<in> set (vn_ID n # js) \<Longrightarrow> b \<in> set (vn_ID n # js) \<Longrightarrow> local_link a b w"
    "\<And>a. a \<in> set (vn_ID n # js) \<Longrightarrow> local_inbox a w = []"
    using assms(11) unfolding net_idle_def by blast+
  have cap: "0 < inboxCapacity" by (simp add: inboxCapacity_def)
  show ?thesis
    using localnet.round_replicates [where C = C and Ca = C and now = now and pick = pick and peers = peers,
        OF wire assms(2-7,9,10) net assms(8) cap] assms(12)
    unfolding st assms(7) Let_def by blast
qed

definition trio :: "ValidatorState list" where
  "trio = [chf_validator ''a'' 100, chf_validator ''b'' 50, chf_validator ''c'' 0]"

definition trioProposer :: ValidatorNode where
  "trioProposer = with_client_tx (chf_tx ''t1'' ''a'' ''b'' 30) (NewValidatorNode ''a'' trio)"

lemma trio_ready:
  "proposer_ready 0 trioProposer" "lg_heap (vn_Ledger trioProposer) 0 = chf_tx ''t1'' ''a'' ''b'' 30"
  "vn_ID trioProposer = ''a''" "vn_validators trioProposer = trio" "length trio = 3"
proof -
  have "lg_validators (NewLedger trio) ''a'' = Some (chf_validator ''a'' 100)" "lg_validators (NewLedger trio) ''b'' = Some (chf_validator ''b'' 50)"
    by (simp_all add: NewLedger_def trio_def chf_validator_def)
  moreover from this have "acceptable (chf_tx ''t1'' ''a'' ''b'' 30) (NewLedger trio)"
    by (simp add: acceptable_def chf_tx_def emptyTx_def GetBalance_def chf_validator_def balance_of_def)
  ultimately show "proposer_ready 0 trioProposer" "lg_heap (vn_Ledger trioProposer) 0 = chf_tx ''t1'' ''a'' ''b'' 30"
    unfolding trioProposer_def using ready_with_client_tx [of trio "''a''"] by simp_all
qed (simp_all add: trioProposer_def with_client_tx_def NewValidatorNode_def trio_def)

lemma trio_in_step: "in_step (vn_Ledger trioProposer) i j (NewValidatorNode j trio)"
proof -
  have l: "vn_Ledger trioProposer = snd (newTx (chf_tx ''t1'' ''a'' ''b'' 30) (NewLedger trio))"
    by (simp add: trioProposer_def with_client_tx_def NewValidatorNode_def)
  have "ledger_inv (NewLedger trio)" by (rule ledger_inv_New)
  then show ?thesis unfolding in_step_def l
    by (simp add: NewValidatorNode_def newTx_def balances_def GetBalance_def fun_eq_iff) (simp add: NewLedger_def)
qed

theorem settlement_replicates_witness:
  "\<exists>rnd nodes w'. settlementRound (LocalTransportOps (plainCodec (submittedTx 0 7 trioProposer))) (plainCodec (submittedTx 0 7 trioProposer)) 0
      (\<lambda>_. 7) [''a'', ''b'', ''c''] [''c'', ''b''] 0 trioProposer (\<lambda>j. Some (NewValidatorNode j trio)) (NewLocalTransportSet [''a'', ''c'', ''b'']) =
      ((\<lparr>cres_Confirmed = True, cres_Round = rnd, cres_Votes = 3, cres_TxID = ''t1''\<rparr>, None), nodes, w') \<and>
    (\<forall>j\<in>{''a'', ''b'', ''c''}. \<exists>m. nodes j = Some m \<and> GetBalance ''a'' ''CHF'' (vn_Ledger m) = 70 \<and> GetBalance ''b'' ''CHF'' (vn_Ledger m) = 80)"
proof -
  let ?n = trioProposer and ?now = "\<lambda>_ :: nat. 7 :: time"
  have b: "balances (vn_Ledger ?n) ''a'' ''CHF'' = 100" "balances (vn_Ledger ?n) ''b'' ''CHF'' = 50"
    by (simp_all add: trioProposer_def with_client_tx_def NewValidatorNode_def newTx_def balances_def GetBalance_def NewLedger_def trio_def
        chf_validator_def balance_of_def)
  have tx: "tx_ID (lg_heap (vn_Ledger ?n) 0) = ''t1''" "tx_From (lg_heap (vn_Ledger ?n) 0) = ''a''" "tx_To (lg_heap (vn_Ledger ?n) 0) = ''b''"
    "tx_Currency (lg_heap (vn_Ledger ?n) 0) = ''CHF''" "tx_Amount (lg_heap (vn_Ledger ?n) 0) = 30"
    by (simp_all add: trio_ready chf_tx_def)
  have "net_idle (vn_ID ?n # [''c'', ''b'']) (NewLocalTransportSet [''a'', ''c'', ''b''])" unfolding trio_ready by (rule net_idle_New)
  note rule = settlement_replicates [where now = ?now and order = "[''a'', ''b'', ''c'']" and pick = 0
      and peers = "\<lambda>j. Some (NewValidatorNode j trio)" and d = "''tx''" and C = "plainCodec (submittedTx 0 7 ?n)",
      OF _ trio_ready(1) _ _ _ _ _ _ _ _ this, unfolded Let_def tx]
  have "\<exists>rnd nodes w'. settlementRound (LocalTransportOps (plainCodec (submittedTx 0 7 ?n))) (plainCodec (submittedTx 0 7 ?n)) 0
      ?now [''a'', ''b'', ''c''] [''c'', ''b''] 0 ?n (\<lambda>j. Some (NewValidatorNode j trio)) (NewLocalTransportSet [''a'', ''c'', ''b'']) =
      ((\<lparr>cres_Confirmed = True, cres_Round = rnd, cres_Votes = length (vn_validators ?n), cres_TxID = ''t1''\<rparr>, None), nodes, w') \<and>
    (\<forall>j\<in>set (vn_ID ?n # [''c'', ''b'']). local_inbox j w' = [] \<and> (\<exists>m. nodes j = Some m \<and> lg_confirmed (vn_Ledger m) ''t1'' \<noteq> None \<and>
       balances (vn_Ledger m) = transfer ''a'' ''b'' ''CHF'' 30 (balances (vn_Ledger ?n))))"
    by (rule rule) (auto simp: plain_wire plain_codec trio_ready inboxCapacity_def trio_in_step)
  then obtain rnd nodes w' where s: "settlementRound (LocalTransportOps (plainCodec (submittedTx 0 7 ?n))) (plainCodec (submittedTx 0 7 ?n)) 0
      ?now [''a'', ''b'', ''c''] [''c'', ''b''] 0 ?n (\<lambda>j. Some (NewValidatorNode j trio)) (NewLocalTransportSet [''a'', ''c'', ''b'']) =
      ((\<lparr>cres_Confirmed = True, cres_Round = rnd, cres_Votes = 3, cres_TxID = ''t1''\<rparr>, None), nodes, w')"
    and m: "\<forall>j\<in>{''a'', ''b'', ''c''}. \<exists>m. nodes j = Some m \<and> balances (vn_Ledger m) = transfer ''a'' ''b'' ''CHF'' 30 (balances (vn_Ledger ?n))"
    unfolding trio_ready by force
  have "GetBalance ''a'' ''CHF'' l = 70 \<and> GetBalance ''b'' ''CHF'' l = 80"
    if "balances l = transfer ''a'' ''b'' ''CHF'' 30 (balances (vn_Ledger ?n))" for l
    using b fun_cong [OF fun_cong [OF that]] by (simp add: balances_def transfer_def Let_def)
  with s m show ?thesis by blast
qed

text \<open>
  Votes are counted by message, not by validator.  The vote loop looks neither at the sender
  nor at the round of a vote: one peer that sends its yes vote as often as there are other
  validators makes the proposer confirm the settlement with a count of all validators, although no
  other peer has voted.
\<close>

theorem duplicate_votes_decide:
  assumes "\<forall>m. local_wire C m = Some m" and "proposer_ready r n" and "mc_MarshalTx C (submittedTx r (now 0) n) = Some d"
    and "length (vn_validators n) = Suc (Suc k)" "Suc k \<le> inboxCapacity"
    and "distinct order" "vn_ID n \<in> set order" "net_idle order w"
    and "j \<in> set order" "goodVote (tx_ID (submittedTx r (now 0) n)) v" "cm_ValidatorID v = j"
  shows "\<exists>rnd n' w'. ProposeSettlement (LocalTransportOps C) C pick now False order
      (flood (LocalTransportOps C) j (vn_ID n) v (Suc k) # replicate k id) r n w =
    ((\<lparr>cres_Confirmed = True, cres_Round = rnd, cres_Votes = length (vn_validators n), cres_TxID = tx_ID (lg_heap (vn_Ledger n) r)\<rparr>, None),
     n', w')"
proof -
  have tid: "tx_ID (submittedTx r (now 0) n) = tx_ID (lg_heap (vn_Ledger n) r)"
    using submittedTx_acceptable(1) [OF assms(2), of "now 0"] by (simp add: same_transfer_def)
  have wire: "\<And>m. local_wire C m = Some m" using assms(1) by blast
  have net: "local_wired w" "\<And>a b. a \<in> set order \<Longrightarrow> b \<in> set order \<Longrightarrow> local_link a b w" "\<And>a. a \<in> set order \<Longrightarrow> local_inbox a w = []"
    using assms(8) unfolding net_idle_def by blast+
  have cap: "1 < inboxCapacity" by (simp add: inboxCapacity_def)
  show ?thesis
    using localnet.flood_decides [where C = C and now = now and pick = pick, OF wire assms(2-7) net cap assms(9,10)]
    unfolding tid assms(4) by simp
qed

definition trioVote :: ConsensusMessage where
  "trioVote = \<lparr>cm_Type = MsgVote, cm_TxID = ''t1'', cm_ValidatorID = ''b'', cm_Round = 9, cm_Payload = ''yes'', cm_Timestamp = 0\<rparr>"

theorem duplicate_votes_decide_witness:
  "\<exists>rnd n' w'. ProposeSettlement (LocalTransportOps (plainCodec emptyTx)) (plainCodec emptyTx) 0 (\<lambda>_. 7) False [''a'', ''b'', ''c'']
      (flood (LocalTransportOps (plainCodec emptyTx)) ''b'' (vn_ID trioProposer) trioVote 2 # replicate 1 id) 0 trioProposer
      (NewLocalTransportSet [''a'', ''b'', ''c'']) =
    ((\<lparr>cres_Confirmed = True, cres_Round = rnd, cres_Votes = 3, cres_TxID = ''t1''\<rparr>, None), n', w')"
proof -
  let ?n = trioProposer and ?now = "\<lambda>_ :: nat. 7 :: time"
  have tid: "tx_ID (lg_heap (vn_Ledger ?n) 0) = ''t1''" by (simp add: trio_ready chf_tx_def)
  then have sub: "tx_ID (submittedTx 0 7 ?n) = ''t1''"
    using submittedTx_acceptable(1) [OF trio_ready(1), of 7] by (simp add: same_transfer_def)
  have "\<exists>rnd n' w'. ProposeSettlement (LocalTransportOps (plainCodec emptyTx)) (plainCodec emptyTx) 0 ?now False [''a'', ''b'', ''c'']
      (flood (LocalTransportOps (plainCodec emptyTx)) ''b'' (vn_ID ?n) trioVote (Suc 1) # replicate 1 id) 0 ?n
      (NewLocalTransportSet [''a'', ''b'', ''c'']) =
    ((\<lparr>cres_Confirmed = True, cres_Round = rnd, cres_Votes = length (vn_validators ?n), cres_TxID = tx_ID (lg_heap (vn_Ledger ?n) 0)\<rparr>, None),
     n', w')"
    by (rule duplicate_votes_decide [OF _ trio_ready(1) plain_codec(1)])
       (simp_all add: plain_wire sub trio_ready inboxCapacity_def net_idle_New goodVote_def trioVote_def)
  then show ?thesis unfolding trio_ready by (simp add: numeral_2_eq_2 chf_tx_def)
qed

text \<open>
  A transport that is closed takes its senders down: closing one validator's transport closes
  its inbox, and the next message any other validator sends or broadcasts to it is a send on a
  closed channel, which panics; no error is returned.
\<close>

theorem closed_peer_panics:
  assumes "i \<in> set ids" "j \<in> set ids" "i \<noteq> j" "local_wire C m \<noteq> None"
  shows "vt_Send (LocalTransportOps C) i False j m (Local_Close j (NewLocalTransportSet ids)) =
    (Some ClosedChannelPanic, Local_Close j (NewLocalTransportSet ids))"
proof -
  let ?w = "NewLocalTransportSet ids"
  obtain t u where t: "ln_transports ?w i = Some t" "\<not> lt_closed t" "\<not> lt_blocked t j" and u: "ln_transports ?w j = Some u" "\<not> lt_closed u"
    using NewLocalTransportSet_ready(2) [OF assms(1,2)] NewLocalTransportSet_ready(2) [OF assms(2,1)]
    by (auto simp: local_link_def split: option.splits)
  from NewLocalTransportSet_ready(1) [of ids] t(1) u(1) have "lt_peers t j = Some (lt_inbox u)" by (simp add: local_wired_def)
  with t u assms(3,4) show ?thesis
    by (auto simp: LocalTransportOps_def Local_Close_def Local_Send_def local_wire_def Option.bind_eq_None_conv split: option.split)
qed

theorem closed_peer_panics_witness:
  "vt_Send (LocalTransportOps (plainCodec emptyTx)) ''a'' False ''b'' trioVote (Local_Close ''b'' (NewLocalTransportSet [''a'', ''b''])) =
    (Some ClosedChannelPanic, Local_Close ''b'' (NewLocalTransportSet [''a'', ''b'']))"
  by (rule closed_peer_panics) (simp_all add: plain_wire)

end
