(* ===== verification/JP_Threshold.thy ===== *)
theory JP_Threshold
  imports JP_Scion
begin

text \<open>
  The k-of-n threshold oracle of \<^verbatim>\<open>internal/security/threshold.go\<close>.  The key pairs that
  \<open>ed25519.GenerateKey\<close> returns for each oracle are the argument \<open>genKey\<close> (public key first).
\<close>

section \<open>Definitions\<close>

record OracleInstance =
  orc_ID :: string
  orc_PrivateKey :: bytes
  orc_PublicKey :: bytes

record ThresholdOracle =
  to_K :: int
  to_N :: int
  to_Oracles :: "OracleInstance list"

datatype ThresholdError =
    KBelowOne int
  | KExceedsN int int
  | GeneratingKeyPair nat
  | OracleIndexOutOfRange int int
  | OracleIndexPanic int
  | InsufficientSignatures int int
  | OnlyValidSignatures int int

definition NewThresholdOracle ::
  "(nat \<Rightarrow> (bytes \<times> bytes) option) \<Rightarrow> int \<Rightarrow> int \<Rightarrow> ThresholdError + ThresholdOracle" where
  "NewThresholdOracle genKey k n =
     (if k < 1 then Inl (KBelowOne k)
      else if k > n then Inl (KExceedsN k n)
      else case mapErr (\<lambda>i. case genKey i of
                              None \<Rightarrow> Inl (GeneratingKeyPair i)
                            | Some (pub, priv) \<Rightarrow>
                                Inr \<lparr>orc_ID = ''oracle-'' @ itoa i, orc_PrivateKey = priv, orc_PublicKey = pub\<rparr>)
                  [0..<nat n] of
             Inl e \<Rightarrow> Inl e
           | Inr oracles \<Rightarrow> Inr \<lparr>to_K = k, to_N = n, to_Oracles = oracles\<rparr>)"

definition PartialSign ::
  "prims \<Rightarrow> ThresholdOracle \<Rightarrow> int \<Rightarrow> bytes \<Rightarrow> ThresholdError + ThresholdSignature" where
  "PartialSign P to oracleIdx data =
     (if oracleIdx < 0 \<or> oracleIdx \<ge> to_N to then Inl (OracleIndexOutOfRange oracleIdx (to_N to))
      else if nat oracleIdx \<ge> length (to_Oracles to) then Inl (OracleIndexPanic oracleIdx)
      else let oracle = to_Oracles to ! nat oracleIdx
           in Inr \<lparr>ts_OracleID = orc_ID oracle, ts_Signature = ed_sign P (orc_PrivateKey oracle) data,
                   ts_PublicKey = orc_PublicKey oracle\<rparr>)"

definition SignThreshold ::
  "prims \<Rightarrow> ThresholdOracle \<Rightarrow> bytes \<Rightarrow> ThresholdError + (ThresholdSignature list \<times> int \<times> int)" where
  "SignThreshold P to data =
     (case mapErr (\<lambda>i. PartialSign P to (int i) data) [0..<nat (to_K to)] of
        Inl e \<Rightarrow> Inl e
      | Inr signatures \<Rightarrow> Inr (signatures, to_K to, to_N to))"

fun countValid ::
  "prims \<Rightarrow> bytes list \<Rightarrow> bytes \<Rightarrow> string list \<Rightarrow> ThresholdSignature list \<Rightarrow> int" where
  "countValid P knownKeys data seenOracles [] = 0"
| "countValid P knownKeys data seenOracles (ps # sigs) =
     (if ts_OracleID ps \<in> set seenOracles then countValid P knownKeys data seenOracles sigs
      else let seen' = ts_OracleID ps # seenOracles in
        if ts_PublicKey ps \<notin> set knownKeys then countValid P knownKeys data seen' sigs
        else if ed_verify P (ts_PublicKey ps) data (ts_Signature ps)
             then 1 + countValid P knownKeys data seen' sigs
        else countValid P knownKeys data seen' sigs)"

definition Threshold_Verify ::
  "prims \<Rightarrow> ThresholdOracle \<Rightarrow> bytes \<Rightarrow> ThresholdSignature list \<Rightarrow> ThresholdError + bool" where
  "Threshold_Verify P to data signatures =
     (if int (length signatures) < to_K to
      then Inl (InsufficientSignatures (int (length signatures)) (to_K to))
      else let validCount = countValid P (map orc_PublicKey (to_Oracles to)) data [] signatures
           in if validCount \<ge> to_K to then Inr True
              else Inl (OnlyValidSignatures validCount (to_K to)))"

section \<open>What signing produces\<close>

text \<open>An oracle group as \<open>NewThresholdOracle\<close> makes it, with the key pairs Ed25519 generates.\<close>

definition genuine_keys :: "prims \<Rightarrow> (nat \<Rightarrow> (bytes \<times> bytes) option) \<Rightarrow> bool" where
  "genuine_keys P genKey \<longleftrightarrow> (\<forall>i pub priv. genKey i = Some (pub, priv) \<longrightarrow> pub = ed_public P priv)"

definition oracle_group :: "prims \<Rightarrow> ThresholdOracle \<Rightarrow> bool" where
  "oracle_group P to \<longleftrightarrow>
     1 \<le> to_K to \<and> to_K to \<le> to_N to \<and> length (to_Oracles to) = nat (to_N to) \<and>
     (\<forall>i < length (to_Oracles to). orc_ID (to_Oracles to ! i) = ''oracle-'' @ itoa i \<and>
        orc_PublicKey (to_Oracles to ! i) = ed_public P (orc_PrivateKey (to_Oracles to ! i)))"

lemma NewThresholdOracle_group:
  assumes "NewThresholdOracle genKey k n = Inr to" "genuine_keys P genKey"
  shows "oracle_group P to \<and> to_K to = k \<and> to_N to = n"
proof -
  define mk where "mk = (\<lambda>i. case genKey i of
      None \<Rightarrow> Inl (GeneratingKeyPair i)
    | Some (pub, priv) \<Rightarrow> Inr \<lparr>orc_ID = ''oracle-'' @ itoa i, orc_PrivateKey = priv, orc_PublicKey = pub\<rparr>)"
  from assms(1) obtain os where kn: "1 \<le> k" "k \<le> n" and os: "mapErr mk [0..<nat n] = Inr os"
    and to: "to = \<lparr>to_K = k, to_N = n, to_Oracles = os\<rparr>"
    by (auto simp: NewThresholdOracle_def mk_def split: if_splits sum.splits)
  from os have l: "length os = nat n" by (auto dest: mapErr_length)
  have mk: "mk i = Inr (os ! i)" if "i < length os" for i
    using os that l by (auto simp: mapErr_Inr_iff list_all2_conv_all_nth)
  have "orc_ID (os ! i) = ''oracle-'' @ itoa i \<and> orc_PublicKey (os ! i) = ed_public P (orc_PrivateKey (os ! i))"
    if "i < length os" for i
  proof (cases "genKey i")
    case None
    with mk [OF that] show ?thesis by (simp add: mk_def)
  next
    case (Some kp)
    obtain pub priv where kp: "kp = (pub, priv)" by (cases kp)
    with Some mk [OF that] have e: "os ! i = \<lparr>orc_ID = ''oracle-'' @ itoa i, orc_PrivateKey = priv, orc_PublicKey = pub\<rparr>"
      by (simp add: mk_def)
    have "pub = ed_public P priv" using assms(2) Some kp unfolding genuine_keys_def by blast
    with e show ?thesis by simp
  qed
  with kn l to show ?thesis by (simp add: oracle_group_def)
qed

lemma SignThreshold_group:
  assumes "oracle_group P to"
  shows "SignThreshold P to data =
    Inr (map (\<lambda>i. \<lparr>ts_OracleID = ''oracle-'' @ itoa i,
                   ts_Signature = ed_sign P (orc_PrivateKey (to_Oracles to ! i)) data,
                   ts_PublicKey = ed_public P (orc_PrivateKey (to_Oracles to ! i))\<rparr>) [0..<nat (to_K to)],
         to_K to, to_N to)"
proof -
  let ?f = "\<lambda>i. \<lparr>ts_OracleID = ''oracle-'' @ itoa i,
                   ts_Signature = ed_sign P (orc_PrivateKey (to_Oracles to ! i)) data,
                   ts_PublicKey = ed_public P (orc_PrivateKey (to_Oracles to ! i))\<rparr>"
  have "PartialSign P to (int i) data = Inr (?f i)" if "i < nat (to_K to)" for i
    using assms that by (auto simp: oracle_group_def PartialSign_def Let_def)
  then have "mapErr (\<lambda>i. PartialSign P to (int i) data) [0..<nat (to_K to)] = Inr (map ?f [0..<nat (to_K to)])"
    by (auto simp: mapErr_Inr_iff list_all2_conv_all_nth)
  then show ?thesis by (simp add: SignThreshold_def)
qed

lemma countValid_all:
  assumes "distinct (map ts_OracleID sigs)" "set (map ts_OracleID sigs) \<inter> set seen = {}"
    and "\<forall>s\<in>set sigs. ts_PublicKey s \<in> set known \<and> ed_verify P (ts_PublicKey s) data (ts_Signature s)"
  shows "countValid P known data seen sigs = int (length sigs)"
  using assms by (induction sigs arbitrary: seen) (auto simp: Let_def)

lemma Threshold_Verify_all:
  assumes "distinct (map ts_OracleID sigs)" "to_K to \<le> int (length sigs)"
    and "\<forall>s\<in>set sigs. ts_PublicKey s \<in> set (map orc_PublicKey (to_Oracles to)) \<and>
                      ed_verify P (ts_PublicKey s) data (ts_Signature s)"
  shows "Threshold_Verify P to data sigs = Inr True"
  using assms countValid_all [of sigs "[]"] by (simp add: Threshold_Verify_def Let_def)

lemma distinct_itoa_ids: "distinct (map (\<lambda>i. ''oracle-'' @ itoa i) [0..<n])"
  by (simp add: distinct_map inj_on_def)

text \<open>
  Threshold signing round trip: a freshly created k-of-n oracle signs any payload with
  exactly k attestations from k distinct oracles of the group, reports its own k and n, and
  these attestations pass its own verification.
\<close>

theorem SignThreshold_verifies:
  assumes "NewThresholdOracle genKey k n = Inr to" and "genuine_keys P genKey" and "ed25519_correct P"
  shows "\<exists>sigs. SignThreshold P to data = Inr (sigs, k, n) \<and> int (length sigs) = k
    \<and> distinct (map ts_OracleID sigs) \<and> Threshold_Verify P to data sigs = Inr True"
proof -
  from NewThresholdOracle_group [OF assms(1,2)]
  have g: "oracle_group P to" and kn: "to_K to = k" "to_N to = n" by simp_all
  let ?sigs = "map (\<lambda>i. \<lparr>ts_OracleID = ''oracle-'' @ itoa i,
                   ts_Signature = ed_sign P (orc_PrivateKey (to_Oracles to ! i)) data,
                   ts_PublicKey = ed_public P (orc_PrivateKey (to_Oracles to ! i))\<rparr>) [0..<nat k]"
  have s: "SignThreshold P to data = Inr (?sigs, k, n)"
    using SignThreshold_group [OF g] kn by simp
  have len: "int (length ?sigs) = k" using g kn by (simp add: oracle_group_def)
  have d: "distinct (map ts_OracleID ?sigs)"
    using distinct_itoa_ids [of "nat k"] by (simp add: comp_def)
  have "Threshold_Verify P to data ?sigs = Inr True"
  proof (rule Threshold_Verify_all [OF d])
    show "to_K to \<le> int (length ?sigs)" using len kn by simp
    show "\<forall>s\<in>set ?sigs. ts_PublicKey s \<in> set (map orc_PublicKey (to_Oracles to)) \<and>
             ed_verify P (ts_PublicKey s) data (ts_Signature s)"
    proof
      fix s assume "s \<in> set ?sigs"
      then obtain i where i: "i < nat k" and s: "s = ?sigs ! i" by (auto simp: in_set_conv_nth)
      have "nat k \<le> nat n" using g kn by (simp add: oracle_group_def nat_mono)
      with g kn i have il: "i < length (to_Oracles to)" by (simp add: oracle_group_def)
      with g have "orc_PublicKey (to_Oracles to ! i) = ed_public P (orc_PrivateKey (to_Oracles to ! i))"
        unfolding oracle_group_def by blast
      with nth_mem [OF il] have "ed_public P (orc_PrivateKey (to_Oracles to ! i)) \<in> set (map orc_PublicKey (to_Oracles to))"
        by (metis image_eqI set_map)
      with s i assms(3) show "ts_PublicKey s \<in> set (map orc_PublicKey (to_Oracles to)) \<and>
             ed_verify P (ts_PublicKey s) data (ts_Signature s)"
        by (simp add: ed25519_correct_def)
    qed
  qed
  with s len d show ?thesis by blast
qed

lemma toy_prims_correct: "ed25519_correct (toy_prims\<lparr>ed_sign := \<lambda>priv m. ed_public toy_prims priv @ m\<rparr>)"
  by (simp add: ed25519_correct_def toy_prims_def PublicKeySize_def min_def)

definition toy_ed :: prims where
  "toy_ed = toy_prims\<lparr>ed_sign := \<lambda>priv m. ed_public toy_prims priv @ m\<rparr>"

lemma toy_ed_correct: "ed25519_correct toy_ed"
  by (simp add: toy_ed_def toy_prims_correct)

definition toy_keys :: "nat \<Rightarrow> (bytes \<times> bytes) option" where
  "toy_keys i = Some (ed_public toy_ed [of_nat i], [of_nat i])"

lemma toy_keys_genuine: "genuine_keys toy_ed toy_keys"
  by (simp add: genuine_keys_def toy_keys_def)

lemma NewThresholdOracle_toy:
  assumes "1 \<le> k" "k \<le> n"
  shows "\<exists>to. NewThresholdOracle toy_keys k n = Inr to"
proof -
  let ?mk = "\<lambda>i. Inr \<lparr>orc_ID = ''oracle-'' @ itoa i, orc_PrivateKey = [of_nat i],
    orc_PublicKey = ed_public toy_ed [of_nat i]\<rparr> :: ThresholdError + OracleInstance"
  have "mapErr ?mk [0..<nat n] = Inr (map (\<lambda>i. \<lparr>orc_ID = ''oracle-'' @ itoa i, orc_PrivateKey = [of_nat i],
    orc_PublicKey = ed_public toy_ed [of_nat i]\<rparr>) [0..<nat n])" by (rule mapErr_total)
  with assms show ?thesis by (simp add: NewThresholdOracle_def toy_keys_def)
qed

theorem SignThreshold_verifies_witness:
  "\<exists>to sigs. NewThresholdOracle toy_keys 2 3 = Inr to \<and> SignThreshold toy_ed to [1, 2] = Inr (sigs, 2, 3)
     \<and> length sigs = 2 \<and> Threshold_Verify toy_ed to [1, 2] sigs = Inr True"
proof -
  from NewThresholdOracle_toy [of 2 3] obtain to where to: "NewThresholdOracle toy_keys 2 3 = Inr to" by auto
  from SignThreshold_verifies [OF to toy_keys_genuine toy_ed_correct, of "[1, 2]"] to show ?thesis by auto
qed

section \<open>What verification guarantees\<close>

lemma countValid_sound:
  "\<exists>good. mset good \<subseteq># mset sigs \<and> int (length good) = countValid P known data seen sigs \<and>
     distinct (map ts_OracleID good) \<and> set (map ts_OracleID good) \<inter> set seen = {} \<and>
     (\<forall>s\<in>set good. ts_PublicKey s \<in> set known \<and> ed_verify P (ts_PublicKey s) data (ts_Signature s))"
proof (induction P known data seen sigs rule: countValid.induct)
  case (1 P known data seen)
  then show ?case by (intro exI [of _ "[]"]) simp
next
  case (2 P known data seen ps sigs)
  show ?case
  proof (cases "ts_OracleID ps \<in> set seen")
    case True
    from "2.IH"(1) [OF True] obtain good where
      "mset good \<subseteq># mset sigs" "int (length good) = countValid P known data seen sigs"
      "distinct (map ts_OracleID good)" "set (map ts_OracleID good) \<inter> set seen = {}"
      "\<forall>s\<in>set good. ts_PublicKey s \<in> set known \<and> ed_verify P (ts_PublicKey s) data (ts_Signature s)"
      by blast
    with True show ?thesis
      by (intro exI [of _ good]) (auto intro: subset_mset.order_trans [of _ "mset sigs"])
  next
    case False
    let ?seen = "ts_OracleID ps # seen"
    have ih: "\<exists>good. mset good \<subseteq># mset sigs \<and> int (length good) = countValid P known data ?seen sigs \<and>
        distinct (map ts_OracleID good) \<and> set (map ts_OracleID good) \<inter> set ?seen = {} \<and>
        (\<forall>s\<in>set good. ts_PublicKey s \<in> set known \<and> ed_verify P (ts_PublicKey s) data (ts_Signature s))"
      using "2.IH"(2-4) [OF False refl] by (metis (full_types))
    then obtain good where g: "mset good \<subseteq># mset sigs"
      "int (length good) = countValid P known data ?seen sigs" "distinct (map ts_OracleID good)"
      "set (map ts_OracleID good) \<inter> set ?seen = {}"
      "\<forall>s\<in>set good. ts_PublicKey s \<in> set known \<and> ed_verify P (ts_PublicKey s) data (ts_Signature s)"
      by blast
    show ?thesis
    proof (cases "ts_PublicKey ps \<in> set known \<and> ed_verify P (ts_PublicKey ps) data (ts_Signature ps)")
      case True
      with False g show ?thesis by (intro exI [of _ "ps # good"]) auto
    next
      case bad: False
      with False g show ?thesis
        by (intro exI [of _ good]) (auto simp: Let_def intro: subset_mset.order_trans [of _ "mset sigs"])
    qed
  qed
qed

text \<open>
  C37. What an accepted threshold verification guarantees: among the presented attestations there
  are at least k with pairwise different oracle identifiers, each made under a public key of the
  group and each a valid signature of the payload; and verification never returns an acceptance
  other than this.
\<close>

theorem Threshold_Verify_sound:
  assumes "Threshold_Verify P to data sigs = Inr b"
  shows "b \<and> (\<exists>good. mset good \<subseteq># mset sigs \<and> to_K to \<le> int (length good)
    \<and> distinct (map ts_OracleID good)
    \<and> (\<forall>s\<in>set good. ts_PublicKey s \<in> orc_PublicKey ` set (to_Oracles to)
         \<and> ed_verify P (ts_PublicKey s) data (ts_Signature s)))"
proof -
  from assms have b: b and k: "to_K to \<le> countValid P (map orc_PublicKey (to_Oracles to)) data [] sigs"
    by (auto simp: Threshold_Verify_def Let_def split: if_splits)
  with countValid_sound [of sigs P "map orc_PublicKey (to_Oracles to)" data "[]"] show ?thesis
    by (auto intro: order_trans)
qed

theorem Threshold_Verify_sound_witness:
  "\<exists>to sigs. Threshold_Verify toy_ed to [1] sigs = Inr True \<and> to_K to = 1 \<and>
     (\<exists>good. mset good \<subseteq># mset sigs \<and> 1 \<le> int (length good))"
proof -
  let ?o = "\<lparr>orc_ID = ''oracle-0'', orc_PrivateKey = [0], orc_PublicKey = ed_public toy_ed [0]\<rparr>"
  let ?to = "\<lparr>to_K = 1, to_N = 1, to_Oracles = [?o]\<rparr>"
  let ?s = "\<lparr>ts_OracleID = ''oracle-0'', ts_Signature = ed_sign toy_ed [0] [1], ts_PublicKey = ed_public toy_ed [0]\<rparr>"
  have v: "Threshold_Verify toy_ed ?to [1] [?s] = Inr True"
    using toy_ed_correct by (simp add: Threshold_Verify_def ed25519_correct_def)
  from Threshold_Verify_sound [OF v] v show ?thesis
    by (metis ThresholdOracle.select_convs(1))
qed

text \<open>
  The quorum can be met by one oracle: oracle identifiers are taken from the attestations
  and are not tied to keys, so whoever holds a single private key of the group can produce
  attestations that pass verification for any k, contrary to the documented requirement that at
  least k oracles sign.
\<close>

theorem Threshold_Verify_single_key_quorum:
  assumes "ed25519_correct P" and "oracle \<in> set (to_Oracles to)"
    and "orc_PublicKey oracle = ed_public P (orc_PrivateKey oracle)"
  shows "\<exists>sigs. (\<forall>s\<in>set sigs. ts_PublicKey s = orc_PublicKey oracle
                     \<and> ts_Signature s = ed_sign P (orc_PrivateKey oracle) data)
    \<and> Threshold_Verify P to data sigs = Inr True"
proof -
  let ?sigs = "map (\<lambda>i. \<lparr>ts_OracleID = ''oracle-'' @ itoa i,
       ts_Signature = ed_sign P (orc_PrivateKey oracle) data,
       ts_PublicKey = orc_PublicKey oracle\<rparr>) [0..<nat (to_K to)]"
  have "Threshold_Verify P to data ?sigs = Inr True"
  proof (rule Threshold_Verify_all)
    show "distinct (map ts_OracleID ?sigs)"
      using distinct_itoa_ids [of "nat (to_K to)"] by (simp add: comp_def)
    show "\<forall>s\<in>set ?sigs. ts_PublicKey s \<in> set (map orc_PublicKey (to_Oracles to)) \<and>
            ed_verify P (ts_PublicKey s) data (ts_Signature s)"
      using assms by (auto simp: ed25519_correct_def intro: rev_image_eqI)
  qed simp
  then show ?thesis by (intro exI [of _ ?sigs]) simp
qed

theorem Threshold_Verify_single_key_quorum_witness:
  "\<exists>to sigs. NewThresholdOracle toy_keys 3 3 = Inr to \<and>
     (\<forall>s\<in>set sigs. ts_PublicKey s = orc_PublicKey (to_Oracles to ! 0)) \<and> Threshold_Verify toy_ed to [9] sigs = Inr True"
proof -
  from NewThresholdOracle_toy [of 3 3] obtain to where to: "NewThresholdOracle toy_keys 3 3 = Inr to" by auto
  from NewThresholdOracle_group [OF to toy_keys_genuine] have g: "oracle_group toy_ed to" "to_N to = 3" by simp_all
  have "to_Oracles to ! 0 \<in> set (to_Oracles to)"
    "orc_PublicKey (to_Oracles to ! 0) = ed_public toy_ed (orc_PrivateKey (to_Oracles to ! 0))"
    using g by (auto simp: oracle_group_def)
  from Threshold_Verify_single_key_quorum [OF toy_ed_correct this] to show ?thesis by blast
qed

end
