(* ===== verification/JP_Store.thy ===== *)
theory JP_Store
  imports JP_Threshold
begin

text \<open>
  Receipt persistence (\<^verbatim>\<open>internal/receipt/store.go\<close>).  The Go interface \<open>Store\<close> is a record of
  its methods over an arbitrary state; the locale \<open>receipt_store\<close> states what every
  implementation promises in terms of the list of receipts it holds, in the order they were
  appended.  \<open>MemoryStore\<close> is modelled in full and interpreted as such a store.
\<close>

section \<open>The interface\<close>

datatype StoreError =
    DuplicateReceiptID string
  | DuplicateSequence uint64
  | StoreFailure string

record 's Store =
  st_Append :: "ComplianceReceipt \<Rightarrow> 's \<Rightarrow> StoreError option \<times> 's"
  st_GetByTxID :: "string \<Rightarrow> 's \<Rightarrow> StoreError + ComplianceReceipt option"
  st_GetByID :: "string \<Rightarrow> 's \<Rightarrow> StoreError + ComplianceReceipt option"
  st_List :: "'s \<Rightarrow> StoreError + ComplianceReceipt list"
  st_Count :: "'s \<Rightarrow> StoreError + nat"
  st_Last :: "'s \<Rightarrow> StoreError + ComplianceReceipt option"
  st_ListRange :: "uint64 \<Rightarrow> uint64 \<Rightarrow> 's \<Rightarrow> StoreError + ComplianceReceipt list"

section \<open>The memory store\<close>

record MemoryStore =
  ms_receipts :: "ComplianceReceipt list"
  ms_byID :: "string \<rightharpoonup> ComplianceReceipt"
  ms_byTxID :: "string \<rightharpoonup> ComplianceReceipt"
  ms_bySeq :: "uint64 \<rightharpoonup> ComplianceReceipt"

definition NewMemoryStore :: MemoryStore where
  "NewMemoryStore = \<lparr>ms_receipts = [], ms_byID = Map.empty, ms_byTxID = Map.empty, ms_bySeq = Map.empty\<rparr>"

definition Memory_Append :: "ComplianceReceipt \<Rightarrow> MemoryStore \<Rightarrow> StoreError option \<times> MemoryStore" where
  "Memory_Append r s =
     (case ms_byID s (rcpt_ID r) of
        Some _ \<Rightarrow> (Some (DuplicateReceiptID (rcpt_ID r)), s)
      | None \<Rightarrow>
         (case ms_bySeq s (rcpt_SeqNo r) of
            Some _ \<Rightarrow> (Some (DuplicateSequence (rcpt_SeqNo r)), s)
          | None \<Rightarrow>
              (None, s\<lparr>ms_receipts := ms_receipts s @ [r],
                       ms_byID := (ms_byID s)(rcpt_ID r \<mapsto> r),
                       ms_byTxID := (ms_byTxID s)(rcpt_TransactionID r \<mapsto> r),
                       ms_bySeq := (ms_bySeq s)(rcpt_SeqNo r \<mapsto> r)\<rparr>)))"

definition Memory_GetByTxID :: "string \<Rightarrow> MemoryStore \<Rightarrow> StoreError + ComplianceReceipt option" where
  "Memory_GetByTxID txID s = Inr (ms_byTxID s txID)"

definition Memory_GetByID :: "string \<Rightarrow> MemoryStore \<Rightarrow> StoreError + ComplianceReceipt option" where
  "Memory_GetByID rid s = Inr (ms_byID s rid)"

definition Memory_List :: "MemoryStore \<Rightarrow> StoreError + ComplianceReceipt list" where
  "Memory_List s = Inr (ms_receipts s)"

definition Memory_Count :: "MemoryStore \<Rightarrow> StoreError + nat" where
  "Memory_Count s = Inr (length (ms_receipts s))"

definition Memory_Last :: "MemoryStore \<Rightarrow> StoreError + ComplianceReceipt option" where
  "Memory_Last s =
     (if length (ms_receipts s) = 0 then Inr None
      else Inr (Some (ms_receipts s ! (length (ms_receipts s) - 1))))"

definition Memory_ListRange :: "uint64 \<Rightarrow> uint64 \<Rightarrow> MemoryStore \<Rightarrow> StoreError + ComplianceReceipt list" where
  "Memory_ListRange fromSeq toSeq s =
     Inr (filter (\<lambda>r. rcpt_SeqNo r \<ge> fromSeq \<and> rcpt_SeqNo r \<le> toSeq) (ms_receipts s))"

definition MemoryStoreOps :: "MemoryStore Store" where
  "MemoryStoreOps = \<lparr>st_Append = Memory_Append, st_GetByTxID = Memory_GetByTxID, st_GetByID = Memory_GetByID,
     st_List = Memory_List, st_Count = Memory_Count, st_Last = Memory_Last, st_ListRange = Memory_ListRange\<rparr>"

section \<open>What a store promises\<close>

text \<open>
  \<open>receipts s\<close> is the append history.  An append either fails and changes nothing, or adds one
  receipt whose identifier and sequence number were both unused; reads that succeed answer from
  the history.  \<open>Last\<close> and \<open>ListRange\<close> are only promised for a history whose sequence numbers
  ascend, because an implementation may order by sequence number instead of by time of append.
\<close>

definition seq_sorted :: "ComplianceReceipt list \<Rightarrow> bool" where
  "seq_sorted rs \<longleftrightarrow> sorted_wrt (<) (map rcpt_SeqNo rs)"

definition in_range :: "uint64 \<Rightarrow> uint64 \<Rightarrow> ComplianceReceipt \<Rightarrow> bool" where
  "in_range a b r \<longleftrightarrow> a \<le> rcpt_SeqNo r \<and> rcpt_SeqNo r \<le> b"

locale receipt_store =
  fixes S :: "'s Store"
    and store_inv :: "'s \<Rightarrow> bool"
    and receipts :: "'s \<Rightarrow> ComplianceReceipt list"
  assumes append_ok: "store_inv s \<Longrightarrow> st_Append S r s = (None, s') \<Longrightarrow>
      store_inv s' \<and> receipts s' = receipts s @ [r]
      \<and> rcpt_ID r \<notin> rcpt_ID ` set (receipts s) \<and> rcpt_SeqNo r \<notin> rcpt_SeqNo ` set (receipts s)"
    and append_err: "store_inv s \<Longrightarrow> st_Append S r s = (Some e, s') \<Longrightarrow> s' = s"
    and getByID: "store_inv s \<Longrightarrow> st_GetByID S rid s = Inr x \<Longrightarrow> x = find (\<lambda>r. rcpt_ID r = rid) (receipts s)"
    and getByTxID: "store_inv s \<Longrightarrow> st_GetByTxID S tx s = Inr x \<Longrightarrow>
      x = find (\<lambda>r. rcpt_TransactionID r = tx) (rev (receipts s))"
    and list_mset: "store_inv s \<Longrightarrow> st_List S s = Inr rs \<Longrightarrow> mset rs = mset (receipts s)"
    and count: "store_inv s \<Longrightarrow> st_Count S s = Inr n \<Longrightarrow> n = length (receipts s)"
    and last: "store_inv s \<Longrightarrow> seq_sorted (receipts s) \<Longrightarrow> st_Last S s = Inr x \<Longrightarrow>
      x = (if receipts s = [] then None else Some (List.last (receipts s)))"
    and range: "store_inv s \<Longrightarrow> seq_sorted (receipts s) \<Longrightarrow> st_ListRange S a b s = Inr rs \<Longrightarrow>
      rs = filter (in_range a b) (receipts s)"
    and distinct_keys: "store_inv s \<Longrightarrow>
      distinct (map rcpt_ID (receipts s)) \<and> distinct (map rcpt_SeqNo (receipts s))"
begin

lemma append_cases:
  assumes "store_inv s"
  obtains (ok) s' where "st_Append S r s = (None, s')" "store_inv s'" "receipts s' = receipts s @ [r]"
    "rcpt_ID r \<notin> rcpt_ID ` set (receipts s)" "rcpt_SeqNo r \<notin> rcpt_SeqNo ` set (receipts s)"
  | (err) e where "st_Append S r s = (Some e, s)"
proof (cases "st_Append S r s")
  case (Pair e s')
  show thesis
  proof (cases e)
    case None
    with Pair append_ok [OF assms, of r s'] ok show thesis by simp
  next
    case (Some x)
    with Pair append_err [OF assms, of r x s'] err [of x] show thesis by simp
  qed
qed

lemma append_inv: "store_inv s \<Longrightarrow> store_inv (snd (st_Append S r s))"
  by (rule append_cases [of s r]) auto

lemma append_then_getByID:
  assumes "store_inv s" "st_Append S r s = (None, s')" "st_GetByID S (rcpt_ID r) s' = Inr x"
  shows "x = Some r"
proof -
  from append_ok [OF assms(1,2)] have *: "store_inv s'" "receipts s' = receipts s @ [r]"
    "rcpt_ID r \<notin> rcpt_ID ` set (receipts s)" by simp_all
  then have "find (\<lambda>q. rcpt_ID q = rcpt_ID r) (receipts s) = None"
    by (auto simp: find_None_iff image_iff)
  with * getByID [OF *(1) assms(3)] show ?thesis
    by (simp add: find_snoc)
qed

lemma append_then_getByTxID:
  assumes "store_inv s" "st_Append S r s = (None, s')" "st_GetByTxID S (rcpt_TransactionID r) s' = Inr x"
  shows "x = Some r"
  using append_ok [OF assms(1,2)] getByTxID [OF _ assms(3)] by simp

lemma stays_readable:
  assumes "store_inv s" "st_Append S r s = (None, s')" "q \<in> set (receipts s)" "st_GetByID S (rcpt_ID q) s' = Inr x"
  shows "x = Some q"
proof -
  from append_ok [OF assms(1,2)] have inv: "store_inv s'" and q: "q \<in> set (receipts s')"
    using assms(3) by auto
  from distinct_keys [OF inv] have d: "distinct (map rcpt_ID (receipts s'))" by simp
  from q have "find (\<lambda>r. rcpt_ID r = rcpt_ID q) (receipts s') \<noteq> None"
    by (auto simp: find_None_iff)
  then obtain y where y: "find (\<lambda>r. rcpt_ID r = rcpt_ID q) (receipts s') = Some y" by auto
  then have "y \<in> set (receipts s')" "rcpt_ID y = rcpt_ID q" by (auto simp: find_Some_iff)
  with d q have "y = q" by (auto simp: distinct_map inj_on_def)
  with y getByID [OF inv assms(4)] show ?thesis by simp
qed

end

text \<open>
  A store that in addition never fails for other reasons than the two duplicate checks: this
  is what the in-memory store gives and a durable store gives while its medium works.
\<close>

locale reliable_store = receipt_store +
  assumes append_fresh: "store_inv s \<Longrightarrow> rcpt_ID r \<notin> rcpt_ID ` set (receipts s) \<Longrightarrow>
      rcpt_SeqNo r \<notin> rcpt_SeqNo ` set (receipts s) \<Longrightarrow> \<exists>s'. st_Append S r s = (None, s')"
    and last_total: "store_inv s \<Longrightarrow> \<exists>x. st_Last S s = Inr x"
    and getByTxID_total: "store_inv s \<Longrightarrow> \<exists>x. st_GetByTxID S tx s = Inr x"
    and range_total: "store_inv s \<Longrightarrow> \<exists>rs. st_ListRange S a b s = Inr rs"
begin

lemma append_ok_iff:
  "store_inv s \<Longrightarrow> (\<exists>s'. st_Append S r s = (None, s')) \<longleftrightarrow>
     rcpt_ID r \<notin> rcpt_ID ` set (receipts s) \<and> rcpt_SeqNo r \<notin> rcpt_SeqNo ` set (receipts s)"
  using append_ok [of s r] append_fresh [of s r] by blast

lemma last_eq:
  "store_inv s \<Longrightarrow> seq_sorted (receipts s) \<Longrightarrow>
     st_Last S s = Inr (if receipts s = [] then None else Some (List.last (receipts s)))"
  using last [of s] last_total [of s] by blast

lemma range_eq:
  "store_inv s \<Longrightarrow> seq_sorted (receipts s) \<Longrightarrow> st_ListRange S a b s = Inr (filter (in_range a b) (receipts s))"
  using range [of s a b] range_total [of s a b] by blast

end

section \<open>The memory store keeps the promise\<close>

definition memory_inv :: "MemoryStore \<Rightarrow> bool" where
  "memory_inv s \<longleftrightarrow>
     (\<forall>i. ms_byID s i = find (\<lambda>r. rcpt_ID r = i) (ms_receipts s)) \<and>
     (\<forall>t. ms_byTxID s t = find (\<lambda>r. rcpt_TransactionID r = t) (rev (ms_receipts s))) \<and>
     (\<forall>q. ms_bySeq s q = find (\<lambda>r. rcpt_SeqNo r = q) (ms_receipts s)) \<and>
     distinct (map rcpt_ID (ms_receipts s)) \<and> distinct (map rcpt_SeqNo (ms_receipts s))"

lemma memory_inv_New: "memory_inv NewMemoryStore"
  by (simp add: memory_inv_def NewMemoryStore_def)

lemma Memory_Append_eq:
  assumes "memory_inv s"
  shows "Memory_Append r s =
    (if rcpt_ID r \<in> rcpt_ID ` set (ms_receipts s) then (Some (DuplicateReceiptID (rcpt_ID r)), s)
     else if rcpt_SeqNo r \<in> rcpt_SeqNo ` set (ms_receipts s) then (Some (DuplicateSequence (rcpt_SeqNo r)), s)
     else (None, s\<lparr>ms_receipts := ms_receipts s @ [r], ms_byID := (ms_byID s)(rcpt_ID r \<mapsto> r),
       ms_byTxID := (ms_byTxID s)(rcpt_TransactionID r \<mapsto> r), ms_bySeq := (ms_bySeq s)(rcpt_SeqNo r \<mapsto> r)\<rparr>))"
proof -
  have "ms_byID s (rcpt_ID r) = None \<longleftrightarrow> rcpt_ID r \<notin> rcpt_ID ` set (ms_receipts s)"
    "ms_bySeq s (rcpt_SeqNo r) = None \<longleftrightarrow> rcpt_SeqNo r \<notin> rcpt_SeqNo ` set (ms_receipts s)"
    using assms by (simp_all add: memory_inv_def find_key_None_iff)
  then show ?thesis by (auto simp: Memory_Append_def split: option.splits)
qed

lemma Memory_Append_inv:
  assumes "memory_inv s" "Memory_Append r s = (None, s')"
  shows "memory_inv s'"
proof -
  from assms have f: "rcpt_ID r \<notin> rcpt_ID ` set (ms_receipts s)" "rcpt_SeqNo r \<notin> rcpt_SeqNo ` set (ms_receipts s)"
    and s': "s' = s\<lparr>ms_receipts := ms_receipts s @ [r], ms_byID := (ms_byID s)(rcpt_ID r \<mapsto> r),
       ms_byTxID := (ms_byTxID s)(rcpt_TransactionID r \<mapsto> r), ms_bySeq := (ms_bySeq s)(rcpt_SeqNo r \<mapsto> r)\<rparr>"
    by (auto simp: Memory_Append_eq split: if_splits)
  have k: "find (\<lambda>r. rcpt_ID r = rcpt_ID r') (ms_receipts s) = None" if "rcpt_ID r' = rcpt_ID r" for r'
    using f(1) that by (simp add: find_key_None_iff)
  have q: "find (\<lambda>r. rcpt_SeqNo r = rcpt_SeqNo r') (ms_receipts s) = None" if "rcpt_SeqNo r' = rcpt_SeqNo r" for r'
    using f(2) that by (simp add: find_key_None_iff)
  from assms(1) f k [of r] q [of r] show ?thesis
    unfolding memory_inv_def s' by (auto simp: find_snoc split: option.split)
qed

interpretation mem: reliable_store MemoryStoreOps memory_inv ms_receipts
proof unfold_locales
  fix s r s'
  assume i: "memory_inv s" and a: "st_Append MemoryStoreOps r s = (None, s')"
  then have a': "Memory_Append r s = (None, s')" by (simp add: MemoryStoreOps_def)
  with i show "memory_inv s' \<and> ms_receipts s' = ms_receipts s @ [r]
      \<and> rcpt_ID r \<notin> rcpt_ID ` set (ms_receipts s) \<and> rcpt_SeqNo r \<notin> rcpt_SeqNo ` set (ms_receipts s)"
    using Memory_Append_inv [OF i a'] by (auto simp: Memory_Append_eq split: if_splits)
qed (auto simp: MemoryStoreOps_def Memory_Append_eq Memory_GetByID_def Memory_GetByTxID_def Memory_List_def
    Memory_Count_def Memory_Last_def Memory_ListRange_def memory_inv_def in_range_def last_conv_nth
    split: if_splits intro!: filter_cong)


text \<open>The abstract store: a history that takes a receipt iff its identifier and sequence number are new.\<close>

definition history_append :: "ComplianceReceipt \<Rightarrow> ComplianceReceipt list \<Rightarrow> ComplianceReceipt list" where
  "history_append r h =
     (if rcpt_ID r \<in> rcpt_ID ` set h \<or> rcpt_SeqNo r \<in> rcpt_SeqNo ` set h then h else h @ [r])"

lemma Memory_Append_history:
  assumes "memory_inv s"
  shows "memory_inv (snd (Memory_Append r s)) \<and> ms_receipts (snd (Memory_Append r s)) = history_append r (ms_receipts s)"
proof (cases "fst (Memory_Append r s)")
  case None
  then have "Memory_Append r s = (None, snd (Memory_Append r s))" by (metis prod.collapse)
  from Memory_Append_inv [OF assms this] assms None show ?thesis
    by (auto simp: Memory_Append_eq history_append_def split: if_splits)
qed (use assms in \<open>auto simp: Memory_Append_eq history_append_def split: if_splits\<close>)

lemma Memory_Append_fold:
  "memory_inv s \<Longrightarrow>
     memory_inv (fold (\<lambda>r s. snd (Memory_Append r s)) rs s) \<and>
     ms_receipts (fold (\<lambda>r s. snd (Memory_Append r s)) rs s) = fold history_append rs (ms_receipts s)"
  by (induction rs arbitrary: s) (simp_all add: Memory_Append_history)

text \<open>
  C24. The in-memory receipt store refines an append-only history: after any sequence of appends
  to a new store, lookups by identifier answer from the receipts taken, a lookup by transaction
  answers with the latest receipt of that transaction, the count, the last receipt and range
  queries are those of the history, and no two receipts held share an identifier or a sequence
  number.
\<close>

theorem MemoryStore_refines_history:
  "let s = fold (\<lambda>r s. snd (Memory_Append r s)) rs NewMemoryStore; h = fold history_append rs []
   in Memory_List s = Inr h \<and> Memory_Count s = Inr (length h)
    \<and> Memory_GetByID i s = Inr (find (\<lambda>r. rcpt_ID r = i) h)
    \<and> Memory_GetByTxID t s = Inr (find (\<lambda>r. rcpt_TransactionID r = t) (rev h))
    \<and> Memory_Last s = Inr (if h = [] then None else Some (last h))
    \<and> Memory_ListRange a b s = Inr (filter (\<lambda>r. a \<le> rcpt_SeqNo r \<and> rcpt_SeqNo r \<le> b) h)
    \<and> distinct (map rcpt_ID h) \<and> distinct (map rcpt_SeqNo h)"
proof -
  define s where "s = fold (\<lambda>r s. snd (Memory_Append r s)) rs NewMemoryStore"
  from Memory_Append_fold [OF memory_inv_New, of rs]
  have i: "memory_inv s" and h: "ms_receipts s = fold history_append rs []"
    by (simp_all add: s_def NewMemoryStore_def)
  from i show ?thesis
    unfolding s_def [symmetric] h [symmetric] Let_def
    by (auto simp: Memory_List_def Memory_Count_def Memory_GetByID_def Memory_GetByTxID_def Memory_Last_def
        Memory_ListRange_def memory_inv_def last_conv_nth)
qed

end
