(* ===== verification/JP_Receipt.thy ===== *)
theory JP_Receipt
  imports JP_Store
begin

text \<open>
  The receipt generator and the signature check of \<^verbatim>\<open>internal/receipt/receipt.go\<close> (the key-file
  functions are in \<open>JP_KeyFile\<close>).  The identifier \<open>uuid.New()\<close> and the clock reading of a call are
  arguments.  The canonical JSON encodings of the two signing structs are functions of a record
  \<open>codec\<close> that may fail, as \<open>json.Marshal\<close> may (a year beyond 9999).  \<open>ed25519.Sign\<close> and
  \<open>ed25519.Verify\<close> panic on keys of the wrong length; the panics are error values here.
\<close>

section \<open>Types\<close>

type_synonym ISDProofProvider = "ASHop \<Rightarrow> string + ISDProof"
type_synonym ThresholdSigner = "bytes \<Rightarrow> ThresholdError + (ThresholdSignature list \<times> int \<times> int)"

record Generator =
  g_privateKey :: bytes
  g_publicKey :: bytes
  g_seqNo :: uint64
  g_lastHash :: "bytes option"
  g_proofs :: "ISDProofProvider option"
  g_threshold :: "ThresholdSigner option"

datatype IssueError =
    BuildingISDProof string string
  | MarshalingForSigning
  | SigningKeyPanic
  | ThresholdSigning ThresholdError
  | AppendError string StoreError

datatype VerifyError =
    MarshalingForVerification
  | MarshalingLegacyForVerification
  | VerifyKeyPanic

definition PrivateKeySize :: nat where
  "PrivateKeySize = 64"

section \<open>Construction and configuration\<close>

definition PlaceholderProofProvider :: ISDProofProvider where
  "PlaceholderProofProvider hop =
     Inr \<lparr>proof_IA = hop_IA hop, proof_ISD = hop_ISD hop, proof_TRCSerial = 0, proof_CertChain = [],
          proof_VerificationStatus = ''unverified'', proof_ProofSource = ''placeholder''\<rparr>"

definition NewGenerator :: "(bytes \<times> bytes) option \<Rightarrow> Generator option" where
  "NewGenerator genKey =
     (case genKey of
        None \<Rightarrow> None
      | Some (pub, priv) \<Rightarrow> Some \<lparr>g_privateKey = priv, g_publicKey = pub, g_seqNo = 0, g_lastHash = None,
                                  g_proofs = None, g_threshold = None\<rparr>)"

definition NewGeneratorWithKeys :: "bytes \<Rightarrow> bytes \<Rightarrow> Generator" where
  "NewGeneratorWithKeys priv pub =
     \<lparr>g_privateKey = priv, g_publicKey = pub, g_seqNo = 0, g_lastHash = None,
      g_proofs = Some PlaceholderProofProvider, g_threshold = None\<rparr>"

definition WithProofProvider :: "ISDProofProvider option \<Rightarrow> Generator \<Rightarrow> Generator" where
  "WithProofProvider provider g =
     g\<lparr>g_proofs := (case provider of None \<Rightarrow> Some PlaceholderProofProvider | Some p \<Rightarrow> Some p)\<rparr>"

definition WithThresholdSigner :: "ThresholdSigner option \<Rightarrow> Generator \<Rightarrow> Generator" where
  "WithThresholdSigner signer g = g\<lparr>g_threshold := signer\<rparr>"

section \<open>Signing payloads\<close>

record signable =
  sg_ID :: string
  sg_TransactionID :: string
  sg_PolicyID :: string
  sg_PathFP :: string
  sg_PathRaw :: bytes
  sg_EvidenceClass :: string
  sg_ProofStatus :: string
  sg_SeqNo :: uint64
  sg_Timestamp :: time
  sg_ISDProofs :: "ISDProof list"
  sg_PreviousHash :: "bytes option"

record legacySignable =
  lg_ID :: string
  lg_TransactionID :: string
  lg_PolicyID :: string
  lg_PathFP :: string
  lg_PathRaw :: bytes
  lg_SeqNo :: uint64
  lg_Timestamp :: time
  lg_ISDProofs :: "ISDProof list"
  lg_PreviousHash :: "bytes option"

record codec =
  js_signable :: "signable \<Rightarrow> bytes option"
  js_legacy :: "legacySignable \<Rightarrow> bytes option"

definition marshalForSigning :: "codec \<Rightarrow> ComplianceReceipt \<Rightarrow> bytes option" where
  "marshalForSigning J r =
     js_signable J \<lparr>sg_ID = rcpt_ID r, sg_TransactionID = rcpt_TransactionID r, sg_PolicyID = rcpt_PolicyID r,
       sg_PathFP = path_Fingerprint (rcpt_Path r), sg_PathRaw = path_Raw (rcpt_Path r),
       sg_EvidenceClass = NormalizeEvidenceClass (rcpt_EvidenceClass r),
       sg_ProofStatus = NormalizeProofStatus (rcpt_ProofStatus r),
       sg_SeqNo = rcpt_SeqNo r, sg_Timestamp = rcpt_Timestamp r, sg_ISDProofs = rcpt_ISDProofs r,
       sg_PreviousHash = rcpt_PreviousHash r\<rparr>"

definition SigningPayload :: "codec \<Rightarrow> ComplianceReceipt \<Rightarrow> bytes option" where
  "SigningPayload J r = marshalForSigning J r"

definition isLegacySigningPayloadCandidate :: "ComplianceReceipt \<Rightarrow> bool" where
  "isLegacySigningPayloadCandidate r \<longleftrightarrow> rcpt_EvidenceClass r = '''' \<and> rcpt_ProofStatus r = ''''"

definition marshalLegacyForSigning :: "codec \<Rightarrow> ComplianceReceipt \<Rightarrow> bytes option" where
  "marshalLegacyForSigning J r =
     js_legacy J \<lparr>lg_ID = rcpt_ID r, lg_TransactionID = rcpt_TransactionID r, lg_PolicyID = rcpt_PolicyID r,
       lg_PathFP = path_Fingerprint (rcpt_Path r), lg_PathRaw = path_Raw (rcpt_Path r),
       lg_SeqNo = rcpt_SeqNo r, lg_Timestamp = rcpt_Timestamp r, lg_ISDProofs = rcpt_ISDProofs r,
       lg_PreviousHash = rcpt_PreviousHash r\<rparr>"

section \<open>Verification\<close>

definition Verify :: "prims \<Rightarrow> codec \<Rightarrow> ComplianceReceipt \<Rightarrow> VerifyError + bool" where
  "Verify P J r =
     (case marshalForSigning J r of
        None \<Rightarrow> Inl MarshalingForVerification
      | Some payload \<Rightarrow>
          if length (rcpt_OraclePublicKey r) \<noteq> PublicKeySize then Inl VerifyKeyPanic
          else if ed_verify P (rcpt_OraclePublicKey r) payload (rcpt_Signature r) then Inr True
          else if \<not> isLegacySigningPayloadCandidate r then Inr False
          else (case marshalLegacyForSigning J r of
                  None \<Rightarrow> Inl MarshalingLegacyForVerification
                | Some payload' \<Rightarrow> Inr (ed_verify P (rcpt_OraclePublicKey r) payload' (rcpt_Signature r))))"

section \<open>Issuing\<close>

fun aggregateLoop :: "string \<Rightarrow> ISDProof list \<Rightarrow> string" where
  "aggregateLoop status [] = status"
| "aggregateLoop status (p # ps) =
     (let current = NormalizeProofStatus (proof_VerificationStatus p)
      in if status = '''' then aggregateLoop current ps
         else if current \<noteq> status then ProofStatusMixed
         else aggregateLoop status ps)"

definition aggregateProofStatus :: "ISDProof list \<Rightarrow> string" where
  "aggregateProofStatus proofs = (if length proofs = 0 then ProofStatusUnverified else aggregateLoop '''' proofs)"

text \<open>The generator is returned too: a nil proof provider is replaced for good by the first call.\<close>

definition defaultProofs :: "Generator \<Rightarrow> Generator" where
  "defaultProofs g = (case g_proofs g of None \<Rightarrow> g\<lparr>g_proofs := Some PlaceholderProofProvider\<rparr> | Some _ \<Rightarrow> g)"

definition unsignedReceipt ::
  "string \<Rightarrow> time \<Rightarrow> string \<Rightarrow> string \<Rightarrow> SCIONPath \<Rightarrow> ISDProof list \<Rightarrow> Generator \<Rightarrow> ComplianceReceipt" where
  "unsignedReceipt uid now txID policyID path proofs g =
     \<lparr>rcpt_ID = uid, rcpt_TransactionID = txID, rcpt_PolicyID = policyID, rcpt_Path = path,
      rcpt_EvidenceClass = NormalizeEvidenceClass (path_EvidenceClass path),
      rcpt_ProofStatus = aggregateProofStatus proofs, rcpt_ISDProofs = proofs,
      rcpt_SeqNo = g_seqNo g + 1, rcpt_Timestamp = now, rcpt_Signature = [],
      rcpt_OraclePublicKey = g_publicKey g, rcpt_PreviousHash = g_lastHash g,
      rcpt_ThresholdK = 0, rcpt_ThresholdN = 0, rcpt_ThresholdSignatures = []\<rparr>"

definition buildReceiptLocked ::
  "prims \<Rightarrow> codec \<Rightarrow> string \<Rightarrow> time \<Rightarrow> string \<Rightarrow> string \<Rightarrow> SCIONPath \<Rightarrow> Generator
   \<Rightarrow> (IssueError + (ComplianceReceipt \<times> bytes)) \<times> Generator" where
  "buildReceiptLocked P J uid now txID policyID path g0 =
     (let g = defaultProofs g0 in
      (case mapErr (\<lambda>hop. case the (g_proofs g) hop of
                             Inl e \<Rightarrow> Inl (BuildingISDProof (hop_IA hop) e)
                           | Inr proof \<Rightarrow> Inr proof) (path_Hops path) of
         Inl e \<Rightarrow> Inl e
       | Inr proofs \<Rightarrow>
          (let r = unsignedReceipt uid now txID policyID path proofs g in
           case marshalForSigning J r of
             None \<Rightarrow> Inl MarshalingForSigning
           | Some payload \<Rightarrow>
               if length (g_privateKey g) \<noteq> PrivateKeySize then Inl SigningKeyPanic
               else
                 let sig = ed_sign P (g_privateKey g) payload; r1 = r\<lparr>rcpt_Signature := sig\<rparr> in
                 case g_threshold g of
                   None \<Rightarrow> Inr (r1, sha256 P sig)
                 | Some signThreshold \<Rightarrow>
                    (case signThreshold payload of
                       Inl e \<Rightarrow> Inl (ThresholdSigning e)
                     | Inr (signatures, k, n) \<Rightarrow>
                         Inr (r1\<lparr>rcpt_ThresholdK := k, rcpt_ThresholdN := n,
                                 rcpt_ThresholdSignatures := signatures\<rparr>, sha256 P sig))),
       g))"

definition Issue ::
  "prims \<Rightarrow> codec \<Rightarrow> string \<Rightarrow> time \<Rightarrow> string \<Rightarrow> string \<Rightarrow> SCIONPath \<Rightarrow> Generator
   \<Rightarrow> (IssueError + ComplianceReceipt) \<times> Generator" where
  "Issue P J uid now txID policyID path g0 =
     (case buildReceiptLocked P J uid now txID policyID path g0 of
        (Inl e, g) \<Rightarrow> (Inl e, g)
      | (Inr (r, lastHash), g) \<Rightarrow> (Inr r, g\<lparr>g_seqNo := rcpt_SeqNo r, g_lastHash := Some lastHash\<rparr>))"

definition IssueAndAppend ::
  "prims \<Rightarrow> codec \<Rightarrow> 's Store \<Rightarrow> string \<Rightarrow> time \<Rightarrow> string \<Rightarrow> string \<Rightarrow> SCIONPath \<Rightarrow> Generator \<times> 's
   \<Rightarrow> (IssueError + ComplianceReceipt) \<times> Generator \<times> 's" where
  "IssueAndAppend P J S uid now txID policyID path gs =
     (case buildReceiptLocked P J uid now txID policyID path (fst gs) of
        (Inl e, g) \<Rightarrow> (Inl e, g, snd gs)
      | (Inr (r, lastHash), g) \<Rightarrow>
          (case st_Append S r (snd gs) of
             (Some e, s) \<Rightarrow> (Inl (AppendError (rcpt_ID r) e), g, s)
           | (None, s) \<Rightarrow> (Inr r, g\<lparr>g_seqNo := rcpt_SeqNo r, g_lastHash := Some lastHash\<rparr>, s)))"

definition SeedChain :: "prims \<Rightarrow> 's Store \<Rightarrow> 's \<Rightarrow> Generator \<Rightarrow> StoreError option \<times> Generator" where
  "SeedChain P S s g =
     (case st_Last S s of
        Inl e \<Rightarrow> (Some e, g)
      | Inr None \<Rightarrow> (None, g)
      | Inr (Some lst) \<Rightarrow>
          let g' = g\<lparr>g_seqNo := rcpt_SeqNo lst\<rparr> in
          if rcpt_OraclePublicKey lst \<noteq> g_publicKey g then (None, g')
          else (None, g'\<lparr>g_lastHash := Some (sha256 P (rcpt_Signature lst))\<rparr>))"

definition PublicKey :: "Generator \<Rightarrow> bytes" where
  "PublicKey g = g_publicKey g"

section \<open>What an issued receipt contains\<close>

lemma defaultProofs_frame [simp]:
  "g_privateKey (defaultProofs g) = g_privateKey g" "g_publicKey (defaultProofs g) = g_publicKey g"
  "g_seqNo (defaultProofs g) = g_seqNo g" "g_lastHash (defaultProofs g) = g_lastHash g"
  "g_threshold (defaultProofs g) = g_threshold g"
  by (simp_all add: defaultProofs_def split: option.split)

lemma marshalForSigning_ignores [simp]:
  "marshalForSigning J (r\<lparr>rcpt_Signature := sig\<rparr>) = marshalForSigning J r"
  "marshalForSigning J (r\<lparr>rcpt_ThresholdK := k\<rparr>) = marshalForSigning J r"
  "marshalForSigning J (r\<lparr>rcpt_ThresholdN := n\<rparr>) = marshalForSigning J r"
  "marshalForSigning J (r\<lparr>rcpt_ThresholdSignatures := sigs\<rparr>) = marshalForSigning J r"
  by (simp_all add: marshalForSigning_def)

lemma buildReceiptLocked_gen [simp]:
  "snd (buildReceiptLocked P J uid now tx pol path g) = defaultProofs g"
  by (simp add: buildReceiptLocked_def Let_def)

definition issued_by ::
  "prims \<Rightarrow> codec \<Rightarrow> Generator \<Rightarrow> string \<Rightarrow> time \<Rightarrow> string \<Rightarrow> string \<Rightarrow> SCIONPath \<Rightarrow> ComplianceReceipt \<Rightarrow> bool" where
  "issued_by P J g uid now tx pol path r \<longleftrightarrow>
     rcpt_ID r = uid \<and> rcpt_TransactionID r = tx \<and> rcpt_PolicyID r = pol \<and> rcpt_Path r = path \<and>
     rcpt_Timestamp r = now \<and> rcpt_SeqNo r = g_seqNo g + 1 \<and> rcpt_PreviousHash r = g_lastHash g \<and>
     rcpt_OraclePublicKey r = g_publicKey g \<and>
     rcpt_EvidenceClass r = NormalizeEvidenceClass (path_EvidenceClass path) \<and>
     rcpt_ProofStatus r = aggregateProofStatus (rcpt_ISDProofs r) \<and>
     list_all2 (\<lambda>hop proof. the (g_proofs (defaultProofs g)) hop = Inr proof) (path_Hops path) (rcpt_ISDProofs r) \<and>
     length (g_privateKey g) = PrivateKeySize \<and>
     (\<exists>payload. marshalForSigning J r = Some payload \<and> rcpt_Signature r = ed_sign P (g_privateKey g) payload \<and>
        (case g_threshold g of
           None \<Rightarrow> rcpt_ThresholdK r = 0 \<and> rcpt_ThresholdN r = 0 \<and> rcpt_ThresholdSignatures r = []
         | Some sign \<Rightarrow> sign payload = Inr (rcpt_ThresholdSignatures r, rcpt_ThresholdK r, rcpt_ThresholdN r)))"

lemma proofs_loop:
  assumes "mapErr (\<lambda>hop. case f hop of Inl e \<Rightarrow> Inl (k hop e) | Inr proof \<Rightarrow> Inr proof) hops = Inr proofs"
  shows "list_all2 (\<lambda>hop proof. f hop = Inr proof) hops proofs"
proof -
  from assms have "list_all2 (\<lambda>hop proof. (case f hop of Inl e \<Rightarrow> Inl (k hop e) | Inr proof \<Rightarrow> Inr proof) = Inr proof) hops proofs"
    by (simp add: mapErr_Inr_iff)
  then show ?thesis by (rule list_all2_mono) (simp split: sum.splits)
qed

lemma buildReceiptLocked_Inr:
  assumes "buildReceiptLocked P J uid now tx pol path g0 = (Inr (r, h), g)"
  shows "issued_by P J g0 uid now tx pol path r \<and> h = sha256 P (rcpt_Signature r) \<and> g = defaultProofs g0"
proof -
  let ?g = "defaultProofs g0"
  let ?loop = "mapErr (\<lambda>hop. case the (g_proofs ?g) hop of
     Inl e \<Rightarrow> Inl (BuildingISDProof (hop_IA hop) e) | Inr proof \<Rightarrow> Inr proof) (path_Hops path)"
  obtain proofs where l: "?loop = Inr proofs"
    using assms by (cases ?loop) (auto simp: buildReceiptLocked_def Let_def)
  let ?r = "unsignedReceipt uid now tx pol path proofs ?g"
  obtain payload where m: "marshalForSigning J ?r = Some payload"
    using assms l by (cases "marshalForSigning J ?r") (auto simp: buildReceiptLocked_def Let_def)
  let ?sig = "ed_sign P (g_privateKey g0) payload"
  from assms have g: "g = ?g" by (metis buildReceiptLocked_gen snd_conv)
  have len: "length (g_privateKey g0) = PrivateKeySize"
    using assms l m by (auto simp: buildReceiptLocked_def Let_def split: if_splits)
  show ?thesis
  proof (cases "g_threshold g0")
    case None
    with assms l m len have "r = ?r\<lparr>rcpt_Signature := ?sig\<rparr>" "h = sha256 P ?sig"
      by (auto simp: buildReceiptLocked_def Let_def)
    with None m len g proofs_loop [OF l] show ?thesis
      by (simp add: issued_by_def) (simp add: unsignedReceipt_def)
  next
    case (Some sign)
    with assms l m len obtain sigs k n where t: "sign payload = Inr (sigs, k, n)"
      and r: "r = ?r\<lparr>rcpt_Signature := ?sig, rcpt_ThresholdK := k, rcpt_ThresholdN := n, rcpt_ThresholdSignatures := sigs\<rparr>"
      and h: "h = sha256 P ?sig"
      by (auto simp: buildReceiptLocked_def Let_def split: sum.splits)
    with Some m len g proofs_loop [OF l] show ?thesis
      by (simp add: issued_by_def) (simp add: unsignedReceipt_def)
  qed
qed

lemma issued_by_verifies:
  assumes "issued_by P J g uid now tx pol path r" "ed25519_correct P" "g_publicKey g = ed_public P (g_privateKey g)"
  shows "Verify P J r = Inr True"
  using assms by (auto simp: issued_by_def Verify_def ed25519_correct_def)

lemma Issue_cases:
  obtains (ok) r where "Issue P J uid now tx pol path g =
      (Inr r, (defaultProofs g)\<lparr>g_seqNo := g_seqNo g + 1, g_lastHash := Some (sha256 P (rcpt_Signature r))\<rparr>)"
      "issued_by P J g uid now tx pol path r"
  | (err) e where "Issue P J uid now tx pol path g = (Inl e, defaultProofs g)"
proof (cases "buildReceiptLocked P J uid now tx pol path g")
  case (Pair x g')
  then have g': "g' = defaultProofs g" by (metis buildReceiptLocked_gen snd_conv)
  show thesis
  proof (cases x)
    case (Inl e)
    with Pair g' err [of e] show thesis by (simp add: Issue_def)
  next
    case (Inr rh)
    obtain r h where rh: "rh = (r, h)" by (cases rh)
    from buildReceiptLocked_Inr [of P J uid now tx pol path g r h g'] Pair Inr rh
    have *: "issued_by P J g uid now tx pol path r" "h = sha256 P (rcpt_Signature r)" by simp_all
    then have "rcpt_SeqNo r = g_seqNo g + 1" by (simp add: issued_by_def)
    with Pair Inr rh * g' ok [of r] show thesis by (simp add: Issue_def)
  qed
qed

lemma Issue_issued: "Issue P J uid now tx pol path g = (Inr r, g') \<Longrightarrow> issued_by P J g uid now tx pol path r"
  by (cases rule: Issue_cases [of P J uid now tx pol path g]) auto

section \<open>Proof status\<close>

lemma aggregateLoop_eq:
  "status \<noteq> '''' \<Longrightarrow> aggregateLoop status ps =
     (if \<forall>p\<in>set ps. NormalizeProofStatus (proof_VerificationStatus p) = status then status else ProofStatusMixed)"
  by (induction ps) (auto simp: Let_def)

text \<open>
  The proof status of a receipt is exact: it is the common status of all its hop proofs (an
  empty one counting as unverified), mixed when they differ, and unverified when there are none;
  so a receipt says verified precisely when it has a proof and every one of its proofs is verified.
\<close>

theorem aggregateProofStatus_exact:
  "(aggregateProofStatus proofs = ProofStatusVerified \<longleftrightarrow>
      proofs \<noteq> [] \<and> list_all (\<lambda>p. proof_VerificationStatus p = ProofStatusVerified) proofs)
   \<and> aggregateProofStatus proofs =
      (case map (NormalizeProofStatus \<circ> proof_VerificationStatus) proofs of
         [] \<Rightarrow> ProofStatusUnverified
       | st # sts \<Rightarrow> if list_all (\<lambda>x. x = st) sts then st else ProofStatusMixed)"
proof (cases proofs)
  case Nil
  then show ?thesis
    by (simp add: aggregateProofStatus_def ProofStatusUnverified_def ProofStatusVerified_def)
next
  case (Cons p ps)
  let ?st = "NormalizeProofStatus (proof_VerificationStatus p)"
  have *: "aggregateProofStatus proofs =
    (if \<forall>q\<in>set ps. NormalizeProofStatus (proof_VerificationStatus q) = ?st then ?st else ProofStatusMixed)"
    using Cons by (simp add: aggregateProofStatus_def aggregateLoop_eq Let_def)
  have v: "NormalizeProofStatus x = ProofStatusVerified \<longleftrightarrow> x = ProofStatusVerified" for x
    by (simp add: NormalizeProofStatus_def ProofStatusVerified_def ProofStatusUnverified_def)
  have "ProofStatusMixed \<noteq> ProofStatusVerified"
    by (simp add: ProofStatusMixed_def ProofStatusVerified_def)
  moreover have nv: "NormalizeProofStatus ProofStatusVerified = ProofStatusVerified" by (simp add: v)
  ultimately show ?thesis using * Cons by (auto simp: list_all_iff v nv)
qed

section \<open>The receipt chain in a store\<close>

text \<open>
  The state a generator and a store are in together: the store's history carries the sequence
  numbers 1, 2, ..., every receipt after the first points to its predecessor's signature and
  verifies, and the generator is positioned right after the last one.
\<close>

definition chained :: "prims \<Rightarrow> codec \<Rightarrow> bytes set \<Rightarrow> ComplianceReceipt list \<Rightarrow> bool" where
  "chained P J keys rs \<longleftrightarrow>
     (\<forall>i < length rs. rcpt_SeqNo (rs ! i) = word_of_nat (Suc i) \<and> Verify P J (rs ! i) = Inr True \<and>
        rcpt_OraclePublicKey (rs ! i) \<in> keys \<and>
        rcpt_PreviousHash (rs ! i) = (if i = 0 then None else Some (sha256 P (rcpt_Signature (rs ! (i - 1))))))"

definition positioned :: "prims \<Rightarrow> bytes set \<Rightarrow> Generator \<Rightarrow> ComplianceReceipt list \<Rightarrow> bool" where
  "positioned P keys g rs \<longleftrightarrow>
     g_publicKey g = ed_public P (g_privateKey g) \<and> ed_public P (g_privateKey g) \<in> keys \<and> g_seqNo g = word_of_nat (length rs) \<and>
     g_lastHash g = (if rs = [] then None else Some (sha256 P (rcpt_Signature (last rs))))"

lemma chained_snoc:
  assumes "chained P J keys rs" "positioned P keys g rs" "ed25519_correct P"
    and "issued_by P J g uid now tx pol path r"
  shows "chained P J keys (rs @ [r])"
proof -
  from assms have "Verify P J r = Inr True"
    by (auto intro: issued_by_verifies simp: positioned_def)
  with assms show ?thesis
    unfolding chained_def
    by (auto simp: nth_append issued_by_def positioned_def last_conv_nth less_Suc_eq)
qed

lemma positioned_snoc:
  assumes "positioned P keys g rs" "issued_by P J g uid now tx pol path r"
  shows "positioned P keys (g'\<lparr>g_privateKey := g_privateKey g, g_publicKey := g_publicKey g, g_seqNo := g_seqNo g + 1,
     g_lastHash := Some (sha256 P (rcpt_Signature r))\<rparr>) (rs @ [r])"
  using assms by (simp add: positioned_def add.commute)

lemma chained_sorted:
  assumes "chained P J keys rs" "length rs < 2 ^ 64"
  shows "seq_sorted rs"
proof -
  have "rcpt_SeqNo (rs ! i) < rcpt_SeqNo (rs ! j)" if "i < j" "j < length rs" for i j
  proof -
    from assms(1) that have s: "rcpt_SeqNo (rs ! i) = word_of_nat (Suc i)" "rcpt_SeqNo (rs ! j) = word_of_nat (Suc j)"
      unfolding chained_def by auto
    have "unat (word_of_nat (Suc i) :: 64 word) = Suc i" "unat (word_of_nat (Suc j) :: 64 word) = Suc j"
      using assms(2) that by (simp_all add: unat_of_nat del: of_nat_Suc)
    with s that show ?thesis by (simp add: word_less_nat_alt)
  qed
  then show ?thesis by (simp add: seq_sorted_def sorted_wrt_iff_nth_less)
qed

lemma chained_last:
  assumes "chained P J keys rs" "rs \<noteq> []"
  shows "rcpt_SeqNo (last rs) = word_of_nat (length rs)"
proof -
  from assms(2) have "length rs - 1 < length rs" "Suc (length rs - 1) = length rs" by auto
  with assms show ?thesis by (metis chained_def last_conv_nth)
qed

context receipt_store
begin

lemma IssueAndAppend_cases:
  assumes "store_inv s"
  obtains (ok) r s' where "IssueAndAppend P J S uid now tx pol path (g, s) =
      (Inr r, (defaultProofs g)\<lparr>g_seqNo := g_seqNo g + 1, g_lastHash := Some (sha256 P (rcpt_Signature r))\<rparr>, s')"
      "issued_by P J g uid now tx pol path r" "store_inv s'" "receipts s' = receipts s @ [r]"
      "st_Append S r s = (None, s')"
  | (err) e where "IssueAndAppend P J S uid now tx pol path (g, s) = (Inl e, defaultProofs g, s)"
proof (cases "buildReceiptLocked P J uid now tx pol path g")
  case (Pair x g')
  then have g': "g' = defaultProofs g" by (metis buildReceiptLocked_gen snd_conv)
  show thesis
  proof (cases x)
    case (Inl e)
    with Pair g' err [of e] show thesis by (simp add: IssueAndAppend_def)
  next
    case (Inr rh)
    obtain r h where rh: "rh = (r, h)" by (cases rh)
    from buildReceiptLocked_Inr [of P J uid now tx pol path g r h g'] Pair Inr rh
    have *: "issued_by P J g uid now tx pol path r" "h = sha256 P (rcpt_Signature r)" by simp_all
    then have sq: "rcpt_SeqNo r = g_seqNo g + 1" by (simp add: issued_by_def)
    show thesis
    proof (rule append_cases [OF assms, of r])
      fix s'
      assume "st_Append S r s = (None, s')" "store_inv s'" "receipts s' = receipts s @ [r]"
      with Pair Inr rh * sq g' ok [of r s'] show thesis by (simp add: IssueAndAppend_def)
    next
      fix e
      assume "st_Append S r s = (Some e, s)"
      with Pair Inr rh g' err [of "AppendError (rcpt_ID r) e"] show thesis by (simp add: IssueAndAppend_def)
    qed
  qed
qed

lemma IssueAndAppend_keeps_chain:
  assumes "store_inv s" "chained P J keys (receipts s)" "positioned P keys g (receipts s)" "ed25519_correct P"
    and "IssueAndAppend P J S uid now tx pol path (g, s) = (res, g', s')"
  shows "store_inv s' \<and> chained P J keys (receipts s') \<and> positioned P keys g' (receipts s')"
proof (rule IssueAndAppend_cases [OF assms(1), of P J uid now tx pol path g])
  fix r s''
  assume *: "IssueAndAppend P J S uid now tx pol path (g, s) =
      (Inr r, (defaultProofs g)\<lparr>g_seqNo := g_seqNo g + 1, g_lastHash := Some (sha256 P (rcpt_Signature r))\<rparr>, s'')"
      "issued_by P J g uid now tx pol path r" "store_inv s''" "receipts s'' = receipts s @ [r]"
  with assms have g': "g' = (defaultProofs g)\<lparr>g_seqNo := g_seqNo g + 1, g_lastHash := Some (sha256 P (rcpt_Signature r))\<rparr>"
    and s': "s' = s''" by simp_all
  have "positioned P keys g' (receipts s')"
    using positioned_snoc [OF assms(3) *(2), of "defaultProofs g"] * g' s'
    by (simp add: positioned_def)
  with * s' chained_snoc [OF assms(2-4) *(2)] show ?thesis by simp
next
  fix e
  assume "IssueAndAppend P J S uid now tx pol path (g, s) = (Inl e, defaultProofs g, s)"
  with assms(5) have "g' = defaultProofs g" "s' = s" by simp_all
  with assms(1-3) show ?thesis by (simp add: positioned_def)
qed

lemma SeedChain_same_key:
  assumes "store_inv s" "chained P J keys (receipts s)" "length (receipts s) < 2 ^ 64"
    and "positioned P keys g0 []"
    and "receipts s = [] \<or> rcpt_OraclePublicKey (List.last (receipts s)) = g_publicKey g0"
    and "SeedChain P S s g0 = (None, g)"
  shows "positioned P keys g (receipts s) \<and> g_threshold g = g_threshold g0"
proof -
  from chained_sorted [OF assms(2,3)] have srt: "seq_sorted (receipts s)" .
  from assms(6) obtain x where x: "st_Last S s = Inr x"
    by (auto simp: SeedChain_def split: sum.splits)
  from last [OF assms(1) srt x] have xl: "x = (if receipts s = [] then None else Some (List.last (receipts s)))" .
  show ?thesis
  proof (cases "receipts s = []")
    case True
    with x xl assms show ?thesis by (auto simp: SeedChain_def positioned_def)
  next
    case False
    with chained_last [OF assms(2)] False x xl assms show ?thesis
      by (auto simp: SeedChain_def positioned_def Let_def)
  qed
qed

end

section \<open>Issuing on the memory store\<close>

text \<open>
  C26. Issuing and checking agree: a receipt that \<open>Issue\<close> returns verifies; it carries the next
  sequence number, the hash of the previous receipt's signature, the oracle's key and exactly one
  proof per hop of its path, made by the configured provider; and the generator moves on to its
  sequence number and signature hash while its keys stay.
\<close>

theorem Issue_verifies:
  assumes "Issue P J uid now tx pol path g = (Inr r, g')"
    and "ed25519_correct P" and "g_publicKey g = ed_public P (g_privateKey g)"
  shows "Verify P J r = Inr True \<and> rcpt_ID r = uid \<and> rcpt_TransactionID r = tx \<and> rcpt_PolicyID r = pol
    \<and> rcpt_Path r = path \<and> rcpt_Timestamp r = now
    \<and> rcpt_SeqNo r = g_seqNo g + 1 \<and> rcpt_PreviousHash r = g_lastHash g \<and> rcpt_OraclePublicKey r = g_publicKey g
    \<and> list_all2 (\<lambda>hop proof. the (g_proofs g') hop = Inr proof) (path_Hops path) (rcpt_ISDProofs r)
    \<and> g_seqNo g' = rcpt_SeqNo r \<and> g_lastHash g' = Some (sha256 P (rcpt_Signature r))
    \<and> g_privateKey g' = g_privateKey g \<and> g_publicKey g' = g_publicKey g"
proof (rule Issue_cases [of P J uid now tx pol path g])
  fix q
  assume *: "Issue P J uid now tx pol path g =
      (Inr q, (defaultProofs g)\<lparr>g_seqNo := g_seqNo g + 1, g_lastHash := Some (sha256 P (rcpt_Signature q))\<rparr>)"
    "issued_by P J g uid now tx pol path q"
  with assms(1) have [simp]: "q = r" "g' = (defaultProofs g)\<lparr>g_seqNo := g_seqNo g + 1, g_lastHash := Some (sha256 P (rcpt_Signature r))\<rparr>"
    by auto
  from issued_by_verifies [OF *(2) assms(2,3)] *(2) show ?thesis
    by (simp add: issued_by_def)
qed (use assms in simp)

definition toy_codec :: codec where
  "toy_codec = \<lparr>js_signable = (\<lambda>x. Some (bytes_of_string (sg_ID x))), js_legacy = (\<lambda>x. Some (bytes_of_string (lg_ID x)))\<rparr>"

definition toy_gen :: Generator where
  "toy_gen = NewGeneratorWithKeys (replicate 64 1) (ed_public toy_ed (replicate 64 1))"

lemma toy_Issue:
  "\<exists>r g'. Issue toy_ed toy_codec ''id1'' 5 ''tx1'' ''pol'' (path_of [ch_hop, eu_hop] ''fp'') toy_gen = (Inr r, g')"
proof -
  have "\<exists>r h. buildReceiptLocked toy_ed toy_codec ''id1'' 5 ''tx1'' ''pol'' (path_of [ch_hop, eu_hop] ''fp'') toy_gen
    = (Inr (r, h), defaultProofs toy_gen)"
    by (simp add: buildReceiptLocked_def toy_gen_def NewGeneratorWithKeys_def defaultProofs_def path_of_def
        PlaceholderProofProvider_def toy_codec_def marshalForSigning_def PrivateKeySize_def Let_def)
  then show ?thesis by (auto simp: Issue_def)
qed

theorem Issue_verifies_witness:
  "\<exists>r g'. Issue toy_ed toy_codec ''id1'' 5 ''tx1'' ''pol'' (path_of [ch_hop, eu_hop] ''fp'') toy_gen = (Inr r, g')
     \<and> Verify toy_ed toy_codec r = Inr True \<and> rcpt_SeqNo r = 1 \<and> g_seqNo g' = 1"
proof -
  from toy_Issue obtain r g' where
    i: "Issue toy_ed toy_codec ''id1'' 5 ''tx1'' ''pol'' (path_of [ch_hop, eu_hop] ''fp'') toy_gen = (Inr r, g')"
    by blast
  have k: "g_publicKey toy_gen = ed_public toy_ed (g_privateKey toy_gen)" "g_seqNo toy_gen = 0"
    by (simp_all add: toy_gen_def NewGeneratorWithKeys_def)
  from Issue_verifies [OF i toy_ed_correct k(1)] i k(2) show ?thesis by auto
qed

text \<open>
  C25. Issuing and persisting is all or nothing: if \<open>IssueAndAppend\<close> fails, for whatever reason,
  the store and the generator's keys, sequence number and chain hash are what they were; if it
  succeeds, the receipt returned is the one new receipt of the store, found there by transaction
  and by identifier, and the generator has advanced to it.
\<close>

theorem IssueAndAppend_all_or_nothing:
  assumes "memory_inv s"
    and "IssueAndAppend P J MemoryStoreOps uid now tx pol path (g, s) = (res, g', s')"
  shows "g_privateKey g' = g_privateKey g \<and> g_publicKey g' = g_publicKey g \<and>
    (case res of
       Inl e \<Rightarrow> s' = s \<and> g_seqNo g' = g_seqNo g \<and> g_lastHash g' = g_lastHash g
     | Inr r \<Rightarrow> ms_receipts s' = ms_receipts s @ [r] \<and> rcpt_TransactionID r = tx
         \<and> Memory_GetByTxID tx s' = Inr (Some r) \<and> Memory_GetByID uid s' = Inr (Some r)
         \<and> rcpt_SeqNo r = g_seqNo g + 1 \<and> g_seqNo g' = rcpt_SeqNo r
         \<and> g_lastHash g' = Some (sha256 P (rcpt_Signature r)))"
proof (rule mem.IssueAndAppend_cases [OF assms(1), of P J uid now tx pol path g])
  fix r s''
  assume *: "IssueAndAppend P J MemoryStoreOps uid now tx pol path (g, s) =
      (Inr r, (defaultProofs g)\<lparr>g_seqNo := g_seqNo g + 1, g_lastHash := Some (sha256 P (rcpt_Signature r))\<rparr>, s'')"
    "issued_by P J g uid now tx pol path r" "ms_receipts s'' = ms_receipts s @ [r]"
    "st_Append MemoryStoreOps r s = (None, s'')"
  from *(1) assms(2) have e: "res = Inr r" "s' = s''"
    "g' = (defaultProofs g)\<lparr>g_seqNo := g_seqNo g + 1, g_lastHash := Some (sha256 P (rcpt_Signature r))\<rparr>"
    by simp_all
  from *(2) have f: "rcpt_ID r = uid" "rcpt_TransactionID r = tx" "rcpt_SeqNo r = g_seqNo g + 1"
    by (simp_all add: issued_by_def)
  have "Memory_GetByID uid s' = Inr (Some r)" "Memory_GetByTxID tx s' = Inr (Some r)"
    using mem.append_then_getByID [OF assms(1) *(4)] mem.append_then_getByTxID [OF assms(1) *(4)] f e
    by (simp_all add: MemoryStoreOps_def Memory_GetByID_def Memory_GetByTxID_def)
  with e f *(3) show ?thesis by simp
next
  fix e
  assume "IssueAndAppend P J MemoryStoreOps uid now tx pol path (g, s) = (Inl e, defaultProofs g, s)"
  with assms(2) have "res = Inl e" "g' = defaultProofs g" "s' = s" by simp_all
  then show ?thesis by simp
qed

theorem IssueAndAppend_all_or_nothing_witness:
  "\<exists>res g' s'. IssueAndAppend toy_ed toy_codec MemoryStoreOps ''id1'' 5 ''tx1'' ''pol'' (path_of [ch_hop] ''fp'')
       (toy_gen\<lparr>g_privateKey := []\<rparr>, NewMemoryStore) = (res, g', s')
     \<and> (\<exists>e. res = Inl e) \<and> s' = NewMemoryStore \<and> g_seqNo g' = 0"
proof -
  let ?run = "IssueAndAppend toy_ed toy_codec MemoryStoreOps ''id1'' 5 ''tx1'' ''pol'' (path_of [ch_hop] ''fp'')
       (toy_gen\<lparr>g_privateKey := []\<rparr>, NewMemoryStore)"
  obtain res g' s' where r: "?run = (res, g', s')" by (cases ?run)
  have e: "\<exists>e. res = Inl e"
    using r by (auto simp: IssueAndAppend_def buildReceiptLocked_def toy_gen_def NewGeneratorWithKeys_def defaultProofs_def
        path_of_def PlaceholderProofProvider_def toy_codec_def marshalForSigning_def PrivateKeySize_def Let_def)
  have "g_seqNo (toy_gen\<lparr>g_privateKey := []\<rparr>) = 0" by (simp add: toy_gen_def NewGeneratorWithKeys_def)
  with IssueAndAppend_all_or_nothing [OF memory_inv_New r] e r show ?thesis by auto
qed

end
