(* ===== verification/JP_KeyFile.thy ===== *)
theory JP_KeyFile
  imports JP_Receipt
begin

text \<open>
  The oracle key file: loading, creation and rotation (\<^verbatim>\<open>internal/receipt/receipt.go\<close>).  The file
  system is a map from paths to contents; which of the operating system calls of one invocation
  fail is the argument \<open>F\<close>, so every error path of the code is a branch here.  The temporary file
  name \<open>os.CreateTemp\<close> picks, the time stamp in the archive name and the key pair
  \<open>ed25519.GenerateKey\<close> returns are arguments; \<open>fromSeed\<close> is \<open>ed25519.NewKeyFromSeed\<close>.  Permissions
  (which only decide about a log line) and directories are not part of the state.
\<close>

section \<open>The operating system calls\<close>

type_synonym fsys = "string \<rightharpoonup> bytes"

record os_faults =
  f_read :: bool
  f_mkdir :: bool
  f_createTemp :: bool
  f_write :: bool
  f_partial :: nat
  f_chmod :: bool
  f_close :: bool
  f_stat :: bool
  f_archive :: bool
  f_install :: bool
  f_restore :: bool
  f_remove :: bool

definition no_faults :: os_faults where
  "no_faults = \<lparr>f_read = False, f_mkdir = False, f_createTemp = False, f_write = False, f_partial = 0, f_chmod = False,
     f_close = False, f_stat = False, f_archive = False, f_install = False, f_restore = False, f_remove = False\<rparr>"

definition osRemove :: "os_faults \<Rightarrow> string \<Rightarrow> fsys \<Rightarrow> fsys" where
  "osRemove F p fs = (if f_remove F then fs else fs(p := None))"

definition osRename :: "bool \<Rightarrow> string \<Rightarrow> string \<Rightarrow> fsys \<Rightarrow> fsys option" where
  "osRename fails old new fs =
     (if fails then None
      else case fs old of None \<Rightarrow> None | Some data \<Rightarrow> Some (fs(old := None, new := Some data)))"

section \<open>Key files\<close>

datatype KeyError =
    InvalidKeyLength nat
  | BadMagicBytes
  | ReadingKeyFile
  | GeneratingKey
  | CreatingKeyDirectory
  | CreatingTempKeyFile
  | WritingOracleKey
  | SettingPermissions
  | ClosingKeyFile
  | RenamingKeyFile
  | ArchivingOracleKey
  | CheckingOracleKeyFile
  | InstallingRotatedKey
  | InstallingAndRestoring

definition keyMagic :: bytes where
  "keyMagic = [0x4A, 0x50, 0x53, 0x4B]"

definition SeedSize :: nat where
  "SeedSize = 32"

definition writeTempKeyFile :: "os_faults \<Rightarrow> string \<Rightarrow> bytes \<Rightarrow> fsys \<Rightarrow> KeyError option \<times> fsys" where
  "writeTempKeyFile F tmp priv fs =
     (if f_createTemp F then (Some CreatingTempKeyFile, fs)
      else let buf = keyMagic @ take SeedSize priv in
        if f_write F then (Some WritingOracleKey, osRemove F tmp (fs(tmp \<mapsto> take (f_partial F) buf)))
        else let fs1 = fs(tmp \<mapsto> buf) in
          if f_chmod F then (Some SettingPermissions, osRemove F tmp fs1)
          else if f_close F then (Some ClosingKeyFile, osRemove F tmp fs1)
          else (None, fs1))"

definition writeKeyFile :: "os_faults \<Rightarrow> string \<Rightarrow> string \<Rightarrow> bytes \<Rightarrow> fsys \<Rightarrow> KeyError option \<times> fsys" where
  "writeKeyFile F tmp path priv fs =
     (if f_mkdir F then (Some CreatingKeyDirectory, fs)
      else case writeTempKeyFile F tmp priv fs of
        (Some e, fs1) \<Rightarrow> (Some e, fs1)
      | (None, fs1) \<Rightarrow>
          (case osRename (f_install F) tmp path fs1 of
             None \<Rightarrow> (Some RenamingKeyFile, osRemove F tmp fs1)
           | Some fs2 \<Rightarrow> (None, fs2)))"

definition NewGeneratorFromFile ::
  "prims \<Rightarrow> (bytes \<Rightarrow> bytes) \<Rightarrow> os_faults \<Rightarrow> (bytes \<times> bytes) option \<Rightarrow> string \<Rightarrow> string \<Rightarrow> fsys
   \<Rightarrow> (KeyError + Generator) \<times> fsys" where
  "NewGeneratorFromFile P fromSeed F genKey tmp path fs =
     (if f_read F then (Inl ReadingKeyFile, fs)
      else case fs path of
        Some data \<Rightarrow>
          if length data \<noteq> 36 then (Inl (InvalidKeyLength (length data)), fs)
          else if take 4 data \<noteq> keyMagic then (Inl BadMagicBytes, fs)
          else let priv = fromSeed (drop 4 data)
               in (Inr (NewGeneratorWithKeys priv (ed_public P priv)), fs)
      | None \<Rightarrow>
          (case genKey of
             None \<Rightarrow> (Inl GeneratingKey, fs)
           | Some (pub, priv) \<Rightarrow>
               (case writeKeyFile F tmp path priv fs of
                  (Some e, fs1) \<Rightarrow> (Inl e, fs1)
                | (None, fs1) \<Rightarrow> (Inr (NewGeneratorWithKeys priv pub), fs1))))"

section \<open>Rotation\<close>

definition rotationArchivePath :: "string \<Rightarrow> string \<Rightarrow> string" where
  "rotationArchivePath path stamp = path @ ''.'' @ stamp @ ''.rotated''"

text \<open>
  The result is the pair Go returns: the archive path and the error.  The deferred removal of the
  temporary file happens on every path after it was written.
\<close>

definition RotateKeyFile ::
  "os_faults \<Rightarrow> (bytes \<times> bytes) option \<Rightarrow> string \<Rightarrow> string \<Rightarrow> string \<Rightarrow> Generator \<times> fsys
   \<Rightarrow> (string \<times> KeyError option) \<times> Generator \<times> fsys" where
  "RotateKeyFile F genKey tmp stamp path gf =
     (let g = fst gf; fs = snd gf in
      case genKey of
        None \<Rightarrow> (('''', Some GeneratingKey), g, fs)
      | Some (pub, priv) \<Rightarrow>
         if f_mkdir F then (('''', Some CreatingKeyDirectory), g, fs)
         else (case writeTempKeyFile F tmp priv fs of
           (Some e, fs1) \<Rightarrow> (('''', Some e), g, fs1)
         | (None, fs1) \<Rightarrow>
            (if f_stat F then (('''', Some CheckingOracleKeyFile), g, osRemove F tmp fs1)
             else
              let archivePath = (if fs1 path = None then '''' else rotationArchivePath path stamp);
                  archived = (if fs1 path = None then Some fs1 else osRename (f_archive F) path archivePath fs1) in
              case archived of
                None \<Rightarrow> (('''', Some ArchivingOracleKey), g, osRemove F tmp fs1)
              | Some fs2 \<Rightarrow>
                  (case osRename (f_install F) tmp path fs2 of
                     Some fs3 \<Rightarrow>
                       ((archivePath, None), g\<lparr>g_privateKey := priv, g_publicKey := pub\<rparr>, osRemove F tmp fs3)
                   | None \<Rightarrow>
                       if archivePath \<noteq> '''' then
                         (case osRename (f_restore F) archivePath path fs2 of
                            None \<Rightarrow> ((archivePath, Some InstallingAndRestoring), g, osRemove F tmp fs2)
                          | Some fs3 \<Rightarrow> ((archivePath, Some InstallingRotatedKey), g, osRemove F tmp fs3))
                       else ((archivePath, Some InstallingRotatedKey), g, osRemove F tmp fs2)))))"

section \<open>Lemmas\<close>

lemma rotationArchivePath_neq [simp]: "rotationArchivePath path stamp \<noteq> path" "rotationArchivePath path stamp \<noteq> ''''"
  by (simp_all add: rotationArchivePath_def)

lemma osRename_Some:
  "osRename b old new fs = Some fs' \<longleftrightarrow> \<not> b \<and> (\<exists>data. fs old = Some data \<and> fs' = fs(old := None, new := Some data))"
  by (auto simp: osRename_def split: option.split)

lemma osRemove_other [simp]: "p \<noteq> q \<Longrightarrow> osRemove F p fs q = fs q"
  by (simp add: osRemove_def)

lemma writeTempKeyFile_ok:
  "writeTempKeyFile F tmp priv fs = (None, fs1) \<Longrightarrow> fs1 = fs(tmp \<mapsto> keyMagic @ take SeedSize priv)"
  by (auto simp: writeTempKeyFile_def Let_def split: if_splits)

lemma writeTempKeyFile_other: "p \<noteq> tmp \<Longrightarrow> snd (writeTempKeyFile F tmp priv fs) p = fs p"
  by (simp add: writeTempKeyFile_def Let_def)

lemma writeKeyFile_ok:
  "writeKeyFile F tmp path priv fs = (None, fs') \<Longrightarrow> fs' path = Some (keyMagic @ take SeedSize priv)"
  by (auto simp: writeKeyFile_def osRename_Some dest: writeTempKeyFile_ok split: if_splits prod.splits option.splits)

lemma key_file_bytes:
  assumes "SeedSize \<le> length priv"
  shows "length (keyMagic @ take SeedSize priv) = 36" "take 4 (keyMagic @ take SeedSize priv) = keyMagic"
    "drop 4 (keyMagic @ take SeedSize priv) = take SeedSize priv"
  using assms by (simp_all add: keyMagic_def SeedSize_def)

lemma NewGeneratorFromFile_load:
  assumes "fs path = Some (keyMagic @ take SeedSize priv)" "SeedSize \<le> length priv" "fromSeed (take SeedSize priv) = priv"
    and "\<not> f_read F"
  shows "NewGeneratorFromFile P fromSeed F genKey tmp path fs = (Inr (NewGeneratorWithKeys priv (ed_public P priv)), fs)"
  using assms key_file_bytes [OF assms(2)] by (simp add: NewGeneratorFromFile_def)

lemma NewGeneratorFromFile_fresh:
  assumes "NewGeneratorFromFile P fromSeed F genKey tmp path fs = (Inr g, fs')" "fs path = None"
  shows "\<exists>pub priv. genKey = Some (pub, priv) \<and> g = NewGeneratorWithKeys priv pub \<and>
           fs' path = Some (keyMagic @ take SeedSize priv)"
  using assms by (auto simp: NewGeneratorFromFile_def dest: writeKeyFile_ok split: if_splits prod.splits option.splits)

text \<open>
  What the code relies on of a key pair that \<open>ed25519.GenerateKey\<close> returns: the private key has 64
  bytes, its public key belongs to it, and it can be rebuilt from its seed.
\<close>

definition genuine_pair :: "prims \<Rightarrow> (bytes \<Rightarrow> bytes) \<Rightarrow> bytes \<times> bytes \<Rightarrow> bool" where
  "genuine_pair P fromSeed kp \<longleftrightarrow>
     (case kp of (pub, priv) \<Rightarrow> pub = ed_public P priv \<and> length priv = PrivateKeySize \<and> fromSeed (take SeedSize priv) = priv)"

text \<open>
  The oracle key survives a restart: whatever generator \<open>NewGeneratorFromFile\<close> returned, be it
  loaded or freshly generated and saved, calling it again on the resulting file system (with a
  readable file) returns the same generator and leaves the file system unchanged.
\<close>

theorem NewGeneratorFromFile_restart:
  assumes "NewGeneratorFromFile P fromSeed F (Some kp) tmp path fs = (Inr g, fs')"
    and "genuine_pair P fromSeed kp" and "\<not> f_read F'"
  shows "NewGeneratorFromFile P fromSeed F' genKey' tmp' path fs' = (Inr g, fs')"
proof (cases "fs path")
  case None
  with NewGeneratorFromFile_fresh [OF assms(1) None] obtain pub priv
    where kp: "kp = (pub, priv)" "g = NewGeneratorWithKeys priv pub" "fs' path = Some (keyMagic @ take SeedSize priv)"
    by auto
  with assms(2) have "pub = ed_public P priv" "SeedSize \<le> length priv" "fromSeed (take SeedSize priv) = priv"
    by (simp_all add: genuine_pair_def SeedSize_def PrivateKeySize_def)
  with kp assms(3) NewGeneratorFromFile_load [of fs' path priv fromSeed F'] show ?thesis by simp
next
  case (Some data)
  with assms(1) have "fs' = fs" by (auto simp: NewGeneratorFromFile_def Let_def split: if_splits)
  with assms(1,3) Some show ?thesis by (auto simp: NewGeneratorFromFile_def split: if_splits)
qed

text \<open>An Ed25519 instance whose private keys are a seed repeated twice, used to evaluate examples.\<close>

definition toy_priv :: "8 word \<Rightarrow> bytes" where
  "toy_priv b = replicate 64 b"

definition toy_fromSeed :: "bytes \<Rightarrow> bytes" where
  "toy_fromSeed seed = seed @ seed"

definition toy_pair :: "8 word \<Rightarrow> bytes \<times> bytes" where
  "toy_pair b = (ed_public toy_ed (toy_priv b), toy_priv b)"

lemma toy_pair_genuine: "genuine_pair toy_ed toy_fromSeed (toy_pair b)"
  by (simp add: genuine_pair_def toy_pair_def toy_priv_def toy_fromSeed_def PrivateKeySize_def SeedSize_def
      replicate_add [symmetric])

lemma toy_fresh_key:
  "NewGeneratorFromFile toy_ed toy_fromSeed no_faults (Some (toy_pair b)) ''tmp'' ''k'' Map.empty =
     (Inr (NewGeneratorWithKeys (toy_priv b) (ed_public toy_ed (toy_priv b))),
      [''k'' \<mapsto> keyMagic @ take SeedSize (toy_priv b)])"
  by (simp add: NewGeneratorFromFile_def no_faults_def toy_pair_def writeKeyFile_def writeTempKeyFile_def osRename_def)

theorem NewGeneratorFromFile_restart_witness:
  "\<exists>g fs. NewGeneratorFromFile toy_ed toy_fromSeed no_faults (Some (toy_pair 7)) ''tmp'' ''k'' Map.empty = (Inr g, fs)
     \<and> NewGeneratorFromFile toy_ed toy_fromSeed no_faults None ''tmp2'' ''k'' fs = (Inr g, fs)"
proof -
  have "\<not> f_read no_faults" by (simp add: no_faults_def)
  from NewGeneratorFromFile_restart [OF toy_fresh_key [of 7] toy_pair_genuine this, of None "''tmp2''"] toy_fresh_key [of 7]
  show ?thesis by blast
qed

text \<open>
  C27. Key rotation never loses a key and never desynchronises the oracle: on success the
  generator uses the new pair, the key file holds it and a previous key file is kept under the
  archive name returned; on any failure the generator is untouched and the old key file is still
  in place, or, when the attempt to put it back failed as well, under the archive name.  In all
  cases the sequence number and the chain hash are kept.
\<close>

theorem RotateKeyFile_keeps_a_key:
  assumes "RotateKeyFile F genKey tmp stamp path (g, fs) = ((arch, err), g', fs')"
    and "tmp \<noteq> path" and "tmp \<noteq> rotationArchivePath path stamp"
  shows "g_seqNo g' = g_seqNo g \<and> g_lastHash g' = g_lastHash g \<and>
    (case err of
       None \<Rightarrow> (\<exists>pub priv. genKey = Some (pub, priv) \<and> g_publicKey g' = pub \<and> g_privateKey g' = priv
                 \<and> fs' path = Some (keyMagic @ take SeedSize priv))
               \<and> (case fs path of None \<Rightarrow> arch = [] | Some old \<Rightarrow> fs' arch = Some old)
     | Some e \<Rightarrow> g' = g \<and> (fs' path = fs path
                 \<or> e = InstallingAndRestoring \<and> fs' (rotationArchivePath path stamp) = fs path))"
proof (cases genKey)
  case None
  with assms(1) show ?thesis by (auto simp: RotateKeyFile_def)
next
  case (Some kp)
  obtain pub priv where kp: "kp = (pub, priv)" by (cases kp)
  obtain e1 fs1 where w: "writeTempKeyFile F tmp priv fs = (e1, fs1)" by fastforce
  from writeTempKeyFile_other [of path tmp F priv fs] assms(2) w have p1: "fs1 path = fs path" by simp
  note [simp] = Some kp w
  show ?thesis
  proof (cases "f_mkdir F \<or> e1 \<noteq> None \<or> f_stat F")
    case True
    then have "err \<noteq> None" "g' = g" "fs' path = fs path"
      using assms(1,2) p1 by (auto simp: RotateKeyFile_def Let_def split: if_splits option.splits)
    then show ?thesis by auto
  next
    case False
    then have ok: "\<not> f_mkdir F" "e1 = None" "\<not> f_stat F" by auto
    with writeTempKeyFile_ok [of F tmp priv fs fs1]
    have fs1: "fs1 = fs(tmp \<mapsto> keyMagic @ take SeedSize priv)" by simp
    show ?thesis
    proof (cases "fs path")
      case None
      with assms(1,2) ok p1 fs1 show ?thesis
        by (cases "f_install F") (auto simp: RotateKeyFile_def Let_def osRename_def)
    next
      case old: (Some old)
      with assms ok p1 fs1 show ?thesis
        by (cases "f_archive F"; cases "f_install F"; cases "f_restore F")
           (auto simp: RotateKeyFile_def Let_def osRename_def)
    qed
  qed
qed

theorem RotateKeyFile_keeps_a_key_witness:
  "\<exists>arch g' fs'. RotateKeyFile (no_faults\<lparr>f_install := True, f_restore := True\<rparr>) (Some (toy_pair 8)) ''tmp'' ''t0'' ''k''
       (toy_gen, [''k'' \<mapsto> [1, 2, 3]]) = ((arch, Some InstallingAndRestoring), g', fs')
     \<and> g' = toy_gen \<and> (fs' ''k'' = Some [1, 2, 3] \<or> fs' (rotationArchivePath ''k'' ''t0'') = Some [1, 2, 3])"
proof -
  let ?F = "no_faults\<lparr>f_install := True, f_restore := True\<rparr>"
  let ?fs = "[''k'' \<mapsto> [1, 2, 3 :: 8 word]]"
  obtain arch err g' fs' where r: "RotateKeyFile ?F (Some (toy_pair 8)) ''tmp'' ''t0'' ''k'' (toy_gen, ?fs) = ((arch, err), g', fs')"
    by (metis surj_pair)
  then have "err = Some InstallingAndRestoring"
    by (simp add: RotateKeyFile_def no_faults_def toy_pair_def writeTempKeyFile_def osRename_def Let_def)
  with r RotateKeyFile_keeps_a_key [OF r] show ?thesis
    by (simp add: rotationArchivePath_def)
qed

end
