(* ===== verification/JP_Validator.thy ===== *)
theory JP_Validator
  imports JP_KeyFile
begin

text \<open>
  The receipt validator of \<^verbatim>\<open>internal/security/validator.go\<close>: trusted keys, threshold
  attestations, single receipts and receipt chains.  A Go map used as a set of keys is a list of
  keys here (only emptiness and membership are asked); a nil map and an empty one behave alike.
\<close>

section \<open>Definitions\<close>

record ReceiptValidator =
  rv_replayDetector :: ReplayDetector
  rv_maxAge :: duration
  rv_trustedKeys :: "bytes list"
  rv_thresholdKeys :: "bytes list"

datatype ThresholdFault =
    InvalidThresholdK int
  | InvalidThresholdN int
  | ThresholdKExceedsN int int
  | InsufficientThresholdSignatures nat int
  | TooManyThresholdSignatures nat int
  | ThresholdPayloadError
  | EmptyOracleID
  | DuplicateThresholdOracle string
  | InvalidThresholdKeyLength string
  | UntrustedThresholdKey string
  | InvalidThresholdSignature string

datatype ValidationError =
    SignatureVerificationError VerifyError
  | InvalidSignature string
  | UntrustedOracleKey string
  | ThresholdError string ThresholdFault
  | ReceiptExpired string duration
  | ReplayCheckFailed string ReplayError

datatype ChainError =
    EmptyReceiptChain
  | ChainBrokenSeq nat uint64 uint64
  | ChainPreviousHashNil nat
  | ChainHashMismatch nat
  | ChainUntrustedRotation nat
  | ChainSignatureError nat string VerifyError
  | ChainInvalidSignature nat string
  | ChainUntrustedKey nat string
  | ChainThreshold nat string ThresholdFault

definition NewReceiptValidator :: "duration \<Rightarrow> ReceiptValidator" where
  "NewReceiptValidator maxAge =
     \<lparr>rv_replayDetector = NewReplayDetector maxAge, rv_maxAge = maxAge, rv_trustedKeys = [], rv_thresholdKeys = []\<rparr>"

definition TrustOracleKey :: "bytes \<Rightarrow> ReceiptValidator \<Rightarrow> ReceiptValidator" where
  "TrustOracleKey key rv = rv\<lparr>rv_trustedKeys := List.insert key (rv_trustedKeys rv)\<rparr>"

definition TrustThresholdOracleKey :: "bytes \<Rightarrow> ReceiptValidator \<Rightarrow> ReceiptValidator" where
  "TrustThresholdOracleKey key rv = rv\<lparr>rv_thresholdKeys := List.insert key (rv_thresholdKeys rv)\<rparr>"

definition isTrustedKey :: "ReceiptValidator \<Rightarrow> bytes \<Rightarrow> bool" where
  "isTrustedKey rv key = (if length (rv_trustedKeys rv) = 0 then True else key \<in> set (rv_trustedKeys rv))"

definition isTrustedThresholdKey :: "ReceiptValidator \<Rightarrow> bytes \<Rightarrow> bool" where
  "isTrustedThresholdKey rv key = (if length (rv_thresholdKeys rv) = 0 then True else key \<in> set (rv_thresholdKeys rv))"

fun attestationLoop ::
  "prims \<Rightarrow> ReceiptValidator \<Rightarrow> bytes \<Rightarrow> string list \<Rightarrow> ThresholdSignature list \<Rightarrow> ThresholdFault option" where
  "attestationLoop P rv payload seen [] = None"
| "attestationLoop P rv payload seen (sig # sigs) =
     (if ts_OracleID sig = '''' then Some EmptyOracleID
      else if ts_OracleID sig \<in> set seen then Some (DuplicateThresholdOracle (ts_OracleID sig))
      else if length (ts_PublicKey sig) \<noteq> PublicKeySize then Some (InvalidThresholdKeyLength (ts_OracleID sig))
      else if \<not> isTrustedThresholdKey rv (ts_PublicKey sig) then Some (UntrustedThresholdKey (ts_OracleID sig))
      else if \<not> ed_verify P (ts_PublicKey sig) payload (ts_Signature sig)
           then Some (InvalidThresholdSignature (ts_OracleID sig))
      else attestationLoop P rv payload (ts_OracleID sig # seen) sigs)"

definition validateThresholdAttestations ::
  "prims \<Rightarrow> codec \<Rightarrow> ReceiptValidator \<Rightarrow> ComplianceReceipt \<Rightarrow> ThresholdFault option" where
  "validateThresholdAttestations P J rv r =
     (let k = rcpt_ThresholdK r; n = rcpt_ThresholdN r; sigs = rcpt_ThresholdSignatures r in
      if k = 0 \<and> n = 0 \<and> length sigs = 0 then None
      else if k < 1 then Some (InvalidThresholdK k)
      else if n < 1 then Some (InvalidThresholdN n)
      else if k > n then Some (ThresholdKExceedsN k n)
      else if int (length sigs) < k then Some (InsufficientThresholdSignatures (length sigs) k)
      else if int (length sigs) > n then Some (TooManyThresholdSignatures (length sigs) n)
      else (case SigningPayload J r of
              None \<Rightarrow> Some ThresholdPayloadError
            | Some payload \<Rightarrow> attestationLoop P rv payload [] sigs))"

text \<open>
  \<open>now\<close> is the reading behind \<open>time.Since\<close>; the replay detector reads the clock again
  (\<open>now1\<close>, \<open>now2\<close>).
\<close>

definition ValidateReceipt ::
  "prims \<Rightarrow> codec \<Rightarrow> ComplianceReceipt \<Rightarrow> time \<Rightarrow> time \<Rightarrow> time \<Rightarrow> ReceiptValidator
   \<Rightarrow> ValidationError option \<times> ReceiptValidator" where
  "ValidateReceipt P J r now now1 now2 rv =
     (case Verify P J r of
        Inl e \<Rightarrow> (Some (SignatureVerificationError e), rv)
      | Inr valid \<Rightarrow>
          if \<not> valid then (Some (InvalidSignature (rcpt_ID r)), rv)
          else if \<not> isTrustedKey rv (rcpt_OraclePublicKey r) then (Some (UntrustedOracleKey (rcpt_ID r)), rv)
          else (case validateThresholdAttestations P J rv r of
                  Some e \<Rightarrow> (Some (ThresholdError (rcpt_ID r) e), rv)
                | None \<Rightarrow>
                    let age = time_Sub now (rcpt_Timestamp r) in
                    if age > rv_maxAge rv then (Some (ReceiptExpired (rcpt_ID r) age), rv)
                    else (case replay_Check (hex (rcpt_OraclePublicKey r)) (rcpt_SeqNo r) (rcpt_Timestamp r)
                                 now1 now2 (rv_replayDetector rv) of
                            (Some e, rd) \<Rightarrow> (Some (ReplayCheckFailed (rcpt_ID r) e), rv\<lparr>rv_replayDetector := rd\<rparr>)
                          | (None, rd) \<Rightarrow> (None, rv\<lparr>rv_replayDetector := rd\<rparr>))))"

definition chainLink ::
  "prims \<Rightarrow> ReceiptValidator \<Rightarrow> nat \<Rightarrow> ComplianceReceipt \<Rightarrow> ComplianceReceipt \<Rightarrow> ChainError option" where
  "chainLink P rv i prev r =
     (if rcpt_SeqNo r \<noteq> rcpt_SeqNo prev + 1 then Some (ChainBrokenSeq i (rcpt_SeqNo prev + 1) (rcpt_SeqNo r))
      else case rcpt_PreviousHash r of
        None \<Rightarrow> Some (ChainPreviousHashNil i)
      | Some h \<Rightarrow>
          if h \<noteq> sha256 P (rcpt_Signature prev) then Some (ChainHashMismatch i)
          else if rcpt_OraclePublicKey r \<noteq> rcpt_OraclePublicKey prev \<and>
                  (\<not> isTrustedKey rv (rcpt_OraclePublicKey prev) \<or> \<not> isTrustedKey rv (rcpt_OraclePublicKey r))
               then Some (ChainUntrustedRotation i)
          else None)"

definition chainReceipt ::
  "prims \<Rightarrow> codec \<Rightarrow> ReceiptValidator \<Rightarrow> nat \<Rightarrow> ComplianceReceipt \<Rightarrow> ChainError option" where
  "chainReceipt P J rv i r =
     (case Verify P J r of
        Inl e \<Rightarrow> Some (ChainSignatureError i (rcpt_ID r) e)
      | Inr valid \<Rightarrow>
          if \<not> valid then Some (ChainInvalidSignature i (rcpt_ID r))
          else if \<not> isTrustedKey rv (rcpt_OraclePublicKey r) then Some (ChainUntrustedKey i (rcpt_ID r))
          else (case validateThresholdAttestations P J rv r of
                  Some e \<Rightarrow> Some (ChainThreshold i (rcpt_ID r) e)
                | None \<Rightarrow> None))"

fun chainLoop ::
  "prims \<Rightarrow> codec \<Rightarrow> ReceiptValidator \<Rightarrow> nat \<Rightarrow> ComplianceReceipt option \<Rightarrow> ComplianceReceipt list \<Rightarrow> ChainError option" where
  "chainLoop P J rv i prev [] = None"
| "chainLoop P J rv i prev (r # rs) =
     (case (case prev of None \<Rightarrow> None | Some p \<Rightarrow> chainLink P rv i p r) of
        Some e \<Rightarrow> Some e
      | None \<Rightarrow> (case chainReceipt P J rv i r of
                   Some e \<Rightarrow> Some e
                 | None \<Rightarrow> chainLoop P J rv (Suc i) (Some r) rs))"

definition ValidateReceiptChain ::
  "prims \<Rightarrow> codec \<Rightarrow> ReceiptValidator \<Rightarrow> ComplianceReceipt list \<Rightarrow> ChainError option" where
  "ValidateReceiptChain P J rv rs =
     (if length rs = 0 then Some EmptyReceiptChain else chainLoop P J rv 0 None rs)"

section \<open>What acceptance means\<close>

lemma attestationLoop_None_iff:
  "attestationLoop P rv payload seen sigs = None \<longleftrightarrow>
     distinct (map ts_OracleID sigs) \<and> set (map ts_OracleID sigs) \<inter> set seen = {} \<and>
     (\<forall>s\<in>set sigs. ts_OracleID s \<noteq> '''' \<and> length (ts_PublicKey s) = PublicKeySize \<and>
        isTrustedThresholdKey rv (ts_PublicKey s) \<and> ed_verify P (ts_PublicKey s) payload (ts_Signature s))"
  by (induction sigs arbitrary: seen) auto

definition attested :: "prims \<Rightarrow> codec \<Rightarrow> ReceiptValidator \<Rightarrow> ComplianceReceipt \<Rightarrow> bool" where
  "attested P J rv r \<longleftrightarrow>
     (let k = rcpt_ThresholdK r; n = rcpt_ThresholdN r; sigs = rcpt_ThresholdSignatures r in
      (k = 0 \<and> n = 0 \<and> sigs = []) \<or>
      (1 \<le> k \<and> k \<le> int (length sigs) \<and> int (length sigs) \<le> n \<and> distinct (map ts_OracleID sigs) \<and>
       (\<exists>payload. SigningPayload J r = Some payload \<and>
          (\<forall>s\<in>set sigs. ts_OracleID s \<noteq> '''' \<and> length (ts_PublicKey s) = PublicKeySize \<and>
             isTrustedThresholdKey rv (ts_PublicKey s) \<and> ed_verify P (ts_PublicKey s) payload (ts_Signature s)))))"

lemma validateThresholdAttestations_None_iff:
  "validateThresholdAttestations P J rv r = None \<longleftrightarrow> attested P J rv r"
  by (auto simp: validateThresholdAttestations_def attested_def Let_def attestationLoop_None_iff split: option.split)

definition receipt_ok :: "prims \<Rightarrow> codec \<Rightarrow> ReceiptValidator \<Rightarrow> ComplianceReceipt \<Rightarrow> bool" where
  "receipt_ok P J rv r \<longleftrightarrow>
     Verify P J r = Inr True \<and> isTrustedKey rv (rcpt_OraclePublicKey r) \<and> attested P J rv r"

definition linked :: "prims \<Rightarrow> ComplianceReceipt \<Rightarrow> ComplianceReceipt \<Rightarrow> bool" where
  "linked P prev r \<longleftrightarrow>
     rcpt_SeqNo r = rcpt_SeqNo prev + 1 \<and> rcpt_PreviousHash r = Some (sha256 P (rcpt_Signature prev))"

lemma receipt_ok_trusted: "receipt_ok P J rv r \<Longrightarrow> isTrustedKey rv (rcpt_OraclePublicKey r)"
  by (simp add: receipt_ok_def)

lemma chainReceipt_None_iff: "chainReceipt P J rv i r = None \<longleftrightarrow> receipt_ok P J rv r"
  by (auto simp: chainReceipt_def receipt_ok_def validateThresholdAttestations_None_iff [symmetric]
      split: sum.splits option.splits)

lemma chainLink_None_iff:
  "chainLink P rv i prev r = None \<longleftrightarrow>
     linked P prev r \<and> (rcpt_OraclePublicKey r \<noteq> rcpt_OraclePublicKey prev \<longrightarrow>
       isTrustedKey rv (rcpt_OraclePublicKey prev) \<and> isTrustedKey rv (rcpt_OraclePublicKey r))"
  by (auto simp: chainLink_def linked_def split: option.splits if_splits)

lemma chainLoop_None_iff:
  "(case prev of None \<Rightarrow> True | Some p \<Rightarrow> isTrustedKey rv (rcpt_OraclePublicKey p)) \<Longrightarrow>
   chainLoop P J rv i prev rs = None \<longleftrightarrow>
     list_all (receipt_ok P J rv) rs \<and>
     successively (linked P) ((case prev of None \<Rightarrow> [] | Some p \<Rightarrow> [p]) @ rs)"
proof (induction rs arbitrary: i prev)
  case Nil
  then show ?case by (simp split: option.split)
next
  case (Cons r rs)
  have "chainLoop P J rv i prev (r # rs) = None \<longleftrightarrow>
     (case prev of None \<Rightarrow> None | Some p \<Rightarrow> chainLink P rv i p r) = None \<and> receipt_ok P J rv r \<and>
     chainLoop P J rv (Suc i) (Some r) rs = None"
    using chainReceipt_None_iff [of P J rv i r] by (auto split: option.split)
  also have "\<dots> \<longleftrightarrow> (case prev of None \<Rightarrow> True | Some p \<Rightarrow> linked P p r) \<and> receipt_ok P J rv r \<and>
     chainLoop P J rv (Suc i) (Some r) rs = None"
    using Cons.prems by (auto simp: chainLink_None_iff receipt_ok_def split: option.splits)
  also have "\<dots> \<longleftrightarrow> (case prev of None \<Rightarrow> True | Some p \<Rightarrow> linked P p r) \<and> receipt_ok P J rv r \<and>
     list_all (receipt_ok P J rv) rs \<and> successively (linked P) (r # rs)"
    using Cons.IH [of "Some r" "Suc i"] receipt_ok_trusted [of P J rv r] by auto
  finally show ?case by (cases prev) auto
qed

lemma ValidateReceiptChain_None_iff:
  "ValidateReceiptChain P J rv rs = None \<longleftrightarrow>
     rs \<noteq> [] \<and> list_all (receipt_ok P J rv) rs \<and> successively (linked P) rs"
  by (simp add: ValidateReceiptChain_def chainLoop_None_iff)

text \<open>
  C17. What an accepted receipt chain is: it is not empty, every receipt has a valid signature
  under a trusted oracle key and valid threshold attestations, and every receipt after the first
  carries its predecessor's sequence number plus one and the hash of its predecessor's
  signature; and conversely every such sequence is accepted, also across key changes.
\<close>

theorem ValidateReceiptChain_exact:
  "ValidateReceiptChain P J rv rs = None \<longleftrightarrow>
     rs \<noteq> []
     \<and> list_all (\<lambda>r. Verify P J r = Inr True \<and> isTrustedKey rv (rcpt_OraclePublicKey r)
                     \<and> validateThresholdAttestations P J rv r = None) rs
     \<and> successively (\<lambda>prev r. rcpt_SeqNo r = rcpt_SeqNo prev + 1
                     \<and> rcpt_PreviousHash r = Some (sha256 P (rcpt_Signature prev))) rs"
  unfolding ValidateReceiptChain_None_iff receipt_ok_def linked_def validateThresholdAttestations_None_iff ..

text \<open>
  What accepted threshold attestations are: either the receipt claims none at all, or k is at
  least 1 and between k and n attestations are present, from pairwise different, non-empty oracle
  identifiers, each under a trusted 32-byte key and each a valid signature of the receipt's own
  signing payload.
\<close>

theorem validateThresholdAttestations_exact:
  "validateThresholdAttestations P J rv r = None \<longleftrightarrow>
     (rcpt_ThresholdK r = 0 \<and> rcpt_ThresholdN r = 0 \<and> rcpt_ThresholdSignatures r = []) \<or>
     (1 \<le> rcpt_ThresholdK r \<and> rcpt_ThresholdK r \<le> int (length (rcpt_ThresholdSignatures r))
      \<and> int (length (rcpt_ThresholdSignatures r)) \<le> rcpt_ThresholdN r
      \<and> distinct (map ts_OracleID (rcpt_ThresholdSignatures r))
      \<and> (\<exists>payload. SigningPayload J r = Some payload \<and>
           list_all (\<lambda>s. ts_OracleID s \<noteq> [] \<and> length (ts_PublicKey s) = PublicKeySize
              \<and> isTrustedThresholdKey rv (ts_PublicKey s)
              \<and> ed_verify P (ts_PublicKey s) payload (ts_Signature s)) (rcpt_ThresholdSignatures r)))"
  unfolding validateThresholdAttestations_None_iff attested_def Let_def list_all_iff ..

section \<open>Issued receipts are attested\<close>

text \<open>
  What the validator needs of a threshold signer: the attestations it returns for a payload are
  between k and n many, from distinct oracles under keys it trusts, and valid.
\<close>

definition sound_signer :: "prims \<Rightarrow> ReceiptValidator \<Rightarrow> ThresholdSigner \<Rightarrow> bool" where
  "sound_signer P rv sign \<longleftrightarrow>
     (\<forall>payload sigs k n. sign payload = Inr (sigs, k, n) \<longrightarrow>
        1 \<le> k \<and> k \<le> int (length sigs) \<and> int (length sigs) \<le> n \<and> distinct (map ts_OracleID sigs) \<and>
        (\<forall>s\<in>set sigs. ts_OracleID s \<noteq> '''' \<and> length (ts_PublicKey s) = PublicKeySize \<and>
           isTrustedThresholdKey rv (ts_PublicKey s) \<and> ed_verify P (ts_PublicKey s) payload (ts_Signature s)))"

lemma issued_attested:
  assumes "issued_by P J g uid now tx pol path r" "case g_threshold g of None \<Rightarrow> True | Some sign \<Rightarrow> sound_signer P rv sign"
  shows "attested P J rv r"
proof (cases "g_threshold g")
  case None
  with assms show ?thesis by (auto simp: issued_by_def attested_def Let_def)
next
  case (Some sign)
  with assms(1) obtain payload where p: "marshalForSigning J r = Some payload"
    and s: "sign payload = Inr (rcpt_ThresholdSignatures r, rcpt_ThresholdK r, rcpt_ThresholdN r)"
    by (auto simp: issued_by_def)
  from Some assms(2) have "sound_signer P rv sign" by simp
  with s have "1 \<le> rcpt_ThresholdK r \<and> rcpt_ThresholdK r \<le> int (length (rcpt_ThresholdSignatures r)) \<and>
      int (length (rcpt_ThresholdSignatures r)) \<le> rcpt_ThresholdN r \<and>
      distinct (map ts_OracleID (rcpt_ThresholdSignatures r)) \<and>
      (\<forall>s\<in>set (rcpt_ThresholdSignatures r). ts_OracleID s \<noteq> '''' \<and> length (ts_PublicKey s) = PublicKeySize \<and>
           isTrustedThresholdKey rv (ts_PublicKey s) \<and> ed_verify P (ts_PublicKey s) payload (ts_Signature s))"
    unfolding sound_signer_def by blast
  with p show ?thesis unfolding attested_def Let_def SigningPayload_def by blast
qed

lemma SignThreshold_sound_signer:
  assumes "oracle_group P to" "ed25519_correct P" "\<forall>oi\<in>set (to_Oracles to). isTrustedThresholdKey rv (orc_PublicKey oi)"
  shows "sound_signer P rv (SignThreshold P to)"
  unfolding sound_signer_def SignThreshold_group [OF assms(1)]
proof (intro allI impI)
  fix payload sigs k n
  let ?f = "\<lambda>i. \<lparr>ts_OracleID = ''oracle-'' @ itoa i,
                   ts_Signature = ed_sign P (orc_PrivateKey (to_Oracles to ! i)) payload,
                   ts_PublicKey = ed_public P (orc_PrivateKey (to_Oracles to ! i))\<rparr>"
  assume "Inr (map ?f [0..<nat (to_K to)], to_K to, to_N to) = (Inr (sigs, k, n) :: ThresholdError + _)"
  then have s: "sigs = map ?f [0..<nat (to_K to)]" and k: "k = to_K to" and n: "n = to_N to" by auto
  from assms(1) have kn: "1 \<le> to_K to" "to_K to \<le> to_N to" "length (to_Oracles to) = nat (to_N to)"
    by (simp_all add: oracle_group_def)
  have d: "distinct (map ts_OracleID sigs)"
    using distinct_itoa_ids [of "nat (to_K to)"] by (simp add: s comp_def)
  have "\<forall>x\<in>set sigs. ts_OracleID x \<noteq> '''' \<and> length (ts_PublicKey x) = PublicKeySize \<and>
           isTrustedThresholdKey rv (ts_PublicKey x) \<and> ed_verify P (ts_PublicKey x) payload (ts_Signature x)"
  proof
    fix x assume "x \<in> set sigs"
    then obtain i where i: "i < nat (to_K to)" and x: "x = ?f i" by (auto simp: s)
    have "nat (to_K to) \<le> nat (to_N to)" using kn by (simp add: nat_mono)
    with i kn have il: "i < length (to_Oracles to)" by simp
    with assms(1) have "orc_PublicKey (to_Oracles to ! i) = ed_public P (orc_PrivateKey (to_Oracles to ! i))"
      unfolding oracle_group_def by blast
    with assms(3) nth_mem [OF il] have "isTrustedThresholdKey rv (ed_public P (orc_PrivateKey (to_Oracles to ! i)))"
      by metis
    with assms(2) x show "ts_OracleID x \<noteq> '''' \<and> length (ts_PublicKey x) = PublicKeySize \<and>
           isTrustedThresholdKey rv (ts_PublicKey x) \<and> ed_verify P (ts_PublicKey x) payload (ts_Signature x)"
      by (simp add: ed25519_correct_def)
  qed
  with d kn k n s show "1 \<le> k \<and> k \<le> int (length sigs) \<and> int (length sigs) \<le> n \<and> distinct (map ts_OracleID sigs) \<and>
        (\<forall>s\<in>set sigs. ts_OracleID s \<noteq> '''' \<and> length (ts_PublicKey s) = PublicKeySize \<and>
           isTrustedThresholdKey rv (ts_PublicKey s) \<and> ed_verify P (ts_PublicKey s) payload (ts_Signature s))"
    by simp
qed

section \<open>What the signature does not cover\<close>

lemma Verify_ignores [simp]:
  "Verify P J (r\<lparr>rcpt_Path := (rcpt_Path r)\<lparr>path_Hops := hops\<rparr>, rcpt_ThresholdK := k, rcpt_ThresholdN := n,
     rcpt_ThresholdSignatures := sigs\<rparr>) = Verify P J r"
    (is "Verify P J ?r = _")
proof -
  have 1: "marshalForSigning J ?r = marshalForSigning J r" "marshalLegacyForSigning J ?r = marshalLegacyForSigning J r"
    by (simp_all add: marshalForSigning_def marshalLegacyForSigning_def)
  have 2: "isLegacySigningPayloadCandidate ?r = isLegacySigningPayloadCandidate r"
    "rcpt_OraclePublicKey ?r = rcpt_OraclePublicKey r" "rcpt_Signature ?r = rcpt_Signature r"
    by (simp_all add: isLegacySigningPayloadCandidate_def)
  show ?thesis unfolding Verify_def 1 2 ..
qed


lemma toy_chain:
  "\<exists>r. ValidateReceiptChain toy_ed toy_codec (NewReceiptValidator 0) [r] = None \<and> path_Hops (rcpt_Path r) = [ch_hop, eu_hop]"
proof -
  from toy_Issue obtain r g' where
    i: "Issue toy_ed toy_codec ''id1'' 5 ''tx1'' ''pol'' (path_of [ch_hop, eu_hop] ''fp'') toy_gen = (Inr r, g')"
    by blast
  have k: "g_publicKey toy_gen = ed_public toy_ed (g_privateKey toy_gen)" "g_threshold toy_gen = None"
    by (simp_all add: toy_gen_def NewGeneratorWithKeys_def)
  from i have ib: "issued_by toy_ed toy_codec toy_gen ''id1'' 5 ''tx1'' ''pol'' (path_of [ch_hop, eu_hop] ''fp'') r"
    by (rule Issue_issued)
  from k(2) have "attested toy_ed toy_codec (NewReceiptValidator 0) r" by (intro issued_attested [OF ib]) simp
  with issued_by_verifies [OF ib toy_ed_correct k(1)] ib show ?thesis
    by (intro exI [of _ r])
       (simp add: ValidateReceiptChain_None_iff receipt_ok_def isTrustedKey_def NewReceiptValidator_def
         issued_by_def path_of_def)
qed


section \<open>Single receipts are accepted once\<close>

lemma ValidateReceipt_cases:
  obtains (refused) e where "ValidateReceipt P J r now now1 now2 rv = (Some e, rv)"
  | (checked) e rd where "replay_Check (hex (rcpt_OraclePublicKey r)) (rcpt_SeqNo r) (rcpt_Timestamp r)
        now1 now2 (rv_replayDetector rv) = (e, rd)"
      "ValidateReceipt P J r now now1 now2 rv = (map_option (ReplayCheckFailed (rcpt_ID r)) e, rv\<lparr>rv_replayDetector := rd\<rparr>)"
      "receipt_ok P J rv r" "time_Sub now (rcpt_Timestamp r) \<le> rv_maxAge rv"
proof (cases "receipt_ok P J rv r \<and> time_Sub now (rcpt_Timestamp r) \<le> rv_maxAge rv")
  case True
  then have ok: "Verify P J r = Inr True" "isTrustedKey rv (rcpt_OraclePublicKey r)"
    "validateThresholdAttestations P J rv r = None"
    by (simp_all add: receipt_ok_def validateThresholdAttestations_None_iff)
  obtain e rd where c: "replay_Check (hex (rcpt_OraclePublicKey r)) (rcpt_SeqNo r) (rcpt_Timestamp r)
        now1 now2 (rv_replayDetector rv) = (e, rd)" by fastforce
  with True ok checked [of e rd] show thesis
    by (cases e) (simp_all add: ValidateReceipt_def)
next
  case False
  then have "\<exists>e. ValidateReceipt P J r now now1 now2 rv = (Some e, rv)"
    by (auto simp: ValidateReceipt_def receipt_ok_def validateThresholdAttestations_None_iff [symmetric] Let_def
        split: sum.splits option.splits)
  then show thesis using refused by blast
qed

fun rv_run :: "prims \<Rightarrow> codec \<Rightarrow> (ComplianceReceipt \<times> time \<times> time \<times> time) list \<Rightarrow> ReceiptValidator \<Rightarrow> ReceiptValidator" where
  "rv_run P J [] rv = rv"
| "rv_run P J ((r, now, now1, now2) # xs) rv = rv_run P J xs (snd (ValidateReceipt P J r now now1 now2 rv))"

fun rv_clock :: "time \<Rightarrow> (ComplianceReceipt \<times> time \<times> time \<times> time) list \<Rightarrow> bool" where
  "rv_clock t [] = True"
| "rv_clock t ((r, now, now1, now2) # xs) = (t \<le> now \<and> now \<le> now1 \<and> now1 \<le> now2 \<and> rv_clock now2 xs)"

definition rv_guarded :: "ComplianceReceipt \<Rightarrow> time \<Rightarrow> duration \<Rightarrow> ReceiptValidator \<Rightarrow> bool" where
  "rv_guarded r t w rv \<longleftrightarrow> rd_window (rv_replayDetector rv) = w \<and>
     guarded (hex (rcpt_OraclePublicKey r)) (rcpt_SeqNo r) (rcpt_Timestamp r) t (rv_replayDetector rv)"

lemma rv_guarded_step:
  assumes "rv_guarded r t w rv" "t \<le> now1" "now1 \<le> now2"
  shows "rv_guarded r now2 w (snd (ValidateReceipt P J q now now1 now2 rv))"
proof (cases rule: ValidateReceipt_cases [of P J q now now1 now2 rv])
  case (refused e)
  with assms show ?thesis by (auto simp: rv_guarded_def intro: guarded_later)
next
  case (checked e rd)
  from assms have "guarded (hex (rcpt_OraclePublicKey r)) (rcpt_SeqNo r) (rcpt_Timestamp r) t (rv_replayDetector rv)"
    by (simp add: rv_guarded_def)
  from guarded_Check [OF this assms(2,3), of "hex (rcpt_OraclePublicKey q)" "rcpt_SeqNo q" "rcpt_Timestamp q"]
    checked assms(1) replay_Check_windowD [OF checked(1)]
  show ?thesis by (simp add: rv_guarded_def)
qed

lemma rv_guarded_run:
  "rv_guarded r t w rv \<Longrightarrow> rv_clock t (xs @ [(r, now, now1, now2)]) \<Longrightarrow> rv_guarded r now1 w (rv_run P J xs rv)"
proof (induction xs arbitrary: t rv)
  case Nil
  then show ?case by (auto simp: rv_guarded_def intro: guarded_later)
next
  case (Cons x xs)
  obtain q n n1 n2 where x: "x = (q, n, n1, n2)" by (cases x) auto
  with Cons.prems have "rv_guarded r n2 w (snd (ValidateReceipt P J q n n1 n2 rv))"
    by (intro rv_guarded_step [of r t]) simp_all
  with Cons x show ?case by simp
qed

text \<open>
  A receipt is accepted at most once by a validator: after \<open>ValidateReceipt\<close> has accepted a
  receipt, it rejects every later presentation of it, whatever other receipts it validates in
  between, as long as the clock does not run backwards.
\<close>

theorem ValidateReceipt_no_double_accept:
  assumes "ValidateReceipt P J r now now1 now2 rv = (None, rv')"
    and "now1 \<le> now2" and "rv_clock now2 (xs @ [(r, later, later1, later2)])"
    and "minDuration \<le> rd_window (rv_replayDetector rv)" and "rd_window (rv_replayDetector rv) < maxDuration"
  shows "fst (ValidateReceipt P J r later later1 later2 (rv_run P J xs rv')) \<noteq> None"
proof -
  let ?fp = "hex (rcpt_OraclePublicKey r)"
  let ?w = "rd_window (rv_replayDetector rv)"
  from assms(1) obtain rd where c: "replay_Check ?fp (rcpt_SeqNo r) (rcpt_Timestamp r) now1 now2 (rv_replayDetector rv) = (None, rd)"
    and rv': "rv' = rv\<lparr>rv_replayDetector := rd\<rparr>"
    by (cases rule: ValidateReceipt_cases [of P J r now now1 now2 rv]) auto
  from guarded_after_accept [of ?fp "rcpt_SeqNo r" "rcpt_Timestamp r" now1 now2 "rv_replayDetector rv"] c assms(2)
  have "rv_guarded r now2 ?w rv'" by (simp add: rv_guarded_def rv' replay_Check_windowD [OF c])
  from rv_guarded_run [OF this assms(3)] have g: "rv_guarded r later1 ?w (rv_run P J xs rv')" .
  then have "fst (replay_Check ?fp (rcpt_SeqNo r) (rcpt_Timestamp r) later1 later2
      (rv_replayDetector (rv_run P J xs rv'))) \<noteq> None"
    using assms(4,5) by (intro guarded_rejects) (simp_all add: rv_guarded_def)
  then show ?thesis
    by (cases rule: ValidateReceipt_cases [of P J r later later1 later2 "rv_run P J xs rv'"]) auto
qed

theorem ValidateReceipt_no_double_accept_witness:
  "\<exists>r rv'. ValidateReceipt toy_ed toy_codec r 5 5 5 (NewReceiptValidator 10) = (None, rv')
     \<and> fst (ValidateReceipt toy_ed toy_codec r 8 8 8 (rv_run toy_ed toy_codec [(r, 6, 6, 6)] rv')) \<noteq> None"
proof -
  from toy_Issue obtain r g' where
    i: "Issue toy_ed toy_codec ''id1'' 5 ''tx1'' ''pol'' (path_of [ch_hop, eu_hop] ''fp'') toy_gen = (Inr r, g')"
    by blast
  have k: "g_publicKey toy_gen = ed_public toy_ed (g_privateKey toy_gen)" "g_threshold toy_gen = None"
    by (simp_all add: toy_gen_def NewGeneratorWithKeys_def)
  from i have ib: "issued_by toy_ed toy_codec toy_gen ''id1'' 5 ''tx1'' ''pol'' (path_of [ch_hop, eu_hop] ''fp'') r"
    by (rule Issue_issued)
  let ?rv = "NewReceiptValidator 10"
  from k(2) have "attested toy_ed toy_codec ?rv r" by (intro issued_attested [OF ib]) simp
  then have ok: "receipt_ok toy_ed toy_codec ?rv r" "rcpt_Timestamp r = 5"
    using issued_by_verifies [OF ib toy_ed_correct k(1)] ib
    by (simp_all add: receipt_ok_def isTrustedKey_def NewReceiptValidator_def issued_by_def)
  have w: "minDuration \<le> rd_window (rv_replayDetector ?rv)" "rd_window (rv_replayDetector ?rv) < maxDuration"
    by (simp_all add: NewReceiptValidator_def NewReplayDetector_def minDuration_def maxDuration_def)
  have acc: "fst (replay_Check (hex (rcpt_OraclePublicKey r)) (rcpt_SeqNo r) (rcpt_Timestamp r) 5 5 (rv_replayDetector ?rv)) = None"
    using ok(2) by (simp add: replay_Check_accept_iff NewReceiptValidator_def NewReplayDetector_def rd_defs time_Sub_def
        MaxClockSkew_def second_def minDuration_def maxDuration_def)
  have "time_Sub 5 (rcpt_Timestamp r) \<le> rv_maxAge ?rv"
    using ok(2) by (simp add: time_Sub_def NewReceiptValidator_def minDuration_def maxDuration_def)
  with acc ok have "fst (ValidateReceipt toy_ed toy_codec r 5 5 5 ?rv) = None"
    by (auto simp: ValidateReceipt_def receipt_ok_def validateThresholdAttestations_None_iff [symmetric] split: prod.splits option.splits)
  then obtain rv' where v: "ValidateReceipt toy_ed toy_codec r 5 5 5 ?rv = (None, rv')" by (metis prod.collapse)
  from ValidateReceipt_no_double_accept [OF v order_refl _ w, of "[(r, 6, 6, 6)]" 8 8 8] v show ?thesis by auto
qed

section \<open>The life of an oracle\<close>

text \<open>
  The states a running oracle goes through: it starts with a key file and an empty store \<open>s0\<close>;
  it issues receipts (successfully or not), is configured, rotates its key (successfully or not)
  and is restarted from the key file and the store.  A restart is included while the key in the
  file is the one that signed the last receipt and fewer than 2^64 receipts exist.
\<close>

inductive oracle_reach ::
  "prims \<Rightarrow> codec \<Rightarrow> (bytes \<Rightarrow> bytes) \<Rightarrow> 's Store \<Rightarrow> ReceiptValidator \<Rightarrow> 's \<Rightarrow> Generator \<Rightarrow> 's \<Rightarrow> fsys \<Rightarrow> bool"
  for P J fromSeed S rv s0 where
  start: "NewGeneratorFromFile P fromSeed F (Some kp) tmp path fs = (Inr g, fs') \<Longrightarrow> genuine_pair P fromSeed kp \<Longrightarrow>
    isTrustedKey rv (g_publicKey g) \<Longrightarrow> oracle_reach P J fromSeed S rv s0 g s0 fs'"
| issue: "oracle_reach P J fromSeed S rv s0 g s fs \<Longrightarrow>
    IssueAndAppend P J S uid now tx pol p (g, s) = (res, g', s') \<Longrightarrow> oracle_reach P J fromSeed S rv s0 g' s' fs"
| proofs: "oracle_reach P J fromSeed S rv s0 g s fs \<Longrightarrow> oracle_reach P J fromSeed S rv s0 (WithProofProvider pp g) s fs"
| threshold: "oracle_reach P J fromSeed S rv s0 g s fs \<Longrightarrow>
    (case signer of None \<Rightarrow> True | Some sign \<Rightarrow> sound_signer P rv sign) \<Longrightarrow>
    oracle_reach P J fromSeed S rv s0 (WithThresholdSigner signer g) s fs"
| rotate: "oracle_reach P J fromSeed S rv s0 g s fs \<Longrightarrow>
    RotateKeyFile F (Some kp) tmp stamp path (g, fs) = (res, g', fs') \<Longrightarrow> genuine_pair P fromSeed kp \<Longrightarrow>
    isTrustedKey rv (fst kp) \<Longrightarrow> oracle_reach P J fromSeed S rv s0 g' s fs'"
| restart: "oracle_reach P J fromSeed S rv s0 g s fs \<Longrightarrow>
    NewGeneratorFromFile P fromSeed F (Some kp) tmp path fs = (Inr g0, fs') \<Longrightarrow> genuine_pair P fromSeed kp \<Longrightarrow>
    isTrustedKey rv (g_publicKey g0) \<Longrightarrow> st_Last S s = Inr lst \<Longrightarrow>
    (case lst of None \<Rightarrow> True | Some r \<Rightarrow> rcpt_OraclePublicKey r = g_publicKey g0) \<Longrightarrow>
    st_Count S s = Inr n \<Longrightarrow> n < 2 ^ 64 \<Longrightarrow>
    SeedChain P S s g0 = (None, g1) \<Longrightarrow> oracle_reach P J fromSeed S rv s0 g1 s fs'"

abbreviation trusted_keys :: "ReceiptValidator \<Rightarrow> bytes set" where
  "trusted_keys rv \<equiv> {k. isTrustedKey rv k}"

definition oracle_ok :: "prims \<Rightarrow> codec \<Rightarrow> ReceiptValidator \<Rightarrow> Generator \<Rightarrow> ComplianceReceipt list \<Rightarrow> bool" where
  "oracle_ok P J rv g rs \<longleftrightarrow>
     chained P J (trusted_keys rv) rs \<and> positioned P (trusted_keys rv) g rs \<and> list_all (attested P J rv) rs \<and>
     (case g_threshold g of None \<Rightarrow> True | Some sign \<Rightarrow> sound_signer P rv sign)"

lemma NewGeneratorFromFile_keys:
  assumes "NewGeneratorFromFile P fromSeed F genKey tmp path fs = (Inr g, fs')" "\<And>kp. genKey = Some kp \<Longrightarrow> genuine_pair P fromSeed kp"
  shows "\<exists>priv. g = NewGeneratorWithKeys priv (ed_public P priv)"
  using assms by (auto simp: NewGeneratorFromFile_def genuine_pair_def Let_def split: if_splits option.splits prod.splits)

lemma RotateKeyFile_gen:
  assumes "RotateKeyFile F (Some (pub, priv)) tmp stamp path (g, fs) = (res, g', fs')"
  shows "g' = g \<or> g' = g\<lparr>g_privateKey := priv, g_publicKey := pub\<rparr>"
  using assms by (auto simp: RotateKeyFile_def Let_def split: if_splits option.splits prod.splits)

lemma oracle_ok_config:
  assumes "oracle_ok P J rv g rs"
  shows "oracle_ok P J rv (WithProofProvider pp g) rs"
    and "(case signer of None \<Rightarrow> True | Some sign \<Rightarrow> sound_signer P rv sign) \<Longrightarrow> oracle_ok P J rv (WithThresholdSigner signer g) rs"
  using assms by (simp_all add: oracle_ok_def positioned_def WithProofProvider_def WithThresholdSigner_def)

lemma oracle_ok_keys:
  assumes "oracle_ok P J rv g rs" "isTrustedKey rv (ed_public P priv)"
  shows "oracle_ok P J rv (g\<lparr>g_privateKey := priv, g_publicKey := ed_public P priv\<rparr>) rs"
  using assms by (simp add: oracle_ok_def positioned_def)

lemma positioned_New:
  "isTrustedKey rv (ed_public P priv) \<Longrightarrow> positioned P (trusted_keys rv) (NewGeneratorWithKeys priv (ed_public P priv)) []"
  by (simp add: positioned_def NewGeneratorWithKeys_def)

lemma oracle_ok_New: "isTrustedKey rv (ed_public P priv) \<Longrightarrow> oracle_ok P J rv (NewGeneratorWithKeys priv (ed_public P priv)) []"
  using positioned_New [of rv P priv] by (simp add: oracle_ok_def chained_def) (simp add: NewGeneratorWithKeys_def)

context receipt_store
begin

lemma oracle_ok_issue:
  assumes "store_inv s" "oracle_ok P J rv g (receipts s)" "ed25519_correct P"
    and "IssueAndAppend P J S uid now tx pol p (g, s) = (res, g', s')"
  shows "store_inv s' \<and> oracle_ok P J rv g' (receipts s')"
proof -
  from assms(2) have c: "chained P J (trusted_keys rv) (receipts s)" "positioned P (trusted_keys rv) g (receipts s)"
    and t: "case g_threshold g of None \<Rightarrow> True | Some sign \<Rightarrow> sound_signer P rv sign"
    and a: "list_all (attested P J rv) (receipts s)"
    by (simp_all add: oracle_ok_def)
  from IssueAndAppend_keeps_chain [OF assms(1) c assms(3,4)]
  have k: "store_inv s' \<and> chained P J (trusted_keys rv) (receipts s') \<and> positioned P (trusted_keys rv) g' (receipts s')" .
  have "list_all (attested P J rv) (receipts s') \<and> g_threshold g' = g_threshold g"
  proof (rule IssueAndAppend_cases [OF assms(1), of P J uid now tx pol p g])
    fix r s''
    assume *: "IssueAndAppend P J S uid now tx pol p (g, s) = (Inr r, (defaultProofs g)\<lparr>g_seqNo := g_seqNo g + 1,
        g_lastHash := Some (sha256 P (rcpt_Signature r))\<rparr>, s'')"
      "issued_by P J g uid now tx pol p r" "receipts s'' = receipts s @ [r]"
    with assms(4) have "s' = s''" "g_threshold g' = g_threshold g" by auto
    with issued_attested [OF *(2) t] * a show ?thesis by simp
  next
    fix e
    assume "IssueAndAppend P J S uid now tx pol p (g, s) = (Inl e, defaultProofs g, s)"
    with assms(4) have "s' = s" "g_threshold g' = g_threshold g" by auto
    with a show ?thesis by simp
  qed
  with k t show ?thesis by (simp add: oracle_ok_def)
qed

text \<open>A fresh generator seeded from the store continues the chain, if its key is the last receipt's.\<close>

lemma oracle_ok_seeded:
  assumes inv: "store_inv s" and "chained P J (trusted_keys rv) (receipts s)" "list_all (attested P J rv) (receipts s)"
    and g0: "oracle_ok P J rv g0 []"
    and lst: "st_Last S s = Inr lst" "case lst of None \<Rightarrow> True | Some r \<Rightarrow> rcpt_OraclePublicKey r = g_publicKey g0"
    and len: "length (receipts s) < 2 ^ 64" and seed: "SeedChain P S s g0 = (None, g1)"
  shows "oracle_ok P J rv g1 (receipts s)"
proof -
  from last [OF inv chained_sorted [OF assms(2) len] lst(1)] lst(2)
  have "receipts s = [] \<or> rcpt_OraclePublicKey (List.last (receipts s)) = g_publicKey g0" by (auto split: if_splits)
  with SeedChain_same_key [OF inv assms(2) len _ _ seed] g0
  have "positioned P (trusted_keys rv) g1 (receipts s) \<and> g_threshold g1 = g_threshold g0" by (simp add: oracle_ok_def)
  with assms(2,3) g0 show ?thesis by (simp add: oracle_ok_def)
qed

lemma oracle_reach_ok:
  assumes "oracle_reach P J fromSeed S rv s0 g s fs" "store_inv s0" "receipts s0 = []" "ed25519_correct P"
  shows "store_inv s \<and> oracle_ok P J rv g (receipts s)"
  using assms(1)
proof (induction rule: oracle_reach.induct)
  case (start F kp tmp path fs g fs')
  from NewGeneratorFromFile_keys [OF start(1)] start(2) obtain priv where "g = NewGeneratorWithKeys priv (ed_public P priv)" by blast
  with start(3) assms(2,3) oracle_ok_New [of rv P priv J] show ?case by (simp add: NewGeneratorWithKeys_def)
next
  case (issue g s fs uid now tx pol p res g' s')
  with oracle_ok_issue [OF _ _ assms(4)] show ?case by blast
next
  case (proofs g s fs pp)
  then show ?case by (simp add: oracle_ok_config)
next
  case (threshold g s fs signer)
  then show ?case by (simp add: oracle_ok_config)
next
  case (rotate g s fs F kp tmp stamp path res g' fs')
  obtain pub priv where kp: "kp = (pub, priv)" by (cases kp)
  with rotate have "pub = ed_public P priv" "isTrustedKey rv (ed_public P priv)" by (auto simp: genuine_pair_def)
  with RotateKeyFile_gen [of F pub priv tmp stamp path g fs res g' fs'] rotate kp oracle_ok_keys [of P J rv g "receipts s" priv]
  show ?case by auto
next
  case (restart g s fs F kp tmp path g0 fs' lst n g1)
  from NewGeneratorFromFile_keys [OF restart(2)] restart(3) obtain priv where g0: "g0 = NewGeneratorWithKeys priv (ed_public P priv)" by blast
  from restart.IH have inv: "store_inv s" and ok: "oracle_ok P J rv g (receipts s)" by simp_all
  then have c: "chained P J (trusted_keys rv) (receipts s)" "list_all (attested P J rv) (receipts s)" by (simp_all add: oracle_ok_def)
  from count [OF inv restart(7)] restart(8) have len: "length (receipts s) < 2 ^ 64" by simp
  have "isTrustedKey rv (ed_public P priv)" using restart(4) g0 by (simp add: NewGeneratorWithKeys_def)
  from oracle_ok_New [OF this] g0 have "oracle_ok P J rv g0 []" by simp
  from oracle_ok_seeded [OF inv c this restart(5,6) len restart(9)] inv show ?case by simp
qed

end

lemma chained_seq:
  assumes "chained P J keys rs" "length rs < 2 ^ 64" "i < length rs"
  shows "unat (rcpt_SeqNo (rs ! i)) = Suc i"
proof -
  from assms(1,3) have "rcpt_SeqNo (rs ! i) = word_of_nat (Suc i)" unfolding chained_def by blast
  then show ?thesis using assms(2,3) by (simp add: unat_of_nat del: of_nat_Suc)
qed

text \<open>A range query on a chained history returns a contiguous piece of it.\<close>

lemma chained_range:
  assumes "chained P J keys rs" "length rs < 2 ^ 64"
  shows "filter (in_range a b) rs = map (nth rs) [unat a - 1 ..< min (unat b) (length rs)]"
proof -
  let ?n = "length rs"
  have "filter (in_range a b) rs = filter (in_range a b) (map (nth rs) [0..<?n])" by (simp add: map_nth)
  also have "\<dots> = map (nth rs) (filter (\<lambda>i. in_range a b (rs ! i)) [0..<?n])" by (simp add: filter_map comp_def)
  also have "filter (\<lambda>i. in_range a b (rs ! i)) [0..<?n] = filter (\<lambda>i. unat a - 1 \<le> i \<and> i < unat b) [0..<?n]"
    using chained_seq [OF assms] by (intro filter_cong) (auto simp: in_range_def word_le_nat_alt)
  also have "\<dots> = [unat a - 1 ..< min (unat b) ?n]"
    by (rule sorted_distinct_set_unique) (auto intro: sorted_filter [where f = "\<lambda>x. x", simplified])
  finally show ?thesis .
qed

lemma successively_segment:
  assumes "\<And>i. Suc i < length xs \<Longrightarrow> R (xs ! i) (xs ! Suc i)" "hi \<le> length xs"
  shows "successively R (map (nth xs) [lo..<hi])"
proof -
  have "R (xs ! (lo + i)) (xs ! (lo + Suc i))" if "Suc i < hi - lo" for i
    using assms(1) [of "lo + i"] assms(2) that by simp
  then show ?thesis by (simp add: successively_conv_nth)
qed

lemma chained_range_linked:
  assumes "chained P J keys rs" "length rs < 2 ^ 64"
  shows "successively (linked P) (filter (in_range a b) rs)"
proof -
  have l: "linked P (rs ! i) (rs ! Suc i)" if "Suc i < length rs" for i
  proof -
    from assms(1) that have "rcpt_SeqNo (rs ! i) = word_of_nat (Suc i)" "rcpt_SeqNo (rs ! Suc i) = word_of_nat (Suc (Suc i))"
      "rcpt_PreviousHash (rs ! Suc i) = Some (sha256 P (rcpt_Signature (rs ! i)))"
      unfolding chained_def by auto
    then show ?thesis by (simp add: linked_def)
  qed
  show ?thesis
    unfolding chained_range [OF assms]
    by (rule successively_segment) (use l in simp_all)
qed

lemma chained_validates:
  assumes c: "chained P J (trusted_keys rv) rs" and a: "list_all (attested P J rv) rs"
    and len: "length rs < 2 ^ 64" and ne: "filter (in_range a b) rs \<noteq> []"
  shows "ValidateReceiptChain P J rv (filter (in_range a b) rs) = None"
proof -
  have "receipt_ok P J rv r" if "r \<in> set rs" for r
  proof -
    from that obtain i where "i < length rs" "r = rs ! i" by (auto simp: in_set_conv_nth)
    with c have "Verify P J r = Inr True" "isTrustedKey rv (rcpt_OraclePublicKey r)"
      unfolding chained_def by auto
    with a that show ?thesis by (simp add: receipt_ok_def list_all_iff)
  qed
  with ne chained_range_linked [OF c len] show ?thesis
    by (auto simp: ValidateReceiptChain_None_iff list_all_iff)
qed

lemma oracle_ok_validates:
  assumes "oracle_ok P J rv g rs" "length rs < 2 ^ 64" "filter (in_range a b) rs \<noteq> []"
  shows "ValidateReceiptChain P J rv (filter (in_range a b) rs) = None"
  using assms by (intro chained_validates) (simp_all add: oracle_ok_def)


lemma toy_gen_priv: "toy_gen = NewGeneratorWithKeys (toy_priv 1) (ed_public toy_ed (toy_priv 1))"
  by (simp add: toy_gen_def toy_priv_def)

lemma toy_issue_stored:
  "\<exists>r g' s'. IssueAndAppend toy_ed toy_codec MemoryStoreOps ''id1'' 5 ''tx1'' ''pol'' (path_of [ch_hop] ''fp'')
       (toy_gen, NewMemoryStore) = (Inr r, g', s') \<and> ms_receipts s' = [r] \<and> rcpt_SeqNo r = 1"
proof -
  have "\<exists>r h. buildReceiptLocked toy_ed toy_codec ''id1'' 5 ''tx1'' ''pol'' (path_of [ch_hop] ''fp'') toy_gen
    = (Inr (r, h), defaultProofs toy_gen) \<and> rcpt_SeqNo r = 1"
    by (simp add: buildReceiptLocked_def toy_gen_def NewGeneratorWithKeys_def defaultProofs_def path_of_def
        PlaceholderProofProvider_def toy_codec_def marshalForSigning_def PrivateKeySize_def Let_def unsignedReceipt_def)
  then obtain r h where b: "buildReceiptLocked toy_ed toy_codec ''id1'' 5 ''tx1'' ''pol'' (path_of [ch_hop] ''fp'') toy_gen
    = (Inr (r, h), defaultProofs toy_gen)" "rcpt_SeqNo r = 1" by blast
  then show ?thesis
    by (simp add: IssueAndAppend_def MemoryStoreOps_def Memory_Append_def NewMemoryStore_def)
qed


text \<open>
  C40. A gap between rotation and restart: when the key in the file is not the one that signed the
  last receipt (a rotation with no receipt issued before the restart), the restarted oracle
  continues the sequence numbers but not the hash chain, so its next receipt and the last one are
  consecutive and yet no chain containing this boundary validates, for any set of trusted keys.
\<close>

theorem restart_after_rotation_breaks_chain:
  assumes "Memory_Last s = Inr (Some lst)" and "rcpt_OraclePublicKey lst \<noteq> pub"
    and "SeedChain P MemoryStoreOps s (NewGeneratorWithKeys priv pub) = (None, g)"
    and "Issue P J uid now tx pol path g = (Inr r, g')"
  shows "rcpt_SeqNo r = rcpt_SeqNo lst + 1 \<and> ValidateReceiptChain P J rv (xs @ lst # r # ys) \<noteq> None"
proof -
  from assms(1-3) have "g_lastHash g = None" "g_seqNo g = rcpt_SeqNo lst"
    by (auto simp: SeedChain_def MemoryStoreOps_def NewGeneratorWithKeys_def Let_def)
  with Issue_issued [OF assms(4)] have "rcpt_PreviousHash r = None" "rcpt_SeqNo r = rcpt_SeqNo lst + 1"
    by (simp_all add: issued_by_def)
  then show ?thesis
    by (auto simp: ValidateReceiptChain_None_iff linked_def successively_append_iff)
qed

theorem restart_after_rotation_breaks_chain_witness:
  "\<exists>s lst g r g'. Memory_Last s = Inr (Some lst)
     \<and> SeedChain toy_ed MemoryStoreOps s (NewGeneratorWithKeys (toy_priv 2) (ed_public toy_ed (toy_priv 2))) = (None, g)
     \<and> Issue toy_ed toy_codec ''id2'' 6 ''tx2'' ''pol'' (path_of [ch_hop] ''fp'') g = (Inr r, g')
     \<and> ValidateReceiptChain toy_ed toy_codec (NewReceiptValidator 0) [lst, r] \<noteq> None"
proof -
  let ?pub = "ed_public toy_ed (toy_priv 2)"
  let ?g0 = "NewGeneratorWithKeys (toy_priv 2) ?pub"
  obtain lst g' s where i: "IssueAndAppend toy_ed toy_codec MemoryStoreOps ''id1'' 5 ''tx1'' ''pol'' (path_of [ch_hop] ''fp'')
       (toy_gen, NewMemoryStore) = (Inr lst, g', s)" "ms_receipts s = [lst]" "rcpt_SeqNo lst = 1"
    using toy_issue_stored by blast
  from i have key: "rcpt_OraclePublicKey lst = ed_public toy_ed (toy_priv 1)"
    by (cases rule: mem.IssueAndAppend_cases [OF memory_inv_New, of toy_ed toy_codec "''id1''" 5 "''tx1''" "''pol''" "path_of [ch_hop] ''fp''" toy_gen])
       (auto simp: issued_by_def toy_gen_priv NewGeneratorWithKeys_def)
  have ne: "rcpt_OraclePublicKey lst \<noteq> ?pub"
    unfolding key by (simp add: toy_ed_def toy_prims_def toy_priv_def)
  have last: "Memory_Last s = Inr (Some lst)" using i by (simp add: Memory_Last_def)
  then have seed: "SeedChain toy_ed MemoryStoreOps s ?g0 = (None, ?g0\<lparr>g_seqNo := 1\<rparr>)"
    using ne i by (simp add: SeedChain_def MemoryStoreOps_def NewGeneratorWithKeys_def)
  have "\<exists>r h. buildReceiptLocked toy_ed toy_codec ''id2'' 6 ''tx2'' ''pol'' (path_of [ch_hop] ''fp'') (?g0\<lparr>g_seqNo := 1\<rparr>)
    = (Inr (r, h), defaultProofs (?g0\<lparr>g_seqNo := 1\<rparr>))"
    by (simp add: buildReceiptLocked_def NewGeneratorWithKeys_def defaultProofs_def path_of_def toy_priv_def
        PlaceholderProofProvider_def toy_codec_def marshalForSigning_def PrivateKeySize_def Let_def)
  then obtain r g2 where iss: "Issue toy_ed toy_codec ''id2'' 6 ''tx2'' ''pol'' (path_of [ch_hop] ''fp'') (?g0\<lparr>g_seqNo := 1\<rparr>) = (Inr r, g2)"
    by (auto simp: Issue_def)
  from restart_after_rotation_breaks_chain [OF last ne seed iss, of "NewReceiptValidator 0" "[]" "[]"]
  have "ValidateReceiptChain toy_ed toy_codec (NewReceiptValidator 0) [lst, r] \<noteq> None" by simp
  with last seed iss show ?thesis by blast
qed

end
