(* ===== verification/JP_Violation.thy ===== *)
theory JP_Violation
  imports JP_Model "HOL-Library.Multiset"
begin

text \<open>
  The violation detector and the in-memory violation store of \<^verbatim>\<open>internal/violation\<close>.
  Subscriber channels are explicit objects: a bounded buffer and a closed flag, addressed by
  number.  \<open>Record\<close> takes a snapshot of the listeners under the detector's lock and notifies them
  after releasing it, so it is modelled as two steps, \<open>recordBegin\<close> and \<open>notifyAll\<close>, between
  which other operations may run; a send on a closed channel panics (\<open>None\<close>).
\<close>

section \<open>store.go\<close>

record 'v ViolationStore =
  vst_Append :: "Violation \<Rightarrow> 'v \<Rightarrow> string option \<times> 'v"
  vst_GetByID :: "string \<Rightarrow> 'v \<Rightarrow> string + Violation option"
  vst_GetByTxID :: "string \<Rightarrow> 'v \<Rightarrow> string + Violation option"
  vst_List :: "'v \<Rightarrow> string + Violation list"
  vst_Count :: "'v \<Rightarrow> string + nat"

record MemoryViolationStore =
  mv_violations :: "Violation list"
  mv_byID :: "string \<rightharpoonup> Violation"
  mv_byTxID :: "string \<rightharpoonup> Violation"

definition NewMemoryViolationStore :: MemoryViolationStore where
  "NewMemoryViolationStore = \<lparr>mv_violations = [], mv_byID = Map.empty, mv_byTxID = Map.empty\<rparr>"

definition MemoryViolation_Append :: "Violation \<Rightarrow> MemoryViolationStore \<Rightarrow> string option \<times> MemoryViolationStore" where
  "MemoryViolation_Append v s =
     (None, s\<lparr>mv_violations := mv_violations s @ [v], mv_byID := (mv_byID s)(viol_ID v \<mapsto> v),
              mv_byTxID := (mv_byTxID s)(viol_TransactionID v \<mapsto> v)\<rparr>)"

definition MemoryViolation_GetByID :: "string \<Rightarrow> MemoryViolationStore \<Rightarrow> string + Violation option" where
  "MemoryViolation_GetByID i s = Inr (mv_byID s i)"

definition MemoryViolation_GetByTxID :: "string \<Rightarrow> MemoryViolationStore \<Rightarrow> string + Violation option" where
  "MemoryViolation_GetByTxID i s = Inr (mv_byTxID s i)"

definition MemoryViolation_List :: "MemoryViolationStore \<Rightarrow> string + Violation list" where
  "MemoryViolation_List s = Inr (mv_violations s)"

definition MemoryViolation_Count :: "MemoryViolationStore \<Rightarrow> string + nat" where
  "MemoryViolation_Count s = Inr (length (mv_violations s))"

definition MemoryViolationOps :: "MemoryViolationStore ViolationStore" where
  "MemoryViolationOps = \<lparr>vst_Append = MemoryViolation_Append, vst_GetByID = MemoryViolation_GetByID,
     vst_GetByTxID = MemoryViolation_GetByTxID, vst_List = MemoryViolation_List, vst_Count = MemoryViolation_Count\<rparr>"

section \<open>detector.go\<close>

record vchan =
  ch_buf :: "Violation list"
  ch_closed :: bool

record 'v Detector =
  det_store :: 'v
  det_listeners :: "nat list"
  det_chans :: "nat \<Rightarrow> vchan"
  det_next :: nat

definition chanCapacity :: nat where
  "chanCapacity = 64"

definition NewDetector :: "'v \<Rightarrow> 'v Detector" where
  "NewDetector store = \<lparr>det_store = store, det_listeners = [], det_chans = (\<lambda>_. \<lparr>ch_buf = [], ch_closed = False\<rparr>), det_next = 0\<rparr>"

definition classifySeverity :: "ASHop list \<Rightarrow> string" where
  "classifySeverity offending =
     (if length offending \<ge> 3 then ''critical'' else if length offending \<ge> 1 then ''high'' else ''medium'')"

text \<open>The first part of \<open>Record\<close>: build, persist (a failure is only logged), and copy the listener list.\<close>

definition recordBegin ::
  "'v ViolationStore \<Rightarrow> string \<Rightarrow> time \<Rightarrow> string \<Rightarrow> string \<Rightarrow> Clause \<Rightarrow> SCIONPath \<Rightarrow> ASHop list \<Rightarrow> 'v Detector
   \<Rightarrow> Violation \<times> nat list \<times> 'v Detector" where
  "recordBegin V uid now txID policyID violatedClause path offending d =
     (let v = \<lparr>viol_ID = uid, viol_TransactionID = txID, viol_PolicyID = policyID, viol_Path = path,
               viol_EvidenceClass = NormalizeEvidenceClass (path_EvidenceClass path),
               viol_ProofStatus = NormalizeProofStatus (path_ProofStatus path),
               viol_ViolatedClause = violatedClause, viol_Severity = classifySeverity offending,
               viol_OffendingHops = offending, viol_Timestamp = now\<rparr>;
          (_, store') = vst_Append V v (det_store d)
      in (v, det_listeners d, d\<lparr>det_store := store'\<rparr>))"

text \<open>The non-blocking send: a full buffer drops the event, a closed channel panics.\<close>

definition trySend :: "Violation \<Rightarrow> vchan \<Rightarrow> vchan option" where
  "trySend v ch =
     (if ch_closed ch then None
      else if length (ch_buf ch) < chanCapacity then Some (ch\<lparr>ch_buf := ch_buf ch @ [v]\<rparr>)
      else Some ch)"

fun notifyAll :: "Violation \<Rightarrow> nat list \<Rightarrow> 'v Detector \<Rightarrow> 'v Detector option" where
  "notifyAll v [] d = Some d"
| "notifyAll v (c # cs) d =
     (case trySend v (det_chans d c) of
        None \<Rightarrow> None
      | Some ch \<Rightarrow> notifyAll v cs (d\<lparr>det_chans := (det_chans d)(c := ch)\<rparr>))"

definition Record ::
  "'v ViolationStore \<Rightarrow> string \<Rightarrow> time \<Rightarrow> string \<Rightarrow> string \<Rightarrow> Clause \<Rightarrow> SCIONPath \<Rightarrow> ASHop list \<Rightarrow> 'v Detector
   \<Rightarrow> (Violation \<times> 'v Detector) option" where
  "Record V uid now txID policyID violatedClause path offending d =
     (case recordBegin V uid now txID policyID violatedClause path offending d of
        (v, listeners, d1) \<Rightarrow> map_option (Pair v) (notifyAll v listeners d1))"

definition Subscribe :: "'v Detector \<Rightarrow> nat \<times> 'v Detector" where
  "Subscribe d =
     (det_next d,
      d\<lparr>det_chans := (det_chans d)(det_next d := \<lparr>ch_buf = [], ch_closed = False\<rparr>),
        det_listeners := det_listeners d @ [det_next d], det_next := Suc (det_next d)\<rparr>)"

definition Unsubscribe :: "nat \<Rightarrow> 'v Detector \<Rightarrow> 'v Detector" where
  "Unsubscribe c d =
     (if c \<in> set (det_listeners d)
      then d\<lparr>det_listeners := remove1 c (det_listeners d),
             det_chans := (det_chans d)(c := (det_chans d c)\<lparr>ch_closed := True\<rparr>)\<rparr>
      else d)"

definition Detector_List :: "'v ViolationStore \<Rightarrow> 'v Detector \<Rightarrow> string + Violation list" where
  "Detector_List V d = vst_List V (det_store d)"

section \<open>Subscribers are open\<close>

definition det_inv :: "'v Detector \<Rightarrow> bool" where
  "det_inv d \<longleftrightarrow> distinct (det_listeners d) \<and>
     (\<forall>c\<in>set (det_listeners d). c < det_next d \<and> \<not> ch_closed (det_chans d c) \<and> length (ch_buf (det_chans d c)) \<le> chanCapacity)"

lemma det_inv_New: "det_inv (NewDetector s)"
  by (simp add: det_inv_def NewDetector_def)

lemma det_inv_Subscribe: "det_inv d \<Longrightarrow> det_inv (snd (Subscribe d))"
  by (auto simp: det_inv_def Subscribe_def)

lemma det_inv_Unsubscribe: "det_inv d \<Longrightarrow> det_inv (Unsubscribe c d)"
  by (auto simp: det_inv_def Unsubscribe_def)

lemma notifyAll_open:
  assumes "\<forall>c\<in>set cs. \<not> ch_closed (det_chans d c)" "distinct cs"
  shows "\<exists>d'. notifyAll v cs d = Some d' \<and> det_store d' = det_store d \<and> det_listeners d' = det_listeners d \<and>
    det_next d' = det_next d \<and>
    (\<forall>c. det_chans d' c = (if c \<in> set cs \<and> length (ch_buf (det_chans d c)) < chanCapacity
                           then (det_chans d c)\<lparr>ch_buf := ch_buf (det_chans d c) @ [v]\<rparr> else det_chans d c))"
  using assms
proof (induction cs arbitrary: d)
  case Nil
  then show ?case by simp
next
  case (Cons c cs)
  let ?ch = "if length (ch_buf (det_chans d c)) < chanCapacity
             then (det_chans d c)\<lparr>ch_buf := ch_buf (det_chans d c) @ [v]\<rparr> else det_chans d c"
  let ?d1 = "d\<lparr>det_chans := (det_chans d)(c := ?ch)\<rparr>"
  from Cons.prems have t: "trySend v (det_chans d c) = Some ?ch" by (simp add: trySend_def)
  have o: "\<forall>x\<in>set cs. \<not> ch_closed (det_chans ?d1 x)" "distinct cs" "c \<notin> set cs" using Cons.prems by auto
  from Cons.IH [OF o(1,2)] obtain d' where d': "notifyAll v cs ?d1 = Some d'" "det_store d' = det_store d"
    "det_listeners d' = det_listeners d" "det_next d' = det_next d"
    "\<forall>x. det_chans d' x = (if x \<in> set cs \<and> length (ch_buf (det_chans ?d1 x)) < chanCapacity
        then (det_chans ?d1 x)\<lparr>ch_buf := ch_buf (det_chans ?d1 x) @ [v]\<rparr> else det_chans ?d1 x)"
    by auto
  then show ?case using t o(3) by auto
qed

lemma Record_ok:
  assumes "det_inv d"
  obtains v d' where "Record V uid now tx pol clause path off d = Some (v, d')" "det_inv d'"
    "det_store d' = snd (vst_Append V v (det_store d))" "viol_ID v = uid" "viol_TransactionID v = tx" "viol_PolicyID v = pol"
    "viol_Path v = path" "viol_ViolatedClause v = clause" "viol_OffendingHops v = off" "viol_Timestamp v = now"
    "viol_Severity v = classifySeverity off" "det_listeners d' = det_listeners d"
    "\<And>c. det_chans d' c = (if c \<in> set (det_listeners d) \<and> length (ch_buf (det_chans d c)) < chanCapacity
                           then (det_chans d c)\<lparr>ch_buf := ch_buf (det_chans d c) @ [v]\<rparr> else det_chans d c)"
proof -
  obtain v ls d1 where b: "recordBegin V uid now tx pol clause path off d = (v, ls, d1)" by (metis surj_pair)
  then have f: "ls = det_listeners d" "d1 = d\<lparr>det_store := snd (vst_Append V v (det_store d))\<rparr>"
    "viol_ID v = uid" "viol_TransactionID v = tx" "viol_PolicyID v = pol" "viol_Path v = path"
    "viol_ViolatedClause v = clause" "viol_OffendingHops v = off" "viol_Timestamp v = now" "viol_Severity v = classifySeverity off"
    by (auto simp: recordBegin_def Let_def split: prod.splits)
  from assms have "\<forall>c\<in>set ls. \<not> ch_closed (det_chans d1 c)" "distinct ls" by (auto simp: det_inv_def f)
  from notifyAll_open [OF this, of v] obtain d' where n: "notifyAll v ls d1 = Some d'" "det_store d' = det_store d1"
    "det_listeners d' = det_listeners d1" "det_next d' = det_next d1"
    "\<forall>c. det_chans d' c = (if c \<in> set ls \<and> length (ch_buf (det_chans d1 c)) < chanCapacity
                           then (det_chans d1 c)\<lparr>ch_buf := ch_buf (det_chans d1 c) @ [v]\<rparr> else det_chans d1 c)" by blast
  have inv: "det_inv d'" using assms n f by (auto simp: det_inv_def)
  show thesis
    by (rule that [of v d']) (use b n f inv in \<open>auto simp: Record_def\<close>)
qed

text \<open>What a violation store promises: an append that succeeds adds the violation, one that fails adds nothing.\<close>

locale violation_store =
  fixes V :: "'v ViolationStore" and viols :: "'v \<Rightarrow> Violation list"
  assumes vappend_ok: "vst_Append V v s = (None, s') \<Longrightarrow> viols s' = viols s @ [v]"
    and vappend_err: "vst_Append V v s = (Some e, s') \<Longrightarrow> viols s' = viols s"
begin

lemma Record_viols:
  assumes "det_inv d" "Record V uid now tx pol clause path off d = Some (v, d')"
  shows "det_inv d' \<and> viols (det_store d') \<in> {viols (det_store d), viols (det_store d) @ [v]}"
proof (rule Record_ok [OF assms(1), of V uid now tx pol clause path off])
  fix w e
  assume *: "Record V uid now tx pol clause path off d = Some (w, e)" "det_inv e"
    "det_store e = snd (vst_Append V w (det_store d))"
  obtain err s' where a: "vst_Append V w (det_store d) = (err, s')" by fastforce
  with * assms(2) show ?thesis
    by (cases err) (auto dest: vappend_ok vappend_err)
qed

end

interpretation memv: violation_store MemoryViolationOps mv_violations
  by unfold_locales (auto simp: MemoryViolationOps_def MemoryViolation_Append_def)

text \<open>
  A store whose indexes are in order also finds what was appended: by identifier the latest
  violation with it, and, as long as identifiers are not reused, by transaction, in the list and in
  the count.
\<close>

locale indexed_violations = violation_store V viols
  for V :: "'v ViolationStore" and viols +
  fixes vinv :: "'v \<Rightarrow> bool"
  assumes vkeeps: "vinv s \<Longrightarrow> vst_Append V v s = (e, s') \<Longrightarrow> vinv s'"
    and vgetByID: "vinv s \<Longrightarrow> vst_GetByID V i s = Inr x \<Longrightarrow> x = find (\<lambda>v. viol_ID v = i) (rev (viols s))"
    and vgetByTxID: "vinv s \<Longrightarrow> distinct (map viol_ID (viols s)) \<Longrightarrow> vst_GetByTxID V t s = Inr x \<Longrightarrow>
      x = find (\<lambda>v. viol_TransactionID v = t) (rev (viols s))"
    and vlist: "vinv s \<Longrightarrow> distinct (map viol_ID (viols s)) \<Longrightarrow> vst_List V s = Inr vs \<Longrightarrow> mset vs = mset (viols s)"
    and vcount: "vinv s \<Longrightarrow> distinct (map viol_ID (viols s)) \<Longrightarrow> vst_Count V s = Inr n \<Longrightarrow> n = length (viols s)"
begin

lemma appended_found:
  assumes "vinv s" "vst_Append V v s = (None, s')"
  shows "vinv s'" "vst_GetByID V (viol_ID v) s' = Inr x \<Longrightarrow> x = Some v"
    "vst_List V s' = Inr vs \<Longrightarrow> distinct (map viol_ID (viols s')) \<Longrightarrow> v \<in> set vs"
proof -
  show i: "vinv s'" by (rule vkeeps [OF assms])
  have h: "viols s' = viols s @ [v]" by (rule vappend_ok [OF assms(2)])
  show "x = Some v" if "vst_GetByID V (viol_ID v) s' = Inr x" using vgetByID [OF i that] by (simp add: h)
  show "v \<in> set vs" if "vst_List V s' = Inr vs" "distinct (map viol_ID (viols s'))"
    using vlist [OF i that(2,1)] by (metis h in_set_conv_decomp set_mset_mset)
qed

end

definition memv_inv :: "MemoryViolationStore \<Rightarrow> bool" where
  "memv_inv s \<longleftrightarrow> mv_byID s = (\<lambda>i. find (\<lambda>v. viol_ID v = i) (rev (mv_violations s))) \<and>
     mv_byTxID s = (\<lambda>t. find (\<lambda>v. viol_TransactionID v = t) (rev (mv_violations s)))"

lemma memv_inv_New [simp]: "memv_inv NewMemoryViolationStore"
  by (simp add: memv_inv_def NewMemoryViolationStore_def)

interpretation memvi: indexed_violations MemoryViolationOps mv_violations memv_inv
  by unfold_locales
    (auto simp: MemoryViolationOps_def MemoryViolation_Append_def MemoryViolation_GetByID_def MemoryViolation_GetByTxID_def
      MemoryViolation_List_def MemoryViolation_Count_def memv_inv_def fun_eq_iff)

text \<open>
  Recording a violation keeps it and tells every subscriber that can take it: on a detector
  whose subscribers are open, \<open>Record\<close> succeeds, the violation is appended to the store and is
  found by identifier and by transaction, its severity is the class of its number of offending
  hops, every subscriber with room receives it last in its buffer, a full one keeps its buffer,
  and all subscribers stay open.
\<close>

theorem Record_persists_and_notifies:
  assumes "det_inv d"
  shows "\<exists>v d'. Record MemoryViolationOps uid now tx pol clause path off d = Some (v, d') \<and> det_inv d'
    \<and> viol_TransactionID v = tx \<and> viol_PolicyID v = pol \<and> viol_Path v = path \<and> viol_OffendingHops v = off
    \<and> viol_Severity v = (if length off \<ge> 3 then ''critical'' else if off = [] then ''medium'' else ''high'')
    \<and> MemoryViolation_List (det_store d') = Inr (mv_violations (det_store d) @ [v])
    \<and> MemoryViolation_GetByID uid (det_store d') = Inr (Some v) \<and> MemoryViolation_GetByTxID tx (det_store d') = Inr (Some v)
    \<and> det_listeners d' = det_listeners d
    \<and> (\<forall>c. ch_buf (det_chans d' c) = ch_buf (det_chans d c)
             @ (if c \<in> set (det_listeners d) \<and> length (ch_buf (det_chans d c)) < chanCapacity then [v] else []))"
proof (rule Record_ok [OF assms, of MemoryViolationOps uid now tx pol clause path off])
  fix v d'
  assume *: "Record MemoryViolationOps uid now tx pol clause path off d = Some (v, d')" "det_inv d'"
    "det_store d' = snd (vst_Append MemoryViolationOps v (det_store d))" "viol_ID v = uid" "viol_TransactionID v = tx" "viol_PolicyID v = pol"
    "viol_Path v = path" "viol_OffendingHops v = off" "viol_Severity v = classifySeverity off" "det_listeners d' = det_listeners d"
    "\<And>c. det_chans d' c = (if c \<in> set (det_listeners d) \<and> length (ch_buf (det_chans d c)) < chanCapacity
                           then (det_chans d c)\<lparr>ch_buf := ch_buf (det_chans d c) @ [v]\<rparr> else det_chans d c)"
  have sev: "classifySeverity off = (if length off \<ge> 3 then ''critical'' else if off = [] then ''medium'' else ''high'')"
    by (cases off) (simp_all add: classifySeverity_def)
  show ?thesis
    by (intro exI [of _ v] exI [of _ d'])
       (use * sev in \<open>simp add: MemoryViolationOps_def MemoryViolation_Append_def MemoryViolation_List_def
          MemoryViolation_GetByID_def MemoryViolation_GetByTxID_def\<close>)
qed

definition demo_detector :: "MemoryViolationStore Detector" where
  "demo_detector = snd (Subscribe (NewDetector NewMemoryViolationStore))"

theorem Record_persists_and_notifies_witness:
  "\<exists>v d'. Record MemoryViolationOps ''v1'' 9 ''tx'' ''pol'' NoClause
        \<lparr>path_Raw = [], path_Hops = [], path_Fingerprint = '''', path_EvidenceClass = '''', path_ProofStatus = ''''\<rparr> [] demo_detector
      = Some (v, d') \<and> viol_Severity v = ''medium'' \<and> ch_buf (det_chans d' 0) = [v]"
proof -
  have i: "det_inv demo_detector" by (simp add: demo_detector_def det_inv_Subscribe det_inv_New)
  have "0 \<in> set (det_listeners demo_detector)" "ch_buf (det_chans demo_detector 0) = []"
    by (simp_all add: demo_detector_def Subscribe_def NewDetector_def)
  with Record_persists_and_notifies [OF i, of "''v1''" 9 "''tx''" "''pol''" NoClause
      "\<lparr>path_Raw = [], path_Hops = [], path_Fingerprint = '''', path_EvidenceClass = '''', path_ProofStatus = ''''\<rparr>" "[]"]
  show ?thesis by (auto simp: chanCapacity_def)
qed

text \<open>
  A race between recording and unsubscribing: if a subscriber leaves after \<open>Record\<close> has taken
  its snapshot of the listeners and before it notifies them, the notification sends on a closed
  channel and panics, whatever the state of the other subscribers before it in the list; the
  violation itself is already stored.
\<close>

theorem Record_races_with_Unsubscribe:
  assumes "c \<in> set (det_listeners d)"
    and "recordBegin V uid now tx pol clause path off d = (v, listeners, d1)"
  shows "notifyAll v listeners (Unsubscribe c d1) = None"
proof -
  have closed: "notifyAll v cs e = None" if "c \<in> set cs" "ch_closed (det_chans e c)" for cs and e :: "'a Detector"
    using that
  proof (induction cs arbitrary: e)
    case (Cons x xs)
    show ?case
    proof (cases "x = c \<or> ch_closed (det_chans e x)")
      case True
      with Cons.prems show ?thesis by (auto simp: trySend_def)
    next
      case False
      then obtain ch where t: "trySend v (det_chans e x) = Some ch"
        by (cases "trySend v (det_chans e x)") (auto simp: trySend_def split: if_splits)
      with False Cons.prems Cons.IH [of "e\<lparr>det_chans := (det_chans e)(x := ch)\<rparr>"] show ?thesis by auto
    qed
  qed simp
  from assms have "listeners = det_listeners d" "det_listeners d1 = det_listeners d"
    by (auto simp: recordBegin_def Let_def split: prod.splits)
  with assms(1) show ?thesis by (intro closed) (auto simp: Unsubscribe_def)
qed

theorem Record_races_with_Unsubscribe_witness:
  "\<exists>v ls d1. recordBegin MemoryViolationOps ''v1'' 9 ''tx'' ''pol'' NoClause
        \<lparr>path_Raw = [], path_Hops = [], path_Fingerprint = '''', path_EvidenceClass = '''', path_ProofStatus = ''''\<rparr> [] demo_detector
      = (v, ls, d1) \<and> notifyAll v ls (Unsubscribe 0 d1) = None"
proof -
  let ?p = "\<lparr>path_Raw = [], path_Hops = [], path_Fingerprint = '''', path_EvidenceClass = '''', path_ProofStatus = ''''\<rparr>"
  obtain v ls d1 where b: "recordBegin MemoryViolationOps ''v1'' 9 ''tx'' ''pol'' NoClause ?p [] demo_detector = (v, ls, d1)"
    by (metis surj_pair)
  have "0 \<in> set (det_listeners demo_detector)" by (simp add: demo_detector_def Subscribe_def NewDetector_def)
  from Record_races_with_Unsubscribe [OF this b] b show ?thesis by blast
qed

end
