(* ===== verification/JP_Api.thy ===== *)
theory JP_Api
  imports JP_Validator JP_Consensus JP_Violation
begin

text \<open>
  The HTTP API of \<^verbatim>\<open>internal/api/server.go\<close>: every handler as a function from the decoded
  request and the server state to a response and a new state.  The outcome of decoding a body
  (\<open>None\<close> when it is malformed or too large), the identifiers, the clock readings and the iteration
  choices of one request are arguments (\<open>reqEnv\<close>).  \<open>Server.ledger\<close> is the ledger of the consensus
  engine, as the program builds it.  A response carries the status code and the error code;
  message texts are not modelled.  Handlers run one at a time in this model: the Go program
  serialises the ledger, the engine, the generator and the stores by their locks.
\<close>

section \<open>Dependencies and requests\<close>

record settlePayload =
  spl_TransactionID :: string
  spl_From :: string
  spl_To :: string
  spl_Amount :: int64
  spl_Currency :: string
  spl_PolicyID :: string
  spl_RawPathSHA256 :: string

record ('s, 'v) deps =
  dp_prims :: prims
  dp_codec :: codec
  dp_store :: "'s Store"
  dp_vstore :: "'v ViolationStore"
  dp_jsSettle :: "settlePayload \<Rightarrow> bytes option"

record reqEnv =
  e_uuid :: "nat \<Rightarrow> string"
  e_clk :: "nat \<Rightarrow> time"
  e_pick :: nat
  e_faults :: os_faults
  e_genKey :: "(bytes \<times> bytes) option"
  e_tmp :: string
  e_stamp :: string

datatype AuditValue = AStr string | ABool bool | AInt int64 | ANat nat | AErrorText

record AuditEntry =
  au_Timestamp :: time
  au_EventType :: string
  au_Details :: "(string \<times> AuditValue) list"

record ('s, 'v) Server =
  sv_policies :: "Policy list"
  sv_checkers :: "string \<rightharpoonup> Checker"
  sv_filters :: "string \<rightharpoonup> Policy"
  sv_receipts :: 's
  sv_generator :: Generator
  sv_detector :: "'v Detector"
  sv_extractor :: PathExtractor
  sv_engine :: ConsensusEngine
  sv_auditCh :: "AuditEntry list"
  sv_auditFailures :: uint64
  sv_startTime :: time
  sv_apiToken :: string
  sv_adminToken :: string
  sv_oracleKeyPath :: string
  sv_keyfs :: fsys

record CheckRequest =
  creq_TransactionID :: string
  creq_PolicyID :: string
  creq_RawPath :: bytes

text \<open>The settlement handler distinguishes a missing raw path (nil) from an empty one.\<close>

record SettleRequest =
  sreq_TransactionID :: string
  sreq_From :: string
  sreq_To :: string
  sreq_Amount :: int64
  sreq_Currency :: string
  sreq_PolicyID :: string
  sreq_RawPath :: "bytes option"

record FilterPathsRequest =
  freq_PolicyID :: string
  freq_Paths :: "SCIONPath list"

datatype SettleFault =
    TransactionNotFound string
  | TransactionNotConfirmed string TxStatus
  | ReceiptLookupFailed StoreError
  | MissingDurableReceipt string
  | LegacyWithoutFingerprint string
  | SettlementPathExtraction BuildError
  | SettlementFingerprintMismatch string string
  | SettlementIssue IssueError
  | SettlementAttach LedgerError

record SettleResponse =
  sr_Consensus :: "ConsensusResult option"
  sr_Compliance :: "PolicyResult option"
  sr_ReceiptPersisted :: "bool option"
  sr_PersistenceWarning :: string
  sr_Idempotent :: bool
  sr_Code :: string
  sr_Error :: "SettleFault option"

record VerifyChainResponse =
  vc_ChainLength :: nat
  vc_OraclePublicKey :: bytes
  vc_OraclePublicKeys :: "bytes list"
  vc_Receipts :: "ComplianceReceipt list"

record RotateKeyResponse =
  rk_OldOraclePublicKey :: bytes
  rk_NewOraclePublicKey :: bytes
  rk_ArchivedKeyPath :: string
  rk_RotatedAt :: time
  rk_ReceiptCount :: nat
  rk_LastReceiptSeqNo :: "uint64 option"

text \<open>
  \<open>RPanic\<close> is a handler that panics, before the recovery middleware answers for it; \<open>RNotRouted\<close>
  stands for everything the multiplexer serves outside the modelled endpoints.
\<close>

datatype Response =
    RError nat string
  | RPanic
  | RNotRouted
  | RPolicyResult PolicyResult
  | RSettle nat SettleResponse
  | RReceipts "ComplianceReceipt list"
  | RViolations "Violation list"
  | RPolicies "Policy list"
  | RFilter FilterResult
  | RLedger "ValidatorState list" uint64
  | RTransactions "Transaction list"
  | RVerifyChain VerifyChainResponse
  | RRotateKey RotateKeyResponse
  | RHealth bool uint64 nat int

abbreviation sv_ledger :: "('s, 'v) Server \<Rightarrow> Ledger" where
  "sv_ledger s \<equiv> ce_ledger (sv_engine s)"

section \<open>Construction\<close>

definition NewServer ::
  "Policy list \<Rightarrow> Generator \<Rightarrow> PathExtractor \<Rightarrow> ConsensusEngine \<Rightarrow> 's \<Rightarrow> 'v Detector \<Rightarrow> time \<Rightarrow> string \<Rightarrow> string \<Rightarrow> string \<Rightarrow> fsys
   \<Rightarrow> ('s, 'v) Server" where
  "NewServer policies gen ext engine rs det now apiToken adminToken oracleKeyPath fs =
     \<lparr>sv_policies = policies,
      sv_checkers = fold (\<lambda>p m. m(pol_ID p \<mapsto> NewChecker p)) policies Map.empty,
      sv_filters = fold (\<lambda>p m. m(pol_ID p \<mapsto> p)) policies Map.empty,
      sv_receipts = rs, sv_generator = gen, sv_detector = det, sv_extractor = ext, sv_engine = engine,
      sv_auditCh = [], sv_auditFailures = 0, sv_startTime = now, sv_apiToken = apiToken, sv_adminToken = adminToken,
      sv_oracleKeyPath = oracleKeyPath, sv_keyfs = fs\<rparr>"

section \<open>Audit trail\<close>

definition auditCapacity :: nat where
  "auditCapacity = 4096"

text \<open>
  An entry that finds the channel full and sees no room within the waiting time is dropped and
  counted; room made by the writer during the wait is a writer step before this one.
\<close>

definition audit ::
  "string \<Rightarrow> (string \<times> AuditValue) list \<Rightarrow> time \<Rightarrow> ('s, 'v) Server \<Rightarrow> ('s, 'v) Server" where
  "audit eventType details now s =
     (if length (sv_auditCh s) < auditCapacity
      then s\<lparr>sv_auditCh := sv_auditCh s @ [\<lparr>au_Timestamp = now, au_EventType = eventType, au_Details = details\<rparr>]\<rparr>
      else s\<lparr>sv_auditFailures := sv_auditFailures s + 1\<rparr>)"

text \<open>One iteration of the background writer; \<open>fails\<close> says whether the log append fails.\<close>

definition auditWriter :: "bool \<Rightarrow> ('s, 'v) Server \<Rightarrow> AuditEntry option \<times> ('s, 'v) Server" where
  "auditWriter fails s =
     (case sv_auditCh s of
        [] \<Rightarrow> (None, s)
      | entry # rest \<Rightarrow>
          if fails then (None, s\<lparr>sv_auditCh := rest, sv_auditFailures := sv_auditFailures s + 1\<rparr>)
          else (Some entry, s\<lparr>sv_auditCh := rest\<rparr>))"

definition receiptIDFromError :: "IssueError \<Rightarrow> string" where
  "receiptIDFromError e = (case e of AppendError rid _ \<Rightarrow> rid | _ \<Rightarrow> '''')"

definition auditReceiptPersistenceFailure ::
  "string \<Rightarrow> string \<Rightarrow> string \<Rightarrow> string \<Rightarrow> time \<Rightarrow> ('s, 'v) Server \<Rightarrow> ('s, 'v) Server" where
  "auditReceiptPersistenceFailure ctxt txID policyID receiptID now s =
     audit ''receipt_persist_failure''
       [(''context'', AStr ctxt), (''tx_id'', AStr txID), (''policy_id'', AStr policyID), (''receipt_id'', AStr receiptID),
        (''outcome'', AStr ''error''), (''code'', AStr ''RECEIPT_PERSISTENCE_FAILED''), (''error'', AErrorText)] now s"

section \<open>POST /api/check\<close>

definition issueReceipt ::
  "('s, 'v) deps \<Rightarrow> string \<Rightarrow> time \<Rightarrow> string \<Rightarrow> string \<Rightarrow> SCIONPath \<Rightarrow> ('s, 'v) Server
   \<Rightarrow> (IssueError + ComplianceReceipt) \<times> ('s, 'v) Server" where
  "issueReceipt D uid now txID policyID path s =
     (case IssueAndAppend (dp_prims D) (dp_codec D) (dp_store D) uid now txID policyID path (sv_generator s, sv_receipts s) of
        (r, g, st) \<Rightarrow> (r, s\<lparr>sv_generator := g, sv_receipts := st\<rparr>))"

definition handleCheck ::
  "('s, 'v) deps \<Rightarrow> reqEnv \<Rightarrow> CheckRequest option \<Rightarrow> ('s, 'v) Server \<Rightarrow> Response \<times> ('s, 'v) Server" where
  "handleCheck D env body s =
     (case body of
        None \<Rightarrow> (RError 400 ''INVALID_REQUEST'',
                 audit ''check'' [(''outcome'', AStr ''error''), (''code'', AStr ''INVALID_REQUEST''), (''error'', AErrorText)] (e_clk env 9) s)
      | Some req \<Rightarrow>
         let txID = (if creq_TransactionID req = '''' then e_uuid env 0 else creq_TransactionID req);
             err = (\<lambda>code extra s. audit ''check'' ([(''tx_id'', AStr txID), (''policy_id'', AStr (creq_PolicyID req)),
                                             (''outcome'', AStr ''error''), (''code'', AStr code)] @ extra) (e_clk env 9) s) in
         if creq_TransactionID req \<noteq> '''' \<and> GetTransaction txID (sv_ledger s) \<noteq> None
         then (RError 409 ''TX_ID_RESERVED'', err ''TX_ID_RESERVED'' [] s)
         else (case sv_checkers s (creq_PolicyID req) of
           None \<Rightarrow> (RError 400 ''UNKNOWN_POLICY'', err ''UNKNOWN_POLICY'' [] s)
         | Some checker \<Rightarrow>
            (case BuildSCIONPath (dp_prims D) (sv_extractor s) (creq_RawPath req) of
               Inl e \<Rightarrow> (RError 400 ''INVALID_REQUEST'', err ''INVALID_REQUEST'' [(''error'', AErrorText)] s)
             | Inr path \<Rightarrow>
                (case Checker_Check path (e_clk env 0) (e_clk env 1) (e_clk env 2) checker of
                   (r, checker') \<Rightarrow>
                     let s1 = s\<lparr>sv_checkers := (sv_checkers s)(creq_PolicyID req \<mapsto> checker')\<rparr> in
                     (case r of
                        Inl e \<Rightarrow> (RError 500 ''INTERNAL_ERROR'', err ''INTERNAL_ERROR'' [(''error'', AErrorText)] s1)
                      | Inr result \<Rightarrow>
                         if cr_Compliant result then
                           (case issueReceipt D (e_uuid env 1) (e_clk env 3) txID (creq_PolicyID req) path s1 of
                              (Inl e, s2) \<Rightarrow>
                                if e = SigningKeyPanic then (RPanic, s2)
                                else
                                  let s3 = (if receiptIDFromError e \<noteq> ''''
                                            then auditReceiptPersistenceFailure ''check'' txID (creq_PolicyID req)
                                                   (receiptIDFromError e) (e_clk env 8) s2
                                            else s2)
                                  in (RError 500 ''INTERNAL_ERROR'', err ''INTERNAL_ERROR'' [(''error'', AErrorText)] s3)
                            | (Inr rcpt, s2) \<Rightarrow>
                                (RPolicyResult \<lparr>res_Compliant = True, res_Receipt = Some rcpt, res_Violation = None\<rparr>,
                                 audit ''check'' [(''tx_id'', AStr txID), (''policy_id'', AStr (creq_PolicyID req)), (''compliant'', ABool True),
                                   (''path_fingerprint'', AStr (path_Fingerprint path)), (''receipt_id'', AStr (rcpt_ID rcpt))] (e_clk env 9) s2))
                         else
                           (case Record (dp_vstore D) (e_uuid env 2) (e_clk env 4) txID (creq_PolicyID req) (cr_ViolatedClause result)
                                   path (cr_OffendingHops result) (sv_detector s1) of
                              None \<Rightarrow> (RPanic, s1)
                            | Some (v, det) \<Rightarrow>
                                (RPolicyResult \<lparr>res_Compliant = False, res_Receipt = None, res_Violation = Some v\<rparr>,
                                 audit ''check'' [(''tx_id'', AStr txID), (''policy_id'', AStr (creq_PolicyID req)), (''compliant'', ABool False),
                                   (''path_fingerprint'', AStr (path_Fingerprint path)), (''violation_id'', AStr (viol_ID v))] (e_clk env 9)
                                   (s1\<lparr>sv_detector := det\<rparr>))))))))"

section \<open>POST /api/settle: helpers\<close>

definition canonicalSettleRequestDigest :: "('s, 'v) deps \<Rightarrow> SettleRequest \<Rightarrow> string \<Rightarrow> string option" where
  "canonicalSettleRequestDigest D req txID =
     (let raw = (case sreq_RawPath req of None \<Rightarrow> [] | Some b \<Rightarrow> b) in
      case dp_jsSettle D \<lparr>spl_TransactionID = txID, spl_From = sreq_From req, spl_To = sreq_To req, spl_Amount = sreq_Amount req,
                          spl_Currency = sreq_Currency req, spl_PolicyID = sreq_PolicyID req,
                          spl_RawPathSHA256 = hex (sha256 (dp_prims D) raw)\<rparr> of
        None \<Rightarrow> None
      | Some data \<Rightarrow> Some (hex (sha256 (dp_prims D) data)))"

definition settleRequestMatchesTransaction :: "Transaction \<Rightarrow> SettleRequest \<Rightarrow> string \<Rightarrow> bool" where
  "settleRequestMatchesTransaction existing req requestDigest =
     (if tx_RequestDigest existing \<noteq> '''' then tx_RequestDigest existing = requestDigest
      else tx_From existing = sreq_From req \<and> tx_To existing = sreq_To req \<and> tx_Amount existing = sreq_Amount req \<and>
           tx_Currency existing = sreq_Currency req \<and> tx_PolicyID existing = sreq_PolicyID req)"

datatype LegacyPathFault = LegacyPathExtraction BuildError | LegacyPathConflict

definition validateLegacySettlementPath ::
  "('s, 'v) deps \<Rightarrow> PathExtractor \<Rightarrow> Transaction \<Rightarrow> SettleRequest \<Rightarrow> SCIONPath option \<Rightarrow> LegacyPathFault + SCIONPath option" where
  "validateLegacySettlementPath D extractor existing req path =
     (if tx_RequestDigest existing \<noteq> '''' \<or> tx_PathFingerprint existing = '''' then Inr path
      else
        (case (case path of
                 Some p \<Rightarrow> Inr p
               | None \<Rightarrow> (case BuildSCIONPath (dp_prims D) extractor (case sreq_RawPath req of None \<Rightarrow> [] | Some b \<Rightarrow> b) of
                            Inl e \<Rightarrow> Inl (LegacyPathExtraction e) | Inr p \<Rightarrow> Inr p)) of
           Inl e \<Rightarrow> Inl e
         | Inr p \<Rightarrow> if path_Fingerprint p \<noteq> tx_PathFingerprint existing then Inl LegacyPathConflict else Inr (Some p)))"

definition confirmedConsensus :: "string \<Rightarrow> ConsensusResult" where
  "confirmedConsensus txID = \<lparr>cres_Confirmed = True, cres_Round = 0, cres_Votes = 0, cres_TxID = txID\<rparr>"

definition receiptPolicyID :: "Transaction \<Rightarrow> string \<Rightarrow> string" where
  "receiptPolicyID tx fallback = (if tx_PolicyID tx \<noteq> '''' then tx_PolicyID tx else fallback)"

definition loadLedgerReceipt ::
  "('s, 'v) deps \<Rightarrow> Transaction \<Rightarrow> 's \<Rightarrow> (string \<times> SettleFault) + ComplianceReceipt option" where
  "loadLedgerReceipt D tx st =
     (if tx_ReceiptID tx = '''' then Inr None
      else case st_GetByID (dp_store D) (tx_ReceiptID tx) st of
        Inl e \<Rightarrow> Inl (''RECEIPT_LOOKUP_FAILED'', ReceiptLookupFailed e)
      | Inr None \<Rightarrow> Inl (''SETTLEMENT_RECEIPT_MISSING'', MissingDurableReceipt (tx_ReceiptID tx))
      | Inr (Some rcpt) \<Rightarrow> Inr (Some rcpt))"

text \<open>
  The checks \<open>ensureSettlementReceipt\<close> makes before and again after taking its lock: an outcome
  (the stored receipt or a failure), or the confirmed transaction that still needs a receipt.
\<close>

definition settlementGuard ::
  "('s, 'v) deps \<Rightarrow> string \<Rightarrow> ('s, 'v) Server \<Rightarrow> ((string \<times> SettleFault) + ComplianceReceipt) + Transaction" where
  "settlementGuard D txID s =
     (case GetTransaction txID (sv_ledger s) of
        None \<Rightarrow> Inl (Inl (''SETTLEMENT_RECEIPT_FAILED'', TransactionNotFound txID))
      | Some tx \<Rightarrow>
          if tx_Status tx \<noteq> TxConfirmed
          then Inl (Inl (''SETTLEMENT_RECEIPT_FAILED'', TransactionNotConfirmed txID (tx_Status tx)))
          else (case loadLedgerReceipt D tx (sv_receipts s) of
                  Inl e \<Rightarrow> Inl (Inl e)
                | Inr (Some rcpt) \<Rightarrow> Inl (Inr rcpt)
                | Inr None \<Rightarrow>
                    if tx_RequestDigest tx = '''' \<and> tx_PathFingerprint tx = ''''
                    then Inl (Inl (''SETTLEMENT_RECEIPT_MISSING'', LegacyWithoutFingerprint txID))
                    else Inr tx))"

definition ensureSettlementReceipt ::
  "('s, 'v) deps \<Rightarrow> reqEnv \<Rightarrow> string \<Rightarrow> string \<Rightarrow> bytes \<Rightarrow> SCIONPath option \<Rightarrow> ('s, 'v) Server
   \<Rightarrow> ((string \<times> SettleFault) + ComplianceReceipt) \<times> ('s, 'v) Server" where
  "ensureSettlementReceipt D env txID policyID rawPath path s =
     (case settlementGuard D txID s of
        Inl out \<Rightarrow> (out, s)
      | Inr _ \<Rightarrow>
         (case settlementGuard D txID s of
            Inl out \<Rightarrow> (out, s)
          | Inr tx \<Rightarrow>
             (case (case path of Some p \<Rightarrow> Inr p | None \<Rightarrow> BuildSCIONPath (dp_prims D) (sv_extractor s) rawPath) of
                Inl e \<Rightarrow> (Inl (''SETTLEMENT_RECEIPT_FAILED'', SettlementPathExtraction e), s)
              | Inr p \<Rightarrow>
                  if tx_PathFingerprint tx \<noteq> '''' \<and> path_Fingerprint p \<noteq> tx_PathFingerprint tx
                  then (Inl (''SETTLEMENT_RECEIPT_FAILED'', SettlementFingerprintMismatch (path_Fingerprint p) (tx_PathFingerprint tx)), s)
                  else
                    (case issueReceipt D (e_uuid env 1) (e_clk env 3) txID policyID p s of
                       (Inl e, s1) \<Rightarrow>
                         (Inl (''SETTLEMENT_RECEIPT_FAILED'', SettlementIssue e),
                          if receiptIDFromError e \<noteq> ''''
                          then auditReceiptPersistenceFailure ''settle'' txID policyID (receiptIDFromError e) (e_clk env 8) s1 else s1)
                     | (Inr rcpt, s1) \<Rightarrow>
                         (case AttachReceipt txID (rcpt_ID rcpt) (sv_ledger s1) of
                            (res, l) \<Rightarrow>
                              let s2 = s1\<lparr>sv_engine := (sv_engine s1)\<lparr>ce_ledger := l\<rparr>\<rparr> in
                              (case res of
                                 Inl e \<Rightarrow> (Inl (''SETTLEMENT_RECEIPT_FAILED'', SettlementAttach e), s2)
                               | Inr _ \<Rightarrow> (Inr rcpt, s2)))))))"

definition writeSettlementReceiptFailure :: "string \<Rightarrow> ConsensusResult option \<Rightarrow> string \<Rightarrow> SettleFault \<Rightarrow> bool \<Rightarrow> Response" where
  "writeSettlementReceiptFailure txID consensus code e idempotent =
     RSettle 500 \<lparr>sr_Consensus = (case consensus of None \<Rightarrow> Some (confirmedConsensus txID) | Some c \<Rightarrow> Some c),
       sr_Compliance = Some \<lparr>res_Compliant = True, res_Receipt = None, res_Violation = None\<rparr>,
       sr_ReceiptPersisted = Some False,
       sr_PersistenceWarning =
         (if code = ''RECEIPT_LOOKUP_FAILED'' then ''transaction is confirmed but receipt lookup failed''
          else if code = ''SETTLEMENT_RECEIPT_MISSING'' then ''transaction is confirmed but the ledger receipt is not durable''
          else ''settlement confirmed but receipt generation or persistence failed''),
       sr_Idempotent = idempotent, sr_Code = code, sr_Error = Some e\<rparr>"

definition settleAuditError :: "string \<Rightarrow> string \<Rightarrow> (string \<times> AuditValue) list \<Rightarrow> time \<Rightarrow> ('s, 'v) Server \<Rightarrow> ('s, 'v) Server" where
  "settleAuditError txID code extra now s =
     audit ''settle'' ([(''tx_id'', AStr txID), (''outcome'', AStr ''error''), (''code'', AStr code)] @ extra) now s"

definition handleExistingSettlement ::
  "('s, 'v) deps \<Rightarrow> reqEnv \<Rightarrow> Transaction \<Rightarrow> SettleRequest \<Rightarrow> string \<Rightarrow> SCIONPath option \<Rightarrow> ('s, 'v) Server
   \<Rightarrow> Response \<times> ('s, 'v) Server" where
  "handleExistingSettlement D env existing req requestDigest path s =
     (let txID = tx_ID existing; now = e_clk env 9 in
      if \<not> settleRequestMatchesTransaction existing req requestDigest
      then (RError 409 ''TX_CONFLICT'', settleAuditError txID ''TX_CONFLICT'' [] now s)
      else (case validateLegacySettlementPath D (sv_extractor s) existing req path of
        Inl LegacyPathConflict \<Rightarrow> (RError 409 ''TX_CONFLICT'', settleAuditError txID ''TX_CONFLICT'' [(''error'', AErrorText)] now s)
      | Inl (LegacyPathExtraction e) \<Rightarrow> (RError 400 ''INVALID_REQUEST'', settleAuditError txID ''INVALID_REQUEST'' [(''error'', AErrorText)] now s)
      | Inr path' \<Rightarrow>
          (case tx_Status existing of
             TxConfirmed \<Rightarrow>
               (case ensureSettlementReceipt D env txID (receiptPolicyID existing (sreq_PolicyID req))
                       (case sreq_RawPath req of None \<Rightarrow> [] | Some b \<Rightarrow> b) path' s of
                  (Inl (code, e), s1) \<Rightarrow>
                    if e = SettlementIssue SigningKeyPanic then (RPanic, s1)
                    else (writeSettlementReceiptFailure txID (Some (confirmedConsensus txID)) code e True,
                          settleAuditError txID code [(''error'', AErrorText)] now s1)
                | (Inr rcpt, s1) \<Rightarrow>
                    (RSettle 200 \<lparr>sr_Consensus = Some (confirmedConsensus txID),
                       sr_Compliance = Some \<lparr>res_Compliant = True, res_Receipt = Some rcpt, res_Violation = None\<rparr>,
                       sr_ReceiptPersisted = Some True, sr_PersistenceWarning = '''', sr_Idempotent = True, sr_Code = '''', sr_Error = None\<rparr>,
                     audit ''settle'' [(''tx_id'', AStr txID), (''outcome'', AStr ''idempotent''), (''status'', AStr ''confirmed'')] now s1))
           | TxPending \<Rightarrow> (RError 409 ''TX_PENDING'', settleAuditError txID ''TX_PENDING'' [] now s)
           | _ \<Rightarrow> (RError 409 ''DUPLICATE_TX'', settleAuditError txID ''DUPLICATE_TX'' [] now s))))"

section \<open>POST /api/settle\<close>

definition settleTransaction :: "SettleRequest \<Rightarrow> string \<Rightarrow> string \<Rightarrow> SCIONPath \<Rightarrow> Transaction" where
  "settleTransaction req txID requestDigest path =
     emptyTx\<lparr>tx_ID := txID, tx_From := sreq_From req, tx_To := sreq_To req, tx_Amount := sreq_Amount req,
             tx_Currency := sreq_Currency req, tx_PolicyID := sreq_PolicyID req,
             tx_PathFingerprint := path_Fingerprint path, tx_RequestDigest := requestDigest\<rparr>"

text \<open>Step 2 and 3: consensus on a compliant path, then the receipt.\<close>

definition settleCompliant ::
  "('s, 'v) deps \<Rightarrow> reqEnv \<Rightarrow> SettleRequest \<Rightarrow> string \<Rightarrow> string \<Rightarrow> SCIONPath \<Rightarrow> ('s, 'v) Server \<Rightarrow> Response \<times> ('s, 'v) Server" where
  "settleCompliant D env req txID requestDigest path s =
     (let now = e_clk env 9;
          (r, l) = newTx (settleTransaction req txID requestDigest path) (sv_ledger s) in
      case SubmitAndRunRound (e_pick env) (e_clk env 5) r ((sv_engine s)\<lparr>ce_ledger := l\<rparr>) of
        (out, ce) \<Rightarrow>
          let s1 = s\<lparr>sv_engine := ce\<rparr> in
          (case out of
             Existing existing \<Rightarrow> handleExistingSettlement D env existing req requestDigest (Some path) s1
           | SubmitError e \<Rightarrow> (RError 400 ''INVALID_REQUEST'', settleAuditError txID ''INVALID_REQUEST'' [(''error'', AErrorText)] now s1)
           | RoundDone result err \<Rightarrow>
               if err \<noteq> None \<or> \<not> cres_Confirmed result then
                 (RSettle 200 \<lparr>sr_Consensus = Some result, sr_Compliance = None, sr_ReceiptPersisted = None,
                    sr_PersistenceWarning = '''', sr_Idempotent = False, sr_Code = '''', sr_Error = None\<rparr>,
                  audit ''settle'' [(''tx_id'', AStr txID), (''policy_id'', AStr (sreq_PolicyID req)), (''compliant'', ABool True),
                    (''outcome'', AStr ''consensus_rejected''), (''from'', AStr (sreq_From req)), (''to'', AStr (sreq_To req)),
                    (''amount'', AInt (sreq_Amount req)), (''currency'', AStr (sreq_Currency req))] now s1)
               else
                 (case ensureSettlementReceipt D env txID (sreq_PolicyID req) (case sreq_RawPath req of None \<Rightarrow> [] | Some b \<Rightarrow> b) (Some path) s1 of
                    (Inl (code, e), s2) \<Rightarrow>
                      if e = SettlementIssue SigningKeyPanic then (RPanic, s2)
                      else (writeSettlementReceiptFailure txID (Some result) code e False,
                            audit ''settle'' [(''tx_id'', AStr txID), (''policy_id'', AStr (sreq_PolicyID req)), (''outcome'', AStr ''error''),
                              (''code'', AStr code), (''error'', AErrorText)] now s2)
                  | (Inr rcpt, s2) \<Rightarrow>
                      (RSettle 200 \<lparr>sr_Consensus = Some result,
                         sr_Compliance = Some \<lparr>res_Compliant = True, res_Receipt = Some rcpt, res_Violation = None\<rparr>,
                         sr_ReceiptPersisted = Some True, sr_PersistenceWarning = '''', sr_Idempotent = False, sr_Code = '''', sr_Error = None\<rparr>,
                       audit ''settle'' [(''tx_id'', AStr txID), (''policy_id'', AStr (sreq_PolicyID req)), (''compliant'', ABool True),
                         (''outcome'', AStr ''settled''), (''consensus_confirmed'', ABool True), (''receipt_id'', AStr (rcpt_ID rcpt)),
                         (''from'', AStr (sreq_From req)), (''to'', AStr (sreq_To req)), (''amount'', AInt (sreq_Amount req)),
                         (''currency'', AStr (sreq_Currency req))] now s2))))"

definition handleSettle ::
  "('s, 'v) deps \<Rightarrow> reqEnv \<Rightarrow> SettleRequest option \<Rightarrow> ('s, 'v) Server \<Rightarrow> Response \<times> ('s, 'v) Server" where
  "handleSettle D env body s =
     (let now = e_clk env 9;
          err = (\<lambda>code details s. audit ''settle'' ([(''outcome'', AStr ''error''), (''code'', AStr code)] @ details) now s) in
      case body of
        None \<Rightarrow> (RError 400 ''INVALID_REQUEST'', err ''INVALID_REQUEST'' [(''error'', AErrorText)] s)
      | Some req \<Rightarrow>
         let parties = [(''from'', AStr (sreq_From req)), (''to'', AStr (sreq_To req))];
             policy = (''policy_id'', AStr (sreq_PolicyID req)) in
         if sreq_From req = '''' \<or> sreq_To req = '''' \<or> sreq_Amount req \<le>s 0 \<or> sreq_Currency req = ''''
         then (RError 400 ''INVALID_REQUEST'', err ''INVALID_REQUEST'' parties s)
         else if sreq_PolicyID req = '''' then (RError 400 ''POLICY_REQUIRED'', err ''POLICY_REQUIRED'' parties s)
         else if sreq_RawPath req = None then (RError 400 ''PATH_REQUIRED'', err ''PATH_REQUIRED'' (parties @ [policy]) s)
         else
          let txID = (if sreq_TransactionID req = '''' then e_uuid env 0 else sreq_TransactionID req) in
          (case canonicalSettleRequestDigest D req txID of
             None \<Rightarrow> (RError 500 ''INTERNAL_ERROR'', err ''INTERNAL_ERROR'' [(''tx_id'', AStr txID), policy, (''error'', AErrorText)] s)
           | Some requestDigest \<Rightarrow>
              (case GetTransaction txID (sv_ledger s) of
                 Some existing \<Rightarrow> handleExistingSettlement D env existing req requestDigest None s
               | None \<Rightarrow>
                  (case sv_checkers s (sreq_PolicyID req) of
                     None \<Rightarrow> (RError 400 ''UNKNOWN_POLICY'', err ''UNKNOWN_POLICY'' (policy # parties) s)
                   | Some checker \<Rightarrow>
                      (case BuildSCIONPath (dp_prims D) (sv_extractor s) (case sreq_RawPath req of None \<Rightarrow> [] | Some b \<Rightarrow> b) of
                         Inl e \<Rightarrow> (RError 400 ''INVALID_REQUEST'', err ''INVALID_REQUEST'' [policy, (''error'', AErrorText)] s)
                       | Inr path \<Rightarrow>
                          (case Checker_Check path (e_clk env 0) (e_clk env 1) (e_clk env 2) checker of
                             (r, checker') \<Rightarrow>
                               let s1 = s\<lparr>sv_checkers := (sv_checkers s)(sreq_PolicyID req \<mapsto> checker')\<rparr> in
                               (case r of
                                  Inl e \<Rightarrow> (RError 500 ''INTERNAL_ERROR'', err ''INTERNAL_ERROR'' [policy, (''error'', AErrorText)] s1)
                                | Inr result \<Rightarrow>
                                    if \<not> cr_Compliant result then
                                      (case Record (dp_vstore D) (e_uuid env 2) (e_clk env 4) txID (sreq_PolicyID req)
                                              (cr_ViolatedClause result) path (cr_OffendingHops result) (sv_detector s1) of
                                         None \<Rightarrow> (RPanic, s1)
                                       | Some (v, det) \<Rightarrow>
                                           (RSettle 422 \<lparr>sr_Consensus = None,
                                              sr_Compliance = Some \<lparr>res_Compliant = False, res_Receipt = None, res_Violation = Some v\<rparr>,
                                              sr_ReceiptPersisted = None, sr_PersistenceWarning = '''', sr_Idempotent = False,
                                              sr_Code = '''', sr_Error = None\<rparr>,
                                            audit ''settle'' [(''tx_id'', AStr txID), policy, (''compliant'', ABool False),
                                              (''outcome'', AStr ''non_compliant''), (''violation_id'', AStr (viol_ID v))] now
                                              (s1\<lparr>sv_detector := det\<rparr>)))
                                    else settleCompliant D env req txID requestDigest path s1)))))))"

section \<open>The other endpoints\<close>

definition handleListReceipts :: "('s, 'v) deps \<Rightarrow> ('s, 'v) Server \<Rightarrow> Response" where
  "handleListReceipts D s =
     (case st_List (dp_store D) (sv_receipts s) of Inl e \<Rightarrow> RError 500 ''INTERNAL_ERROR'' | Inr rs \<Rightarrow> RReceipts rs)"

definition handleListViolations :: "('s, 'v) deps \<Rightarrow> ('s, 'v) Server \<Rightarrow> Response" where
  "handleListViolations D s =
     (case Detector_List (dp_vstore D) (sv_detector s) of Inl e \<Rightarrow> RError 500 ''INTERNAL_ERROR'' | Inr vs \<Rightarrow> RViolations vs)"

definition handleListPolicies :: "('s, 'v) Server \<Rightarrow> Response" where
  "handleListPolicies s = RPolicies (sv_policies s)"

definition handleLedger :: "string list \<Rightarrow> ('s, 'v) Server \<Rightarrow> Response" where
  "handleLedger order s = RLedger (GetValidators order (sv_ledger s)) (CurrentRound (sv_ledger s))"

definition handleTransactions :: "('s, 'v) Server \<Rightarrow> Response" where
  "handleTransactions s = RTransactions (ListTransactions (sv_ledger s))"

definition handleHealth :: "('s, 'v) deps \<Rightarrow> time \<Rightarrow> ('s, 'v) Server \<Rightarrow> Response" where
  "handleHealth D now s =
     RHealth (sv_auditFailures s = 0) (sv_auditFailures s)
       (case st_Count (dp_store D) (sv_receipts s) of Inl e \<Rightarrow> 0 | Inr n \<Rightarrow> n)
       (let d = time_Sub now (sv_startTime s) in if d < 0 then - (- d div second) else d div second)"

definition handleFilterPaths ::
  "reqEnv \<Rightarrow> FilterPathsRequest option \<Rightarrow> ('s, 'v) Server \<Rightarrow> Response \<times> ('s, 'v) Server" where
  "handleFilterPaths env body s =
     (case body of
        None \<Rightarrow> (RError 400 ''INVALID_REQUEST'',
                 audit ''filter'' [(''outcome'', AStr ''error''), (''code'', AStr ''INVALID_REQUEST''), (''error'', AErrorText)] (e_clk env 9) s)
      | Some req \<Rightarrow>
          (case sv_filters s (freq_PolicyID req) of
             None \<Rightarrow> (RError 400 ''UNKNOWN_POLICY'',
                      audit ''filter'' [(''outcome'', AStr ''error''), (''code'', AStr ''UNKNOWN_POLICY''),
                        (''policy_id'', AStr (freq_PolicyID req))] (e_clk env 9) s)
           | Some flt \<Rightarrow>
               let result = FilterPaths flt (freq_Paths req) in
               (RFilter result,
                audit ''filter'' [(''policy_id'', AStr (freq_PolicyID req)), (''candidate'', ANat (length (freq_Paths req))),
                  (''compliant'', ANat (length (fr_Compliant result))), (''non_compliant'', ANat (length (fr_NonCompliant result)))]
                  (e_clk env 9) s)))"

text \<open>The distinct non-empty public keys, in order of first appearance, the current one last.\<close>

definition addKey :: "bytes \<Rightarrow> bytes list \<Rightarrow> bytes list" where
  "addKey key keys = (if length key = 0 then keys else if key \<in> set keys then keys else keys @ [key])"

definition receiptPublicKeys :: "ComplianceReceipt list \<Rightarrow> bytes \<Rightarrow> bytes list" where
  "receiptPublicKeys receipts current = addKey current (fold (\<lambda>r. addKey (rcpt_OraclePublicKey r)) receipts [])"

definition maxRange :: uint64 where
  "maxRange = 1000"

text \<open>\<open>from_seq\<close> and \<open>to_seq\<close> are the query values, empty when absent.\<close>

definition parseSeq :: "string \<Rightarrow> (unit + uint64) option" where
  "parseSeq v = (if v = '''' then None else case parseUint 64 v of None \<Rightarrow> Some (Inl ()) | Some n \<Rightarrow> Some (Inr (word_of_nat n)))"

definition handleVerifyChain :: "('s, 'v) deps \<Rightarrow> string \<Rightarrow> string \<Rightarrow> ('s, 'v) Server \<Rightarrow> Response" where
  "handleVerifyChain D from_seq to_seq s =
     (let respond = (\<lambda>fromSeq toSeq.
            case st_ListRange (dp_store D) fromSeq toSeq (sv_receipts s) of
              Inl e \<Rightarrow> RError 500 ''INTERNAL_ERROR''
            | Inr receipts \<Rightarrow>
                RVerifyChain \<lparr>vc_ChainLength = length receipts, vc_OraclePublicKey = PublicKey (sv_generator s),
                  vc_OraclePublicKeys = receiptPublicKeys receipts (PublicKey (sv_generator s)), vc_Receipts = receipts\<rparr>);
          ranged = (\<lambda>fromSeq toSeq.
            if toSeq < fromSeq then RError 400 ''INVALID_REQUEST''
            else if toSeq - fromSeq + 1 > maxRange then RError 400 ''INVALID_REQUEST''
            else respond fromSeq toSeq) in
      case (parseSeq from_seq, parseSeq to_seq) of
        (Some (Inl _), _) \<Rightarrow> RError 400 ''INVALID_REQUEST''
      | (_, Some (Inl _)) \<Rightarrow> RError 400 ''INVALID_REQUEST''
      | (None, None) \<Rightarrow> respond 1 maxRange
      | (f, t) \<Rightarrow> ranged (case f of Some (Inr n) \<Rightarrow> n | _ \<Rightarrow> 0) (case t of Some (Inr n) \<Rightarrow> n | _ \<Rightarrow> 0))"

definition isAdminRequest :: "string \<Rightarrow> ('s, 'v) Server \<Rightarrow> bool" where
  "isAdminRequest presented s =
     (if sv_adminToken s = '''' then False
      else length presented = length (sv_adminToken s) \<and> presented = sv_adminToken s)"

definition handleRotateKey ::
  "('s, 'v) deps \<Rightarrow> reqEnv \<Rightarrow> string \<Rightarrow> ('s, 'v) Server \<Rightarrow> Response \<times> ('s, 'v) Server" where
  "handleRotateKey D env adminHeader s =
     (if \<not> isAdminRequest adminHeader s then (RError 403 ''FORBIDDEN'', s)
      else if sv_oracleKeyPath s = '''' then (RError 503 ''ROTATION_UNAVAILABLE'', s)
      else
        (case st_Last (dp_store D) (sv_receipts s) of
           Inl e \<Rightarrow> (RError 500 ''INTERNAL_ERROR'', s)
         | Inr lst \<Rightarrow>
             (case RotateKeyFile (e_faults env) (e_genKey env) (e_tmp env) (e_stamp env) (sv_oracleKeyPath s)
                     (sv_generator s, sv_keyfs s) of
                ((archivePath, err), g, fs) \<Rightarrow>
                  let s1 = s\<lparr>sv_generator := g, sv_keyfs := fs\<rparr> in
                  (case err of
                     Some e \<Rightarrow>
                       (RError 500 ''INTERNAL_ERROR'',
                        audit ''oracle_key_rotation'' [(''outcome'', AStr ''error''), (''code'', AStr ''KEY_ROTATION_FAILED''), (''error'', AErrorText)]
                          (e_clk env 9) s1)
                   | None \<Rightarrow>
                       let count = (case st_Count (dp_store D) (sv_receipts s1) of Inl e \<Rightarrow> 0 | Inr n \<Rightarrow> n) in
                       (RRotateKey \<lparr>rk_OldOraclePublicKey = PublicKey (sv_generator s), rk_NewOraclePublicKey = PublicKey (sv_generator s1),
                          rk_ArchivedKeyPath = archivePath, rk_RotatedAt = e_clk env 6, rk_ReceiptCount = count,
                          rk_LastReceiptSeqNo = map_option rcpt_SeqNo lst\<rparr>,
                        audit ''oracle_key_rotation'' [(''outcome'', AStr ''rotated''), (''old_public_key'', AStr (hex (PublicKey (sv_generator s)))),
                          (''new_public_key'', AStr (hex (PublicKey (sv_generator s1)))), (''archived_key_path'', AStr archivePath),
                          (''receipt_count'', ANat count)] (e_clk env 9) s1)))))"

section \<open>Routing and middleware\<close>

datatype Call =
    PostCheck "CheckRequest option"
  | PostFilterPaths "FilterPathsRequest option"
  | GetReceipts
  | GetViolations
  | GetPolicies
  | GetVerifyChain string string
  | PostRotateKey
  | PostSettle "SettleRequest option"
  | GetLedger "string list"
  | GetTransactions
  | GetHealth

record Request =
  rq_Path :: string
  rq_Authorization :: string
  rq_AdminToken :: string
  rq_Call :: Call

definition callPath :: "Call \<Rightarrow> string" where
  "callPath c =
     (case c of
        PostCheck _ \<Rightarrow> ''/api/check'' | PostFilterPaths _ \<Rightarrow> ''/api/filter-paths'' | GetReceipts \<Rightarrow> ''/api/receipts''
      | GetViolations \<Rightarrow> ''/api/violations'' | GetPolicies \<Rightarrow> ''/api/policies'' | GetVerifyChain _ _ \<Rightarrow> ''/api/verify-chain''
      | PostRotateKey \<Rightarrow> ''/api/rotate-key'' | PostSettle _ \<Rightarrow> ''/api/settle'' | GetLedger _ \<Rightarrow> ''/api/ledger''
      | GetTransactions \<Rightarrow> ''/api/transactions'' | GetHealth \<Rightarrow> ''/api/health'')"

definition routes ::
  "('s, 'v) deps \<Rightarrow> reqEnv \<Rightarrow> Request \<Rightarrow> ('s, 'v) Server \<Rightarrow> Response \<times> ('s, 'v) Server" where
  "routes D env req s =
     (if rq_Path req \<noteq> callPath (rq_Call req) then (RNotRouted, s)
      else case rq_Call req of
        PostCheck body \<Rightarrow> handleCheck D env body s
      | PostFilterPaths body \<Rightarrow> handleFilterPaths env body s
      | GetReceipts \<Rightarrow> (handleListReceipts D s, s)
      | GetViolations \<Rightarrow> (handleListViolations D s, s)
      | GetPolicies \<Rightarrow> (handleListPolicies s, s)
      | GetVerifyChain f t \<Rightarrow> (handleVerifyChain D f t s, s)
      | PostRotateKey \<Rightarrow> handleRotateKey D env (rq_AdminToken req) s
      | PostSettle body \<Rightarrow> handleSettle D env body s
      | GetLedger order \<Rightarrow> (handleLedger order s, s)
      | GetTransactions \<Rightarrow> (handleTransactions s, s)
      | GetHealth \<Rightarrow> (handleHealth D (e_clk env 0) s, s))"

definition bearerAuthMiddleware ::
  "string \<Rightarrow> (Request \<Rightarrow> ('s, 'v) Server \<Rightarrow> Response \<times> ('s, 'v) Server) \<Rightarrow> Request \<Rightarrow> ('s, 'v) Server
   \<Rightarrow> Response \<times> ('s, 'v) Server" where
  "bearerAuthMiddleware token nxt req s =
     (if token = '''' then nxt req s
      else if rq_Path req \<noteq> ''/api'' \<and> \<not> hasPrefix (rq_Path req) ''/api/'' then nxt req s
      else
        (case cutPrefix (rq_Authorization req) ''Bearer '' of
           (presented, ok) \<Rightarrow>
             if \<not> ok \<or> length presented \<noteq> length token \<or> presented \<noteq> token
             then (RError 401 ''UNAUTHORIZED'', s)
             else nxt req s))"

definition recoveryMiddleware ::
  "(Request \<Rightarrow> ('s, 'v) Server \<Rightarrow> Response \<times> ('s, 'v) Server) \<Rightarrow> Request \<Rightarrow> ('s, 'v) Server
   \<Rightarrow> Response \<times> ('s, 'v) Server" where
  "recoveryMiddleware nxt req s =
     (case nxt req s of (r, s') \<Rightarrow> (if r = RPanic then RError 500 ''INTERNAL_ERROR'' else r, s'))"

definition Handler ::
  "('s, 'v) deps \<Rightarrow> reqEnv \<Rightarrow> Request \<Rightarrow> ('s, 'v) Server \<Rightarrow> Response \<times> ('s, 'v) Server" where
  "Handler D env req s = recoveryMiddleware (bearerAuthMiddleware (sv_apiToken s) (routes D env)) req s"

end
