(* ===== verification/JP_ApiSafety.thy ===== *)
theory JP_ApiSafety
  imports JP_Api
begin

text \<open>
  What the HTTP service guarantees across all its parts.  The server invariant links the
  receipt store, the ledger, the oracle and the checkers; every handler keeps it over any stores
  that satisfy the contracts \<open>receipt_store\<close> and \<open>violation_store\<close>, and the service properties
  follow for the in-memory stores by interpretation.
\<close>

section \<open>Frames\<close>

lemma audit_frame [simp]:
  "sv_policies (audit ev d now s) = sv_policies s" "sv_checkers (audit ev d now s) = sv_checkers s"
  "sv_filters (audit ev d now s) = sv_filters s" "sv_receipts (audit ev d now s) = sv_receipts s"
  "sv_generator (audit ev d now s) = sv_generator s" "sv_detector (audit ev d now s) = sv_detector s"
  "sv_extractor (audit ev d now s) = sv_extractor s" "sv_engine (audit ev d now s) = sv_engine s"
  "sv_startTime (audit ev d now s) = sv_startTime s" "sv_apiToken (audit ev d now s) = sv_apiToken s"
  "sv_adminToken (audit ev d now s) = sv_adminToken s" "sv_oracleKeyPath (audit ev d now s) = sv_oracleKeyPath s"
  "sv_keyfs (audit ev d now s) = sv_keyfs s"
  by (simp_all add: audit_def)

text \<open>Two servers that differ at most in their audit trail.\<close>

definition same_service :: "('s, 'v) Server \<Rightarrow> ('s, 'v) Server \<Rightarrow> bool" where
  "same_service s s' \<longleftrightarrow> s'\<lparr>sv_auditCh := sv_auditCh s, sv_auditFailures := sv_auditFailures s\<rparr> = s"

lemma same_service_simps [simp]:
  "same_service s s" "same_service s (audit ev d now s)" "same_service s (auditReceiptPersistenceFailure c t p r now s)"
  "same_service s (settleAuditError t c x now s)"
  by (simp_all add: same_service_def audit_def auditReceiptPersistenceFailure_def settleAuditError_def)

lemma settleAuditError_frame [simp]:
  "sv_checkers (settleAuditError t c x now s) = sv_checkers s" "sv_receipts (settleAuditError t c x now s) = sv_receipts s"
  "sv_generator (settleAuditError t c x now s) = sv_generator s" "sv_detector (settleAuditError t c x now s) = sv_detector s"
  "sv_engine (settleAuditError t c x now s) = sv_engine s"
  by (simp_all add: settleAuditError_def)

lemma auditReceiptPersistenceFailure_frame [simp]:
  "sv_checkers (auditReceiptPersistenceFailure c t p r now s) = sv_checkers s"
  "sv_receipts (auditReceiptPersistenceFailure c t p r now s) = sv_receipts s"
  "sv_generator (auditReceiptPersistenceFailure c t p r now s) = sv_generator s"
  "sv_detector (auditReceiptPersistenceFailure c t p r now s) = sv_detector s"
  "sv_engine (auditReceiptPersistenceFailure c t p r now s) = sv_engine s"
  by (simp_all add: auditReceiptPersistenceFailure_def)

lemma same_funds_balances: "same_funds l l' \<Longrightarrow> balances l' = balances l"
  by (intro ext) (simp add: balances_def same_funds_simps(4))

section \<open>The server invariant\<close>

text \<open>Some path with this fingerprint was within the corridor of the policy with this identifier.\<close>

definition compliant_fp :: "Policy list \<Rightarrow> string \<Rightarrow> string \<Rightarrow> bool" where
  "compliant_fp policies polID fp \<longleftrightarrow>
     (\<exists>p\<in>set policies. \<exists>path. pol_ID p = polID \<and> within_corridor p path \<and> path_Fingerprint path = fp)"

definition certified :: "Policy list \<Rightarrow> ComplianceReceipt \<Rightarrow> bool" where
  "certified policies r \<longleftrightarrow> compliant_fp policies (rcpt_PolicyID r) (path_Fingerprint (rcpt_Path r))"

text \<open>The receipt of a transaction: same transaction, same policy, same path fingerprint.\<close>

definition receipt_for :: "Transaction \<Rightarrow> ComplianceReceipt \<Rightarrow> bool" where
  "receipt_for tx q \<longleftrightarrow> rcpt_ID q = tx_ReceiptID tx \<and> rcpt_TransactionID q = tx_ID tx \<and>
     rcpt_PolicyID q = tx_PolicyID tx \<and> path_Fingerprint (rcpt_Path q) = tx_PathFingerprint tx"

definition settled_tx :: "Policy list \<Rightarrow> ComplianceReceipt list \<Rightarrow> Transaction \<Rightarrow> bool" where
  "settled_tx policies rs tx \<longleftrightarrow>
     tx_Status tx = TxConfirmed \<and> tx_PathFingerprint tx \<noteq> '''' \<and> tx_RequestDigest tx \<noteq> '''' \<and> tx_PolicyID tx \<noteq> '''' \<and>
     compliant_fp policies (tx_PolicyID tx) (tx_PathFingerprint tx) \<and>
     (tx_ReceiptID tx = '''' \<or> (\<exists>q\<in>set rs. receipt_for tx q))"

definition ledger_linked :: "Policy list \<Rightarrow> ComplianceReceipt list \<Rightarrow> Ledger \<Rightarrow> bool" where
  "ledger_linked policies rs l \<longleftrightarrow>
     (\<forall>i r. lg_confirmed l i = Some r \<longrightarrow> settled_tx policies rs (lg_heap l r)) \<and>
     (\<forall>i. lg_seen l i \<longrightarrow> lg_confirmed l i \<noteq> None)"

lemma ledger_linked_tx: "ledger_linked policies rs l \<Longrightarrow> lg_confirmed l i = Some r \<Longrightarrow> settled_tx policies rs (lg_heap l r)"
  by (simp add: ledger_linked_def)

definition checkers_ok :: "Policy list \<Rightarrow> (string \<rightharpoonup> Checker) \<Rightarrow> bool" where
  "checkers_ok policies cs \<longleftrightarrow> (\<forall>i c. cs i = Some c \<longrightarrow>
     chk_policy c \<in> set policies \<and> pol_ID (chk_policy c) = i \<and> chk_replayDetector c = None)"

definition service_ok ::
  "prims \<Rightarrow> codec \<Rightarrow> ReceiptValidator \<Rightarrow> Policy list \<Rightarrow> ComplianceReceipt list \<Rightarrow> ('s, 'v) Server \<Rightarrow> bool" where
  "service_ok P J rv policies rs s \<longleftrightarrow>
     oracle_ok P J rv (sv_generator s) rs \<and> engine_ready (sv_engine s) \<and> det_inv (sv_detector s) \<and>
     checkers_ok policies (sv_checkers s) \<and> list_all (certified policies) rs \<and> ledger_linked policies rs (sv_ledger s)"

definition hashes_sized :: "prims \<Rightarrow> bool" where
  "hashes_sized P \<longleftrightarrow> (\<forall>m. length (sha256 P m) = 32)"

lemma service_ok_same:
  "same_service s s' \<Longrightarrow> service_ok P J rv policies rs s' = service_ok P J rv policies rs s"
proof -
  assume "same_service s s'"
  then obtain ch n where "s = s'\<lparr>sv_auditCh := ch, sv_auditFailures := n\<rparr>" by (metis same_service_def)
  then show ?thesis by (simp add: service_ok_def)
qed

section \<open>What never goes away\<close>

text \<open>
  A confirmed transaction stays confirmed and keeps every field; only a missing receipt
  identifier may be filled in, once.
\<close>

definition tx_kept :: "Transaction \<Rightarrow> Transaction \<Rightarrow> bool" where
  "tx_kept tx tx' \<longleftrightarrow> tx' = tx \<or> (tx_ReceiptID tx = '''' \<and> (\<exists>rid. tx' = tx\<lparr>tx_ReceiptID := rid\<rparr>))"

definition ledger_keeps :: "Ledger \<Rightarrow> Ledger \<Rightarrow> bool" where
  "ledger_keeps l l' \<longleftrightarrow>
     (\<forall>i r. lg_confirmed l i = Some r \<longrightarrow> lg_confirmed l' i = Some r \<and> tx_kept (lg_heap l r) (lg_heap l' r))"

lemma tx_kept_refl [simp]: "tx_kept tx tx"
  by (simp add: tx_kept_def)

lemma tx_kept_trans: "tx_kept a b \<Longrightarrow> tx_kept b c \<Longrightarrow> tx_kept a c"
  by (auto simp: tx_kept_def)

lemma ledger_keeps_refl [simp]: "ledger_keeps l l"
  by (simp add: ledger_keeps_def)

lemma ledger_keeps_trans: "ledger_keeps a b \<Longrightarrow> ledger_keeps b c \<Longrightarrow> ledger_keeps a c"
  unfolding ledger_keeps_def by (meson tx_kept_trans)

lemma ledger_keeps_alloc: "ledger_inv l \<Longrightarrow> ledger_keeps l (snd (newTx tx l))"
  by (auto simp: ledger_keeps_def newTx_def ledger_inv_iff)

lemma ledger_keeps_settled:
  assumes "ledger_inv l" "settled now r l l'" "lg_confirmed l (tx_ID (lg_heap l r)) = None"
  shows "ledger_keeps l l'"
  unfolding ledger_keeps_def
proof (intro allI impI)
  fix i q assume c: "lg_confirmed l i = Some q"
  with assms(1) have "tx_ID (lg_heap l q) = i" by (auto simp: ledger_inv_iff)
  with c assms(3) have "q \<noteq> r" "i \<noteq> tx_ID (lg_heap l r)" by auto
  with c assms(2) show "lg_confirmed l' i = Some q \<and> tx_kept (lg_heap l q) (lg_heap l' q)"
    by (auto simp: settled_def Let_def)
qed

lemma settled_tx_mono: "settled_tx policies rs tx \<Longrightarrow> set rs \<subseteq> set rs' \<Longrightarrow> settled_tx policies rs' tx"
  by (auto simp: settled_tx_def)

lemma ledger_linked_mono: "ledger_linked policies rs l \<Longrightarrow> set rs \<subseteq> set rs' \<Longrightarrow> ledger_linked policies rs' l"
  unfolding ledger_linked_def by (meson settled_tx_mono)

lemma ledger_linked_alloc:
  "ledger_inv l \<Longrightarrow> ledger_linked policies rs l \<Longrightarrow> ledger_linked policies rs (snd (newTx tx l))"
  by (fastforce simp: ledger_linked_def newTx_def ledger_inv_iff)

lemma ledger_linked_settled:
  assumes "ledger_linked policies rs l" "settled now r l l'" "settled_tx policies rs ((lg_heap l r)\<lparr>tx_Status := TxConfirmed\<rparr>)"
  shows "ledger_linked policies rs l'"
proof -
  let ?i = "tx_ID (lg_heap l r)"
  from assms(2) obtain n where l': "lg_confirmed l' = (lg_confirmed l)(?i \<mapsto> r)" "lg_seen l' = (lg_seen l)(?i := True)"
    "lg_heap l' = (lg_heap l)(r := (lg_heap l r)\<lparr>tx_Status := TxConfirmed, tx_Nonce := n, tx_Timestamp := now\<rparr>)"
    by (auto simp: settled_def Let_def)
  have t: "settled_tx policies rs ((lg_heap l r)\<lparr>tx_Status := TxConfirmed, tx_Nonce := n, tx_Timestamp := now\<rparr>)"
    using assms(3) by (simp add: settled_tx_def receipt_for_def)
  show ?thesis
    using assms(1) t unfolding ledger_linked_def l' by auto
qed

lemma ledger_linked_attach:
  assumes "ledger_linked policies rs l" "lg_confirmed l i = Some r" "q \<in> set rs"
    and "receipt_for ((lg_heap l r)\<lparr>tx_ReceiptID := rid\<rparr>) q"
  shows "ledger_linked policies rs (l\<lparr>lg_heap := (lg_heap l)(r := (lg_heap l r)\<lparr>tx_ReceiptID := rid\<rparr>)\<rparr>)"
proof -
  from assms(1,2) have "settled_tx policies rs (lg_heap l r)" by (simp add: ledger_linked_def)
  with assms(3,4) have "settled_tx policies rs ((lg_heap l r)\<lparr>tx_ReceiptID := rid\<rparr>)"
    unfolding settled_tx_def by auto
  with assms(1) show ?thesis by (simp add: ledger_linked_def)
qed

lemma ledger_keeps_attach:
  "tx_ReceiptID (lg_heap l r) = '''' \<Longrightarrow>
     ledger_keeps l (l\<lparr>lg_heap := (lg_heap l)(r := (lg_heap l r)\<lparr>tx_ReceiptID := rid\<rparr>)\<rparr>)"
  by (auto simp: ledger_keeps_def tx_kept_def)

lemma GetTransaction_ready:
  "engine_ready ce \<Longrightarrow> GetTransaction i (ce_ledger ce) = map_option (lg_heap (ce_ledger ce)) (lg_confirmed (ce_ledger ce) i)"
  by (simp add: engine_ready_def GetTransaction_def split: option.split)

section \<open>The service over any pair of stores\<close>

definition service_inv ::
  "('s \<Rightarrow> bool) \<Rightarrow> ('s \<Rightarrow> ComplianceReceipt list) \<Rightarrow> ('s, 'v) deps \<Rightarrow> ReceiptValidator \<Rightarrow> Policy list \<Rightarrow> ('s, 'v) Server \<Rightarrow> bool" where
  "service_inv ok rcpts D rv policies s \<longleftrightarrow>
     ok (sv_receipts s) \<and> service_ok (dp_prims D) (dp_codec D) rv policies (rcpts (sv_receipts s)) s"

text \<open>What a request may do to the durable state: add receipts and confirm transactions, by ledger operations only.\<close>

definition advances :: "('s \<Rightarrow> ComplianceReceipt list) \<Rightarrow> ('s, 'v) Server \<Rightarrow> ('s, 'v) Server \<Rightarrow> bool" where
  "advances rcpts s s' \<longleftrightarrow>
     (\<exists>new. rcpts (sv_receipts s') = rcpts (sv_receipts s) @ new) \<and>
     ledger_keeps (sv_ledger s) (sv_ledger s') \<and> ledger_reach (sv_ledger s) (sv_ledger s') \<and>
     sv_apiToken s' = sv_apiToken s \<and> sv_adminToken s' = sv_adminToken s \<and> sv_extractor s' = sv_extractor s"

lemma advances_refl [simp]: "advances rcpts s s"
  by (simp add: advances_def reach_refl)

lemma advances_trans: "advances rcpts a b \<Longrightarrow> advances rcpts b c \<Longrightarrow> advances rcpts a c"
  unfolding advances_def
  by (elim conjE exE) (auto intro: ledger_keeps_trans ledger_reach_trans)

lemma same_serviceD:
  assumes "same_service s s'"
  shows "sv_receipts s' = sv_receipts s" "sv_engine s' = sv_engine s" "sv_apiToken s' = sv_apiToken s"
    "sv_adminToken s' = sv_adminToken s" "sv_extractor s' = sv_extractor s" "sv_generator s' = sv_generator s"
    "sv_detector s' = sv_detector s" "sv_checkers s' = sv_checkers s"
proof -
  from assms obtain ch n where "s = s'\<lparr>sv_auditCh := ch, sv_auditFailures := n\<rparr>" by (metis same_service_def)
  then show "sv_receipts s' = sv_receipts s" "sv_engine s' = sv_engine s" "sv_apiToken s' = sv_apiToken s"
    "sv_adminToken s' = sv_adminToken s" "sv_extractor s' = sv_extractor s" "sv_generator s' = sv_generator s"
    "sv_detector s' = sv_detector s" "sv_checkers s' = sv_checkers s" by simp_all
qed

lemma advances_same: "same_service s s' \<Longrightarrow> advances rcpts s s'"
  by (simp add: advances_def same_serviceD reach_refl)

lemma service_inv_same: "same_service s s' \<Longrightarrow> service_inv ok rcpts D rv policies s' = service_inv ok rcpts D rv policies s"
  by (simp add: service_inv_def service_ok_same same_serviceD)

text \<open>A request is good when the invariant holds afterwards and nothing durable is lost.\<close>

definition good ::
  "('s \<Rightarrow> bool) \<Rightarrow> ('s \<Rightarrow> ComplianceReceipt list) \<Rightarrow> ('s, 'v) deps \<Rightarrow> ReceiptValidator \<Rightarrow> Policy list
   \<Rightarrow> ('s, 'v) Server \<Rightarrow> ('s, 'v) Server \<Rightarrow> bool" where
  "good ok rcpts D rv policies s s' \<longleftrightarrow> service_inv ok rcpts D rv policies s' \<and> advances rcpts s s'"

lemma good_audit [simp]:
  "good ok rcpts D rv policies s (audit ev d now s') \<longleftrightarrow> good ok rcpts D rv policies s s'"
  "good ok rcpts D rv policies s (settleAuditError t c x now s') \<longleftrightarrow> good ok rcpts D rv policies s s'"
  "good ok rcpts D rv policies s (auditReceiptPersistenceFailure c t p r now s') \<longleftrightarrow> good ok rcpts D rv policies s s'"
  by (simp_all add: good_def service_inv_def service_ok_def advances_def settleAuditError_def auditReceiptPersistenceFailure_def)

lemma good_refl: "service_inv ok rcpts D rv policies s \<Longrightarrow> good ok rcpts D rv policies s s"
  by (simp add: good_def)

lemma good_trans:
  "good ok rcpts D rv policies s s1 \<Longrightarrow> good ok rcpts D rv policies s1 s2 \<Longrightarrow> good ok rcpts D rv policies s s2"
  by (auto simp: good_def intro: advances_trans)

lemma good_checker:
  assumes "service_inv ok rcpts D rv policies s" "sv_checkers s i = Some c" "Checker_Check path t1 t2 t3 c = (r, c')"
  shows "good ok rcpts D rv policies s (s\<lparr>sv_checkers := (sv_checkers s)(i \<mapsto> c')\<rparr>)" "c' = c"
proof -
  from assms have "checkers_ok policies (sv_checkers s)" by (simp add: service_inv_def service_ok_def)
  with assms(2) have n: "chk_replayDetector c = None" by (auto simp: checkers_ok_def)
  show c: "c' = c" by (cases rule: Checker_Check_cases [of path t1 t2 t3 c]) (use assms(3) n in auto)
  with assms(2) have "(sv_checkers s)(i \<mapsto> c') = sv_checkers s" by (simp add: map_upd_triv)
  with assms(1) show "good ok rcpts D rv policies s (s\<lparr>sv_checkers := (sv_checkers s)(i \<mapsto> c')\<rparr>)"
    by (simp add: good_refl)
qed

lemma check_compliant_fp:
  assumes "service_inv ok rcpts D rv policies s" "sv_checkers s i = Some c"
    and "Checker_Check path t1 t2 t3 c = (Inr r, c')" "cr_Compliant r"
  shows "compliant_fp policies i (path_Fingerprint path)"
proof -
  from assms(1,2) have "chk_policy c \<in> set policies" "pol_ID (chk_policy c) = i"
    by (auto simp: service_inv_def service_ok_def checkers_ok_def)
  with Checker_Check_compliant_within [OF assms(3,4)] show ?thesis by (auto simp: compliant_fp_def)
qed

lemma good_detector:
  "service_inv ok rcpts D rv policies s \<Longrightarrow> det_inv d \<Longrightarrow> good ok rcpts D rv policies s (s\<lparr>sv_detector := d\<rparr>)"
  by (simp add: good_def service_inv_def service_ok_def advances_def reach_refl)

text \<open>
  When a settlement request moves money: it is complete, its identifier is not on the ledger, its
  path is within the corridor of its policy, and the ledger accepts the transfer.
\<close>

definition requestTxID :: "reqEnv \<Rightarrow> string \<Rightarrow> string" where
  "requestTxID env given = (if given = '''' then e_uuid env 0 else given)"

definition settle_complete :: "('s, 'v) deps \<Rightarrow> reqEnv \<Rightarrow> SettleRequest \<Rightarrow> bool" where
  "settle_complete D env req \<longleftrightarrow>
     sreq_From req \<noteq> '''' \<and> sreq_To req \<noteq> '''' \<and> \<not> sreq_Amount req \<le>s 0 \<and> sreq_Currency req \<noteq> '''' \<and>
     sreq_PolicyID req \<noteq> '''' \<and> sreq_RawPath req \<noteq> None \<and>
     canonicalSettleRequestDigest D req (requestTxID env (sreq_TransactionID req)) \<noteq> None"

definition path_allowed :: "('s, 'v) deps \<Rightarrow> string \<Rightarrow> bytes \<Rightarrow> ('s, 'v) Server \<Rightarrow> bool" where
  "path_allowed D polID raw s \<longleftrightarrow>
     (case (sv_checkers s polID, BuildSCIONPath (dp_prims D) (sv_extractor s) raw) of
        (Some c, Inr path) \<Rightarrow> within_corridor (chk_policy c) path
      | _ \<Rightarrow> False)"

definition moves_money :: "('s, 'v) deps \<Rightarrow> reqEnv \<Rightarrow> SettleRequest \<Rightarrow> ('s, 'v) Server \<Rightarrow> bool" where
  "moves_money D env req s \<longleftrightarrow>
     settle_complete D env req \<and> GetTransaction (requestTxID env (sreq_TransactionID req)) (sv_ledger s) = None \<and>
     path_allowed D (sreq_PolicyID req) (the (sreq_RawPath req)) s \<and>
     acceptable (emptyTx\<lparr>tx_From := sreq_From req, tx_To := sreq_To req, tx_Amount := sreq_Amount req,
                         tx_Currency := sreq_Currency req\<rparr>) (sv_ledger s)"

lemma acceptable_settle:
  "acceptable (settleTransaction req txID digest path) l \<longleftrightarrow>
   acceptable (emptyTx\<lparr>tx_From := sreq_From req, tx_To := sreq_To req, tx_Amount := sreq_Amount req,
                       tx_Currency := sreq_Currency req\<rparr>) l"
  by (simp add: acceptable_def settleTransaction_def)

lemma hex_nonempty: "hashes_sized P \<Longrightarrow> hex (sha256 P m) \<noteq> ''''"
  unfolding hashes_sized_def by (cases "sha256 P m") (auto simp: hex_def hex_byte_def dest: spec [of _ m])

lemma digest_nonempty: "hashes_sized (dp_prims D) \<Longrightarrow> canonicalSettleRequestDigest D req i = Some d \<Longrightarrow> d \<noteq> ''''"
  by (auto simp: canonicalSettleRequestDigest_def Let_def hex_nonempty split: option.splits)

lemma built_fingerprint_nonempty: "hashes_sized P \<Longrightarrow> BuildSCIONPath P e raw = Inr path \<Longrightarrow> path_Fingerprint path \<noteq> ''''"
  by (drule BuildSCIONPath_Inr) (simp add: FingerprintHops_def hex_nonempty)

lemma same_service_good:
  "service_inv ok rcpts D rv policies s \<Longrightarrow> same_service s s' \<Longrightarrow> good ok rcpts D rv policies s s'"
  by (simp add: good_def advances_same service_inv_same)

lemma good_same: "good ok rcpts D rv policies s s1 \<Longrightarrow> same_service s1 s' \<Longrightarrow> good ok rcpts D rv policies s s'"
  by (auto simp: good_def service_inv_same dest: advances_same intro: advances_trans)

section \<open>The life of a server\<close>

text \<open>The keys \<open>ed25519.GenerateKey\<close> returns are genuine, and the operator has them trusted.\<close>

definition keys_ok :: "prims \<Rightarrow> ReceiptValidator \<Rightarrow> reqEnv \<Rightarrow> bool" where
  "keys_ok P rv env \<longleftrightarrow>
     (case e_genKey env of None \<Rightarrow> True | Some (pub, priv) \<Rightarrow> pub = ed_public P priv \<and> isTrustedKey rv pub)"

inductive service_step ::
  "('s, 'v) deps \<Rightarrow> ReceiptValidator \<Rightarrow> ('s, 'v) Server \<Rightarrow> ('s, 'v) Server \<Rightarrow> bool" for D rv where
  request: "keys_ok (dp_prims D) rv env \<Longrightarrow> service_step D rv s (snd (Handler D env req s))"
| audit_written: "service_step D rv s (snd (auditWriter fails s))"
| subscribed: "service_step D rv s (s\<lparr>sv_detector := snd (Subscribe (sv_detector s))\<rparr>)"
| unsubscribed: "service_step D rv s (s\<lparr>sv_detector := Unsubscribe c (sv_detector s)\<rparr>)"

inductive service_reach ::
  "('s, 'v) deps \<Rightarrow> ReceiptValidator \<Rightarrow> ('s, 'v) Server \<Rightarrow> ('s, 'v) Server \<Rightarrow> bool" for D rv where
  service_refl: "service_reach D rv s s"
| service_next: "service_reach D rv s s1 \<Longrightarrow> service_step D rv s1 s2 \<Longrightarrow> service_reach D rv s s2"

lemma service_request: "service_reach D rv s s1 \<Longrightarrow> keys_ok (dp_prims D) rv env \<Longrightarrow> service_reach D rv s (snd (Handler D env req s1))"
  by (rule service_next [OF _ request])

section \<open>A server that has just started\<close>

lemma checkers_ok_upd: "checkers_ok policies m \<Longrightarrow> p \<in> set policies \<Longrightarrow> checkers_ok policies (m(pol_ID p \<mapsto> NewChecker p))"
  by (simp add: checkers_ok_def NewChecker_def)

lemma checkers_ok_New: "checkers_ok policies (sv_checkers (NewServer policies g e ce rs d now t a k fs))"
proof -
  have "checkers_ok policies (fold (\<lambda>p m. m(pol_ID p \<mapsto> NewChecker p)) ps m)" if "checkers_ok policies m" "set ps \<subseteq> set policies" for ps m
    using that by (induction ps arbitrary: m) (simp_all add: checkers_ok_upd)
  from this [of Map.empty policies] show ?thesis by (simp add: NewServer_def checkers_ok_def)
qed

lemma NewLedger_known: "v \<in> set vs \<Longrightarrow> lg_validators (NewLedger vs) (vs_ID v) \<noteq> None"
proof -
  have "v \<in> set vs \<or> m (vs_ID v) \<noteq> None \<Longrightarrow> fold (\<lambda>v m. m(vs_ID v \<mapsto> v)) vs m (vs_ID v) \<noteq> None" for m
    by (induction vs arbitrary: m) auto
  then show "v \<in> set vs \<Longrightarrow> ?thesis" by (simp add: NewLedger_def)
qed

lemma started_service_inv:
  assumes "ok rs" "oracle_ok (dp_prims D) (dp_codec D) rv g (rcpts rs)" "list_all (certified policies) (rcpts rs)" "vs \<noteq> []"
    and s: "s = NewServer ps g ext (NewConsensusEngine (NewLedger vs) vs) rs (NewDetector v) now tok adm kp fs" "set ps \<subseteq> set policies"
  shows "service_inv ok rcpts D rv policies s"
proof -
  have ck: "checkers_ok policies (sv_checkers s)"
    using checkers_ok_New [of ps g ext "NewConsensusEngine (NewLedger vs) vs" rs "NewDetector v" now tok adm kp fs] s
    by (auto simp: checkers_ok_def)
  have f: "sv_generator s = g" "sv_receipts s = rs" "sv_engine s = NewConsensusEngine (NewLedger vs) vs" "sv_detector s = NewDetector v"
    by (simp_all add: s(1) NewServer_def)
  from assms(4) have "lg_validators (NewLedger vs) (vs_ID (vs ! 0)) \<noteq> None" by (intro NewLedger_known) (cases vs, auto)
  moreover have "lg_pending (NewLedger vs) = []" by (simp add: NewLedger_def)
  ultimately have rdy: "engine_ready (sv_engine s)"
    using assms(4) ledger_inv_New by (simp add: f engine_ready_def NewConsensusEngine_def)
  have "ledger_linked policies (rcpts rs) (NewLedger vs)" by (simp add: ledger_linked_def NewLedger_def)
  with ck rdy assms(1-3) show ?thesis
    by (simp add: service_inv_def service_ok_def f det_inv_New) (simp add: NewConsensusEngine_def)
qed

section \<open>Every handler keeps the invariant\<close>

locale compliance_service = receipt_store S store_inv receipts + violation_store V viols
  for S :: "'s Store" and store_inv receipts and V :: "'v ViolationStore" and viols +
  fixes D :: "('s, 'v) deps"
  assumes stores: "dp_store D = S" "dp_vstore D = V"
begin

lemma issueReceipt_cases:
  assumes "service_inv store_inv receipts D rv policies s" "ed25519_correct (dp_prims D)"
    and "compliant_fp policies polID (path_Fingerprint path)"
  obtains (ok) r s' where "issueReceipt D uid now txID polID path s = (Inr r, s')"
      "good store_inv receipts D rv policies s s'" "receipts (sv_receipts s') = receipts (sv_receipts s) @ [r]"
      "issued_by (dp_prims D) (dp_codec D) (sv_generator s) uid now txID polID path r" "sv_engine s' = sv_engine s" "sv_detector s' = sv_detector s"
      "\<And>x. st_GetByID S uid (sv_receipts s') = Inr x \<Longrightarrow> x = Some r"
  | (err) e s' where "issueReceipt D uid now txID polID path s = (Inl e, s')" "good store_inv receipts D rv policies s s'"
      "sv_engine s' = sv_engine s" "sv_receipts s' = sv_receipts s" "sv_detector s' = sv_detector s"
proof -
  let ?P = "dp_prims D" and ?J = "dp_codec D" and ?rs = "receipts (sv_receipts s)"
  from assms(1) have inv: "store_inv (sv_receipts s)" and oo: "oracle_ok ?P ?J rv (sv_generator s) ?rs"
    and rest: "engine_ready (sv_engine s)" "det_inv (sv_detector s)" "checkers_ok policies (sv_checkers s)"
      "list_all (certified policies) ?rs" "ledger_linked policies ?rs (sv_ledger s)"
    by (simp_all add: service_inv_def service_ok_def)
  obtain res g st where run: "IssueAndAppend ?P ?J S uid now txID polID path (sv_generator s, sv_receipts s) = (res, g, st)"
    by (metis surj_pair)
  from oracle_ok_issue [OF inv oo assms(2) run] have oo': "store_inv st" "oracle_ok ?P ?J rv g (receipts st)" by simp_all
  let ?s' = "s\<lparr>sv_generator := g, sv_receipts := st\<rparr>"
  have eq: "issueReceipt D uid now txID polID path s = (res, ?s')"
    by (simp add: issueReceipt_def stores run)
  show thesis
  proof (rule IssueAndAppend_cases [OF inv, of ?P ?J uid now txID polID path "sv_generator s"])
    fix r st'
    assume *: "IssueAndAppend ?P ?J S uid now txID polID path (sv_generator s, sv_receipts s) = (Inr r,
        (defaultProofs (sv_generator s))\<lparr>g_seqNo := g_seqNo (sv_generator s) + 1, g_lastHash := Some (sha256 ?P (rcpt_Signature r))\<rparr>, st')"
      "issued_by ?P ?J (sv_generator s) uid now txID polID path r" "receipts st' = ?rs @ [r]"
      "st_Append S r (sv_receipts s) = (None, st')"
    with run have e: "res = Inr r" "st = st'" by simp_all
    from *(2) have f: "rcpt_PolicyID r = polID" "rcpt_Path r = path" "rcpt_ID r = uid" by (simp_all add: issued_by_def)
    from f assms(3) have "certified policies r" by (simp add: certified_def)
    moreover have "ledger_linked policies (receipts st) (sv_ledger s)"
      by (rule ledger_linked_mono [OF rest(5)]) (use e *(3) in auto)
    ultimately have "good store_inv receipts D rv policies s ?s'"
      using rest e *(3) oo'
      by (simp add: good_def service_inv_def service_ok_def advances_def reach_refl)
    moreover have "x = Some r" if "st_GetByID S uid (sv_receipts ?s') = Inr x" for x
      using append_then_getByID [OF inv *(4)] that e f by simp
    ultimately show thesis using ok [of r ?s'] eq e *(2,3) by simp
  next
    fix e
    assume "IssueAndAppend ?P ?J S uid now txID polID path (sv_generator s, sv_receipts s) = (Inl e, defaultProofs (sv_generator s), sv_receipts s)"
    with run have e: "res = Inl e" "st = sv_receipts s" by simp_all
    with rest oo' have "good store_inv receipts D rv policies s ?s'"
      by (simp add: good_def service_inv_def service_ok_def advances_def reach_refl)
    with err [of e ?s'] eq e show thesis by simp
  qed
qed

lemma receipt_by_id:
  assumes "store_inv st" "q \<in> set (receipts st)" "st_GetByID S (rcpt_ID q) st = Inr x"
  shows "x = Some q"
proof -
  from getByID [OF assms(1,3)] have x: "x = find (\<lambda>r. rcpt_ID r = rcpt_ID q) (receipts st)" .
  from distinct_keys [OF assms(1)] have d: "distinct (map rcpt_ID (receipts st))" by simp
  from assms(2) have "find (\<lambda>r. rcpt_ID r = rcpt_ID q) (receipts st) \<noteq> None" by (auto simp: find_None_iff)
  then obtain y where y: "find (\<lambda>r. rcpt_ID r = rcpt_ID q) (receipts st) = Some y" by blast
  then have "y \<in> set (receipts st)" "rcpt_ID y = rcpt_ID q" by (auto simp: find_Some_iff)
  with d assms(2) have "y = q" by (auto simp: distinct_map inj_on_def)
  with x y show ?thesis by simp
qed

text \<open>The three ways the guard of a settlement receipt can go.\<close>

lemma settlementGuard_cases:
  assumes "service_inv store_inv receipts D rv policies s"
  obtains (missing) e where "settlementGuard D txID s = Inl (Inl e)"
  | (have_it) r q where "settlementGuard D txID s = Inl (Inr q)" "lg_confirmed (sv_ledger s) txID = Some r"
      "q \<in> set (receipts (sv_receipts s))" "receipt_for (lg_heap (sv_ledger s) r) q"
  | (needs) r where "settlementGuard D txID s = Inr (lg_heap (sv_ledger s) r)" "lg_confirmed (sv_ledger s) txID = Some r"
      "tx_ReceiptID (lg_heap (sv_ledger s) r) = ''''"
proof -
  let ?l = "sv_ledger s"
  from assms have rdy: "engine_ready (sv_engine s)" and si: "store_inv (sv_receipts s)"
    and lk: "ledger_linked policies (receipts (sv_receipts s)) ?l"
    by (simp_all add: service_inv_def service_ok_def)
  show thesis
  proof (cases "lg_confirmed ?l txID")
    case None
    with missing show thesis by (simp add: settlementGuard_def GetTransaction_ready [OF rdy])
  next
    case (Some r)
    with lk have st: "settled_tx policies (receipts (sv_receipts s)) (lg_heap ?l r)" by (simp add: ledger_linked_def)
    show thesis
    proof (cases "tx_ReceiptID (lg_heap ?l r) = ''''")
      case True
      with Some st needs show thesis
        by (simp add: settlementGuard_def GetTransaction_ready [OF rdy] settled_tx_def loadLedgerReceipt_def)
    next
      case False
      with st obtain q where q: "q \<in> set (receipts (sv_receipts s))" "receipt_for (lg_heap ?l r) q"
        by (auto simp: settled_tx_def)
      then have rid: "rcpt_ID q = tx_ReceiptID (lg_heap ?l r)" by (simp add: receipt_for_def)
      show thesis
      proof (cases "st_GetByID S (tx_ReceiptID (lg_heap ?l r)) (sv_receipts s)")
        case (Inl e)
        with Some st False missing show thesis
          by (simp add: settlementGuard_def GetTransaction_ready [OF rdy] settled_tx_def loadLedgerReceipt_def stores)
      next
        case (Inr x)
        with receipt_by_id [OF si q(1)] rid have "x = Some q" by simp
        with Some st False Inr q have_it show thesis
          by (simp add: settlementGuard_def GetTransaction_ready [OF rdy] settled_tx_def loadLedgerReceipt_def stores)
      qed
    qed
  qed
qed

lemma attach_good:
  assumes "service_inv store_inv receipts D rv policies s" "lg_confirmed (sv_ledger s) i = Some r"
    and "tx_ReceiptID (lg_heap (sv_ledger s) r) = ''''" "q \<in> set (receipts (sv_receipts s))"
    and "receipt_for ((lg_heap (sv_ledger s) r)\<lparr>tx_ReceiptID := rcpt_ID q\<rparr>) q"
    and "AttachReceipt i (rcpt_ID q) (sv_ledger s) = (res, l')"
  shows "good store_inv receipts D rv policies s (s\<lparr>sv_engine := (sv_engine s)\<lparr>ce_ledger := l'\<rparr>\<rparr>) \<and>
    same_funds (sv_ledger s) l' \<and> (\<exists>tx. res = Inr tx) \<and>
    lg_confirmed l' = lg_confirmed (sv_ledger s) \<and> lg_heap l' r = (lg_heap (sv_ledger s) r)\<lparr>tx_ReceiptID := rcpt_ID q\<rparr>"
proof -
  let ?l = "sv_ledger s"
  have l': "l' = ?l\<lparr>lg_heap := (lg_heap ?l)(r := (lg_heap ?l r)\<lparr>tx_ReceiptID := rcpt_ID q\<rparr>)\<rparr>" and r: "\<exists>tx. res = Inr tx"
    using assms(2,3,6) by (auto simp: AttachReceipt_def Let_def)
  from assms(1) have rdy: "engine_ready (sv_engine s)" and lk: "ledger_linked policies (receipts (sv_receipts s)) ?l"
    by (simp_all add: service_inv_def service_ok_def)
  have sn: "l' = snd (AttachReceipt i (rcpt_ID q) ?l)" using assms(6) by simp
  have "ledger_inv l'" using rdy ledger_inv_attach [of ?l i "rcpt_ID q"] sn by (simp add: engine_ready_def)
  moreover have "lg_pending l' = lg_pending ?l" "lg_validators l' = lg_validators ?l" by (simp_all add: l')
  ultimately have rdy': "engine_ready ((sv_engine s)\<lparr>ce_ledger := l'\<rparr>)" using rdy by (simp add: engine_ready_def)
  have "ledger_linked policies (receipts (sv_receipts s)) l'"
    using ledger_linked_attach [OF lk assms(2,4,5)] l' by simp
  moreover have "ledger_keeps ?l l'" using ledger_keeps_attach [OF assms(3)] l' by simp
  moreover have "ledger_reach ?l l'" using ledger_reach_one [OF attached [of ?l i "rcpt_ID q"]] sn by simp
  moreover have "same_funds ?l l'" using same_funds_ops(6) [of ?l i "rcpt_ID q"] sn by simp
  moreover have "lg_confirmed l' = lg_confirmed ?l" "lg_heap l' r = (lg_heap ?l r)\<lparr>tx_ReceiptID := rcpt_ID q\<rparr>"
    by (simp_all add: l')
  ultimately show ?thesis using assms(1) rdy' r
    by (simp add: good_def service_inv_def service_ok_def advances_def)
qed

text \<open>What repairing or issuing the receipt of a settlement does: never to balances, never to who is confirmed.\<close>

lemma ensure_good:
  assumes "service_inv store_inv receipts D rv policies s" "ed25519_correct (dp_prims D)"
    and pol: "\<And>r. lg_confirmed (sv_ledger s) txID = Some r \<Longrightarrow> polID = tx_PolicyID (lg_heap (sv_ledger s) r)"
    and run: "ensureSettlementReceipt D env txID polID raw path s = (res, s')"
  shows "good store_inv receipts D rv policies s s' \<and> same_funds (sv_ledger s) (sv_ledger s') \<and>
    lg_confirmed (sv_ledger s') = lg_confirmed (sv_ledger s) \<and>
    (case res of Inl _ \<Rightarrow> True | Inr q \<Rightarrow> q \<in> set (receipts (sv_receipts s')) \<and>
       (\<exists>tx. GetTransaction txID (sv_ledger s') = Some tx \<and> receipt_for tx q))"
  (is "?goal res s'")
proof (rule settlementGuard_cases [OF assms(1), of txID])
  fix e assume "settlementGuard D txID s = Inl (Inl e)"
  with run have "res = Inl e" "s' = s" by (simp_all add: ensureSettlementReceipt_def)
  with assms(1) show ?thesis by (simp add: good_refl)
next
  fix r q assume "settlementGuard D txID s = Inl (Inr q)" and c: "lg_confirmed (sv_ledger s) txID = Some r"
    "q \<in> set (receipts (sv_receipts s))" "receipt_for (lg_heap (sv_ledger s) r) q"
  with run have "res = Inr q" "s' = s" by (simp_all add: ensureSettlementReceipt_def)
  with assms(1) c show ?thesis by (simp add: good_refl GetTransaction_def)
next
  fix r assume gd: "settlementGuard D txID s = Inr (lg_heap (sv_ledger s) r)" and c: "lg_confirmed (sv_ledger s) txID = Some r"
    and nr: "tx_ReceiptID (lg_heap (sv_ledger s) r) = ''''"
  let ?tx = "lg_heap (sv_ledger s) r"
  let ?build = "case path of Some p \<Rightarrow> Inr p | None \<Rightarrow> BuildSCIONPath (dp_prims D) (sv_extractor s) raw"
  from assms(1) c have st: "settled_tx policies (receipts (sv_receipts s)) ?tx" and id: "tx_ID ?tx = txID"
    by (auto simp: service_inv_def service_ok_def ledger_linked_def engine_ready_def ledger_inv_iff)
  show ?thesis
  proof (cases "\<exists>p. ?build = Inr p \<and> path_Fingerprint p = tx_PathFingerprint ?tx")
    case False
    with run gd st have "s' = s" "\<exists>e. res = Inl e"
      by (auto simp: ensureSettlementReceipt_def settled_tx_def split: sum.splits if_splits option.splits)
    with assms(1) show ?thesis by (auto simp: good_refl)
  next
    case True
    then obtain p where p: "?build = Inr p" "path_Fingerprint p = tx_PathFingerprint ?tx" by blast
    with st pol [OF c] have fp: "compliant_fp policies polID (path_Fingerprint p)" by (simp add: settled_tx_def)
    show ?thesis
    proof (rule issueReceipt_cases [OF assms(1,2) fp, of "e_uuid env 1" "e_clk env 3" txID])
      fix q s1
      assume i: "issueReceipt D (e_uuid env 1) (e_clk env 3) txID polID p s = (Inr q, s1)"
        "good store_inv receipts D rv policies s s1" "receipts (sv_receipts s1) = receipts (sv_receipts s) @ [q]"
        "issued_by (dp_prims D) (dp_codec D) (sv_generator s) (e_uuid env 1) (e_clk env 3) txID polID p q"
        "sv_engine s1 = sv_engine s"
      obtain x l' where a: "AttachReceipt txID (rcpt_ID q) (sv_ledger s1) = (x, l')" by fastforce
      have rf: "receipt_for (?tx\<lparr>tx_ReceiptID := rcpt_ID q\<rparr>) q"
        using i(4) p(2) id pol [OF c] by (simp add: receipt_for_def issued_by_def)
      have s1: "service_inv store_inv receipts D rv policies s1" "lg_confirmed (sv_ledger s1) txID = Some r"
        "tx_ReceiptID (lg_heap (sv_ledger s1) r) = ''''" "q \<in> set (receipts (sv_receipts s1))"
        "receipt_for ((lg_heap (sv_ledger s1) r)\<lparr>tx_ReceiptID := rcpt_ID q\<rparr>) q"
        using i(2,3,5) c nr rf by (simp_all add: good_def)
      from attach_good [OF s1 a]
      have g: "good store_inv receipts D rv policies s1 (s1\<lparr>sv_engine := (sv_engine s1)\<lparr>ce_ledger := l'\<rparr>\<rparr>)"
        "same_funds (sv_ledger s1) l'" "\<exists>tx. x = Inr tx"
        "lg_confirmed l' = lg_confirmed (sv_ledger s1)" "lg_heap l' r = ?tx\<lparr>tx_ReceiptID := rcpt_ID q\<rparr>"
        using i(5) by simp_all
      from run gd p i(1) a g(3) have "res = Inr q" "s' = s1\<lparr>sv_engine := (sv_engine s1)\<lparr>ce_ledger := l'\<rparr>\<rparr>"
        by (auto simp: ensureSettlementReceipt_def Let_def)
      with g i(3,5) good_trans [OF i(2) g(1)] c rf show ?thesis by (simp add: GetTransaction_def)
    next
      fix e s1
      assume i: "issueReceipt D (e_uuid env 1) (e_clk env 3) txID polID p s = (Inl e, s1)"
        "good store_inv receipts D rv policies s s1" "sv_engine s1 = sv_engine s"
      with run gd p have "sv_engine s' = sv_engine s1" "\<exists>e. res = Inl e" "good store_inv receipts D rv policies s s'"
        by (auto simp: ensureSettlementReceipt_def split: if_splits)
      with i(3) show ?thesis by auto
    qed
  qed
qed

lemma existing_good:
  assumes "service_inv store_inv receipts D rv policies s" "ed25519_correct (dp_prims D)"
    and ex: "GetTransaction i (sv_ledger s) = Some existing"
    and run: "handleExistingSettlement D env existing req digest path s = (resp, s')"
  shows "good store_inv receipts D rv policies s s' \<and> same_funds (sv_ledger s) (sv_ledger s') \<and>
    lg_confirmed (sv_ledger s') = lg_confirmed (sv_ledger s)"
proof -
  from assms(1) have rdy: "engine_ready (sv_engine s)" and lk: "ledger_linked policies (receipts (sv_receipts s)) (sv_ledger s)"
    by (simp_all add: service_inv_def service_ok_def)
  from ex obtain r where r: "lg_confirmed (sv_ledger s) i = Some r" "existing = lg_heap (sv_ledger s) r"
    by (auto simp: GetTransaction_ready [OF rdy])
  with rdy lk have id: "tx_ID existing = i" and po: "tx_PolicyID existing \<noteq> ''''" and st: "tx_Status existing = TxConfirmed"
    by (auto simp: engine_ready_def ledger_inv_iff ledger_linked_def settled_tx_def)
  have pol: "receiptPolicyID existing (sreq_PolicyID req) = tx_PolicyID (lg_heap (sv_ledger s) r')"
    if "lg_confirmed (sv_ledger s) (tx_ID existing) = Some r'" for r'
    using that r id po by (simp add: receiptPolicyID_def)
  show ?thesis
  proof (cases "settleRequestMatchesTransaction existing req digest \<and>
      (\<exists>p. validateLegacySettlementPath D (sv_extractor s) existing req path = Inr p)")
    case False
    with run have "same_service s s'"
      by (auto simp: handleExistingSettlement_def Let_def split: if_splits sum.splits LegacyPathFault.splits)
    with assms(1) show ?thesis
      by (simp add: good_def advances_same service_inv_same same_serviceD)
  next
    case True
    then obtain p where v: "settleRequestMatchesTransaction existing req digest"
      "validateLegacySettlementPath D (sv_extractor s) existing req path = Inr p" by blast
    obtain res s1 where en: "ensureSettlementReceipt D env (tx_ID existing) (receiptPolicyID existing (sreq_PolicyID req))
        (case sreq_RawPath req of None \<Rightarrow> [] | Some b \<Rightarrow> b) p s = (res, s1)" by fastforce
    from ensure_good [OF assms(1,2) pol en]
    have g: "good store_inv receipts D rv policies s s1" "same_funds (sv_ledger s) (sv_ledger s1)"
      "lg_confirmed (sv_ledger s1) = lg_confirmed (sv_ledger s)" by simp_all
    from run v en st have "same_service s1 s'"
      by (auto simp: handleExistingSettlement_def Let_def split: sum.splits if_splits prod.splits)
    with g show ?thesis
      by (auto simp: good_def service_inv_same same_serviceD dest: advances_same intro: advances_trans)
  qed
qed

lemma settleCompliant_good:
  assumes "service_inv store_inv receipts D rv policies s" "ed25519_correct (dp_prims D)"
    and new: "GetTransaction txID (sv_ledger s) = None"
    and req: "sreq_PolicyID req \<noteq> ''''" "digest \<noteq> ''''" "path_Fingerprint path \<noteq> ''''"
      "compliant_fp policies (sreq_PolicyID req) (path_Fingerprint path)"
    and run: "settleCompliant D env req txID digest path s = (resp, s')"
  shows "good store_inv receipts D rv policies s s' \<and>
    (if acceptable (settleTransaction req txID digest path) (sv_ledger s)
     then balances (sv_ledger s') = transfer (sreq_From req) (sreq_To req) (sreq_Currency req) (sreq_Amount req) (balances (sv_ledger s))
       \<and> (\<exists>r. lg_confirmed (sv_ledger s') = (lg_confirmed (sv_ledger s))(txID \<mapsto> r))
     else same_funds (sv_ledger s) (sv_ledger s') \<and> lg_confirmed (sv_ledger s') = lg_confirmed (sv_ledger s))"
proof -
  let ?l = "sv_ledger s" and ?tx = "settleTransaction req txID digest path"
  let ?r = "lg_next ?l"
  define la where "la = snd (newTx ?tx ?l)"
  let ?ce = "(sv_engine s)\<lparr>ce_ledger := la\<rparr>"
  from assms(1) have rdy: "engine_ready (sv_engine s)" and lk: "ledger_linked policies (receipts (sv_receipts s)) ?l"
    by (simp_all add: service_inv_def service_ok_def)
  then have li: "ledger_inv ?l" by (simp add: engine_ready_def)
  have rdy0: "engine_ready ?ce" using engine_ready_with_tx [OF rdy, of ?tx] by (simp add: with_tx_def la_def)
  have l0: "lg_heap la ?r = ?tx" "?r < lg_next la" "lg_confirmed la = lg_confirmed ?l" "lg_seen la = lg_seen ?l"
    "lg_validators la = lg_validators ?l" "newTx ?tx ?l = (?r, la)" by (simp_all add: newTx_def la_def)
  from new have unc: "lg_confirmed ?l txID = None" by (simp add: GetTransaction_ready [OF rdy])
  with lk have uns: "\<not> lg_seen ?l txID" by (auto simp: ledger_linked_def)
  have tid: "tx_ID ?tx = txID" by (simp add: settleTransaction_def)
  have acc: "acceptable ?tx la = acceptable ?tx ?l" by (simp add: acceptable_def GetBalance_def l0)
  have reach0: "ledger_reach ?l la" unfolding la_def by (rule ledger_reach_one [OF allocate])
  have n: "?r < lg_next (ce_ledger ?ce)" by (simp add: l0)
  have lka: "ledger_linked policies (receipts (sv_receipts s)) la" and kla: "ledger_keeps ?l la" and lia: "ledger_inv la"
    unfolding la_def by (rule ledger_linked_alloc [OF li lk], rule ledger_keeps_alloc [OF li], rule ledger_inv_alloc [OF li])
  have adv: "advances receipts s (s\<lparr>sv_engine := ce'\<rparr>)"
    if "ledger_keeps ?l (ce_ledger ce')" "ce' = snd (SubmitAndRunRound (e_pick env) (e_clk env 5) ?r ?ce)" for ce'
    using that ledger_reach_trans [OF SubmitAndRunRound_reach [OF n, of "e_pick env" "e_clk env 5"]] reach0
    by (simp add: advances_def)
  show ?thesis
  proof (rule SubmitAndRunRound_cases [OF rdy0 n, of "e_pick env" "e_clk env 5"])
    fix tx
    assume "lg_seen (ce_ledger ?ce) (tx_ID (lg_heap (ce_ledger ?ce) ?r))"
    with uns show ?thesis by (simp add: l0 tid)
  next
    fix e
    assume *: "\<not> acceptable (lg_heap (ce_ledger ?ce) ?r) (ce_ledger ?ce)"
      "SubmitAndRunRound (e_pick env) (e_clk env 5) ?r ?ce = (SubmitError e, ?ce)"
    have na: "\<not> acceptable ?tx ?l" using *(1) acc by (simp add: l0)
    have "same_service (s\<lparr>sv_engine := ?ce\<rparr>) s'" using run * by (auto simp: settleCompliant_def l0(6) Let_def)
    moreover have "good store_inv receipts D rv policies s (s\<lparr>sv_engine := ?ce\<rparr>)"
      using assms(1) rdy0 lka adv [of ?ce] kla *(2)
      by (simp add: good_def service_inv_def service_ok_def)
    moreover have "same_funds ?l la" unfolding la_def by (rule same_funds_ops)
    ultimately show ?thesis using na
      by (auto simp: good_def service_inv_same same_serviceD l0 dest: advances_same intro: advances_trans)
  next
    fix ce'
    let ?res = "\<lparr>cres_Confirmed = True, cres_Round = lg_currentRound (ce_ledger ?ce) + 1,
                    cres_Votes = length (ce_validators ?ce), cres_TxID = tx_ID (lg_heap (ce_ledger ?ce) ?r)\<rparr>"
    assume *: "acceptable (lg_heap (ce_ledger ?ce) ?r) (ce_ledger ?ce)"
      "SubmitAndRunRound (e_pick env) (e_clk env 5) ?r ?ce = (RoundDone ?res None, ce')"
      "settled (e_clk env 5) ?r (ce_ledger ?ce) (ce_ledger ce')" "engine_ready ce'"
    have st: "settled (e_clk env 5) ?r la (ce_ledger ce')" using *(3) by simp
    let ?s1 = "s\<lparr>sv_engine := ce'\<rparr>"
    have bal: "balances (ce_ledger ce') = transfer (sreq_From req) (sreq_To req) (sreq_Currency req) (sreq_Amount req) (balances ?l)"
      using st by (simp add: settled_def Let_def l0 settleTransaction_def balances_def [abs_def] GetBalance_def)
    have conf: "lg_confirmed (ce_ledger ce') = (lg_confirmed ?l)(txID \<mapsto> ?r)"
      and pol: "tx_PolicyID (lg_heap (ce_ledger ce') ?r) = sreq_PolicyID req"
      using st by (auto simp: settled_def Let_def l0 tid) (simp add: settleTransaction_def)
    have "settled_tx policies (receipts (sv_receipts s)) (?tx\<lparr>tx_Status := TxConfirmed\<rparr>)"
      using req by (simp add: settled_tx_def settleTransaction_def emptyTx_def)
    then have lc: "ledger_linked policies (receipts (sv_receipts s)) (ce_ledger ce')"
      using ledger_linked_settled [OF lka st] by (simp add: l0)
    have "ledger_keeps ?l (ce_ledger ce')"
    proof (rule ledger_keeps_trans [OF kla ledger_keeps_settled [OF lia st]])
      show "lg_confirmed la (tx_ID (lg_heap la ?r)) = None" using unc by (simp add: l0 tid)
    qed
    then have "advances receipts s ?s1" by (rule adv) (simp add: *(2))
    with assms(1) *(4) lc have g1: "good store_inv receipts D rv policies s ?s1"
      by (simp add: good_def service_inv_def service_ok_def)
    obtain res s2 where en: "ensureSettlementReceipt D env txID (sreq_PolicyID req)
        (case sreq_RawPath req of None \<Rightarrow> [] | Some b \<Rightarrow> b) (Some path) ?s1 = (res, s2)" by fastforce
    have i1: "service_inv store_inv receipts D rv policies ?s1" using g1 by (simp add: good_def)
    have p1: "sreq_PolicyID req = tx_PolicyID (lg_heap (sv_ledger ?s1) r)" if "lg_confirmed (sv_ledger ?s1) txID = Some r" for r
      using that conf pol by simp
    from ensure_good [OF i1 assms(2) p1 en]
    have g2: "good store_inv receipts D rv policies ?s1 s2" "same_funds (ce_ledger ce') (sv_ledger s2)"
      "lg_confirmed (sv_ledger s2) = lg_confirmed (ce_ledger ce')" by simp_all
    have "same_service s2 s'"
      using run *(2) en by (auto simp: settleCompliant_def l0(6) Let_def split: sum.splits if_splits prod.splits)
    then have s': "sv_engine s' = sv_engine s2" "good store_inv receipts D rv policies s s'"
      using good_trans [OF g1 g2(1)]
      by (auto simp: good_def service_inv_same same_serviceD dest: advances_same intro: advances_trans)
    have "balances (sv_ledger s') = balances (ce_ledger ce')"
      using g2(2) s'(1) by (simp add: same_funds_balances)
    with s' bal conf g2(3) *(1) acc show ?thesis by (auto simp: l0)
  qed
qed

lemma handleSettle_good:
  assumes "service_inv store_inv receipts D rv policies s" "ed25519_correct (dp_prims D)" "hashes_sized (dp_prims D)"
    and run: "handleSettle D env (Some req) s = (resp, s')"
  shows "good store_inv receipts D rv policies s s' \<and>
    (if moves_money D env req s
     then balances (sv_ledger s') = transfer (sreq_From req) (sreq_To req) (sreq_Currency req) (sreq_Amount req) (balances (sv_ledger s))
       \<and> (\<exists>r. lg_confirmed (sv_ledger s') = (lg_confirmed (sv_ledger s))(requestTxID env (sreq_TransactionID req) \<mapsto> r))
     else same_funds (sv_ledger s) (sv_ledger s') \<and> lg_confirmed (sv_ledger s') = lg_confirmed (sv_ledger s))"
proof -
  let ?tx = "requestTxID env (sreq_TransactionID req)"
  have idle: ?thesis if "\<not> moves_money D env req s" "same_service s s'"
    using that same_service_good [OF assms(1)] by (simp add: same_serviceD)
  show ?thesis
  proof (cases "settle_complete D env req")
    case False
    with run have "same_service s s'"
      by (auto simp: handleSettle_def settle_complete_def requestTxID_def Let_def split: if_splits)
    with False show ?thesis by (intro idle) (simp_all add: moves_money_def)
  next
    case complete: True
    then obtain d raw where d: "canonicalSettleRequestDigest D req ?tx = Some d" and raw: "sreq_RawPath req = Some raw"
      and wf: "\<not> (sreq_From req = '''' \<or> sreq_To req = '''' \<or> sreq_Amount req \<le>s 0 \<or> sreq_Currency req = '''')"
        "sreq_PolicyID req \<noteq> ''''"
      by (auto simp: settle_complete_def)
    note unf = handleSettle_def Let_def requestTxID_def [symmetric] d raw wf
    show ?thesis
    proof (cases "GetTransaction ?tx (sv_ledger s)")
      case (Some ex)
      with run have "handleExistingSettlement D env ex req d None s = (resp, s')" using wf by (simp add: unf)
      with existing_good [OF assms(1,2) Some] Some show ?thesis by (simp add: moves_money_def)
    next
      case new: None
      show ?thesis
      proof (cases "\<exists>c path. sv_checkers s (sreq_PolicyID req) = Some c \<and> BuildSCIONPath (dp_prims D) (sv_extractor s) raw = Inr path")
        case False
        with run new wf have "same_service s s'" by (auto simp: unf split: option.splits sum.splits)
        with False raw show ?thesis
          by (intro idle) (auto simp: moves_money_def path_allowed_def split: option.splits sum.splits)
      next
        case True
        then obtain c path where c: "sv_checkers s (sreq_PolicyID req) = Some c"
          and p: "BuildSCIONPath (dp_prims D) (sv_extractor s) raw = Inr path" by blast
        obtain r c' where ck: "Checker_Check path (e_clk env 0) (e_clk env 1) (e_clk env 2) c = (r, c')" by fastforce
        from good_checker(2) [OF assms(1) c ck] have c': "c' = c" .
        with c have s1: "s\<lparr>sv_checkers := (sv_checkers s)(sreq_PolicyID req \<mapsto> c')\<rparr> = s" by (simp add: map_upd_triv)
        from assms(1) c have nd: "chk_replayDetector c = None" by (auto simp: service_inv_def service_ok_def checkers_ok_def)
        from Checker_Check_no_detector [OF nd, of path "e_clk env 0" "e_clk env 1" "e_clk env 2"] ck
        have wi: "within_corridor (chk_policy c) path \<longleftrightarrow> (case r of Inl e \<Rightarrow> False | Inr x \<Rightarrow> cr_Compliant x)" by simp
        have mv: "moves_money D env req s \<longleftrightarrow> within_corridor (chk_policy c) path \<and>
            acceptable (settleTransaction req ?tx d path) (sv_ledger s)"
          using complete new c p raw by (simp add: moves_money_def path_allowed_def acceptable_settle)
        show ?thesis
        proof (cases "within_corridor (chk_policy c) path")
          case True
          with wi obtain x where x: "r = Inr x" "cr_Compliant x" by (auto split: sum.splits)
          with run new wf c p ck s1 have sc: "settleCompliant D env req ?tx d path s = (resp, s')" by (simp add: unf)
          from check_compliant_fp [OF assms(1) c ck [unfolded x(1)] x(2)]
          have fp: "compliant_fp policies (sreq_PolicyID req) (path_Fingerprint path)" .
          from settleCompliant_good [OF assms(1,2) new wf(2) digest_nonempty [OF assms(3) d]
              built_fingerprint_nonempty [OF assms(3) p] fp sc] mv True show ?thesis by simp
        next
          case out: False
          have "good store_inv receipts D rv policies s s' \<and> sv_engine s' = sv_engine s"
          proof (cases r)
            case (Inl e)
            with run new wf c p ck s1 have "same_service s s'" by (auto simp: unf)
            with same_service_good [OF assms(1)] show ?thesis by (simp add: same_serviceD)
          next
            case (Inr x)
            with wi out have nc: "\<not> cr_Compliant x" by simp
            from assms(1) have di: "det_inv (sv_detector s)" by (simp add: service_inv_def service_ok_def)
            show ?thesis
            proof (rule Record_ok [OF di, of "dp_vstore D" "e_uuid env 2" "e_clk env 4" ?tx "sreq_PolicyID req"
                  "cr_ViolatedClause x" path "cr_OffendingHops x"])
              fix v d'
              assume rec: "Record (dp_vstore D) (e_uuid env 2) (e_clk env 4) ?tx (sreq_PolicyID req) (cr_ViolatedClause x) path
                  (cr_OffendingHops x) (sv_detector s) = Some (v, d')" "det_inv d'"
              with run new wf c p ck s1 Inr nc have "same_service (s\<lparr>sv_detector := d'\<rparr>) s'"
                by (auto simp: unf)
              with good_detector [OF assms(1) rec(2)] show ?thesis
                by (auto simp: same_serviceD good_def service_inv_same dest: advances_same intro: advances_trans)
            qed
          qed
          with mv out show ?thesis by simp
        qed
      qed
    qed
  qed
qed

text \<open>The four outcomes of a compliance check.\<close>

lemma handleCheck_cases:
  assumes "service_inv store_inv receipts D rv policies s" "ed25519_correct (dp_prims D)"
    and run: "handleCheck D env (Some req) s = (resp, s')"
    and txID: "txID = requestTxID env (creq_TransactionID req)"
  obtains (rejected) st code where "resp = RError st code" "same_service s s'"
      "(creq_TransactionID req \<noteq> '''' \<and> GetTransaction txID (sv_ledger s) \<noteq> None) \<or> sv_checkers s (creq_PolicyID req) = None \<or>
       (\<exists>e. BuildSCIONPath (dp_prims D) (sv_extractor s) (creq_RawPath req) = Inl e)"
  | (passed) q path where "resp = RPolicyResult \<lparr>res_Compliant = True, res_Receipt = Some q, res_Violation = None\<rparr>"
      "path_allowed D (creq_PolicyID req) (creq_RawPath req) s" "good store_inv receipts D rv policies s s'"
      "BuildSCIONPath (dp_prims D) (sv_extractor s) (creq_RawPath req) = Inr path"
      "receipts (sv_receipts s') = receipts (sv_receipts s) @ [q]" "sv_engine s' = sv_engine s" "sv_detector s' = sv_detector s"
      "issued_by (dp_prims D) (dp_codec D) (sv_generator s) (e_uuid env 1) (e_clk env 3) txID (creq_PolicyID req) path q"
  | (failed) "resp = RPanic \<or> resp = RError 500 ''INTERNAL_ERROR''" "path_allowed D (creq_PolicyID req) (creq_RawPath req) s"
      "good store_inv receipts D rv policies s s'" "sv_receipts s' = sv_receipts s" "sv_engine s' = sv_engine s"
      "sv_detector s' = sv_detector s"
  | (violated) v d' path where "resp = RPolicyResult \<lparr>res_Compliant = False, res_Receipt = None, res_Violation = Some v\<rparr>"
      "\<not> path_allowed D (creq_PolicyID req) (creq_RawPath req) s" "same_service (s\<lparr>sv_detector := d'\<rparr>) s'"
      "BuildSCIONPath (dp_prims D) (sv_extractor s) (creq_RawPath req) = Inr path"
      "det_inv d'" "det_store d' = snd (vst_Append V v (det_store (sv_detector s)))"
      "viol_TransactionID v = txID" "viol_PolicyID v = creq_PolicyID req" "viol_Path v = path"
proof -
  note unf = handleCheck_def Let_def requestTxID_def [symmetric] txID [symmetric]
  show thesis
  proof (cases "(creq_TransactionID req \<noteq> '''' \<and> GetTransaction txID (sv_ledger s) \<noteq> None) \<or>
      sv_checkers s (creq_PolicyID req) = None \<or> (\<exists>e. BuildSCIONPath (dp_prims D) (sv_extractor s) (creq_RawPath req) = Inl e)")
    case True
    with run have "\<exists>st code. resp = RError st code" "same_service s s'"
      by (auto simp: unf split: if_splits option.splits)
    with True rejected show thesis by blast
  next
    case False
    then obtain c path where free: "\<not> (creq_TransactionID req \<noteq> '''' \<and> GetTransaction txID (sv_ledger s) \<noteq> None)"
      and c: "sv_checkers s (creq_PolicyID req) = Some c"
      and p: "BuildSCIONPath (dp_prims D) (sv_extractor s) (creq_RawPath req) = Inr path"
      by (cases "BuildSCIONPath (dp_prims D) (sv_extractor s) (creq_RawPath req)") auto
    obtain r c' where ck: "Checker_Check path (e_clk env 0) (e_clk env 1) (e_clk env 2) c = (r, c')" by fastforce
    from good_checker(2) [OF assms(1) c ck] c
    have s1: "s\<lparr>sv_checkers := (sv_checkers s)(creq_PolicyID req \<mapsto> c')\<rparr> = s" by (simp add: map_upd_triv)
    from assms(1) c have nd: "chk_replayDetector c = None" by (auto simp: service_inv_def service_ok_def checkers_ok_def)
    from BuildSCIONPath_Inr [OF p] have "path_Hops path \<noteq> []" by simp
    with ck obtain x where x: "r = Inr x" by (cases rule: Checker_Check_cases [of path "e_clk env 0" "e_clk env 1" "e_clk env 2" c]) auto
    from Checker_Check_no_detector [OF nd, of path "e_clk env 0" "e_clk env 1" "e_clk env 2"] ck x c p
    have al: "path_allowed D (creq_PolicyID req) (creq_RawPath req) s \<longleftrightarrow> cr_Compliant x" by (simp add: path_allowed_def)
    note eqs = run free c p ck s1 x
    show thesis
    proof (cases "cr_Compliant x")
      case True
      from check_compliant_fp [OF assms(1) c ck [unfolded x] True]
      have fp: "compliant_fp policies (creq_PolicyID req) (path_Fingerprint path)" .
      show thesis
      proof (rule issueReceipt_cases [OF assms(1,2) fp, of "e_uuid env 1" "e_clk env 3" txID])
        fix q s2
        assume i: "issueReceipt D (e_uuid env 1) (e_clk env 3) txID (creq_PolicyID req) path s = (Inr q, s2)"
          "good store_inv receipts D rv policies s s2" "receipts (sv_receipts s2) = receipts (sv_receipts s) @ [q]"
          "issued_by (dp_prims D) (dp_codec D) (sv_generator s) (e_uuid env 1) (e_clk env 3) txID (creq_PolicyID req) path q"
          "sv_engine s2 = sv_engine s" "sv_detector s2 = sv_detector s"
        with eqs True have "resp = RPolicyResult \<lparr>res_Compliant = True, res_Receipt = Some q, res_Violation = None\<rparr>"
          "same_service s2 s'" by (auto simp: unf)
        with passed [of q path] i(3-) good_same [OF i(2)] al True p show thesis by (simp add: same_serviceD)
      next
        fix e s2
        assume i: "issueReceipt D (e_uuid env 1) (e_clk env 3) txID (creq_PolicyID req) path s = (Inl e, s2)"
          "good store_inv receipts D rv policies s s2" "sv_engine s2 = sv_engine s" "sv_receipts s2 = sv_receipts s" "sv_detector s2 = sv_detector s"
        with eqs True have "resp = RPanic \<or> resp = RError 500 ''INTERNAL_ERROR''" "sv_receipts s' = sv_receipts s"
          "sv_engine s' = sv_engine s" "sv_detector s' = sv_detector s" "good store_inv receipts D rv policies s s'"
          by (auto simp: unf split: if_splits)
        with failed al True show thesis by simp
      qed
    next
      case False
      from assms(1) have di: "det_inv (sv_detector s)" by (simp add: service_inv_def service_ok_def)
      show thesis
      proof (rule Record_ok [OF di, of "dp_vstore D" "e_uuid env 2" "e_clk env 4" txID "creq_PolicyID req"
            "cr_ViolatedClause x" path "cr_OffendingHops x"])
        fix v d'
        assume rec: "Record (dp_vstore D) (e_uuid env 2) (e_clk env 4) txID (creq_PolicyID req) (cr_ViolatedClause x) path
            (cr_OffendingHops x) (sv_detector s) = Some (v, d')" "det_inv d'"
          "det_store d' = snd (vst_Append (dp_vstore D) v (det_store (sv_detector s)))"
          "viol_TransactionID v = txID" "viol_PolicyID v = creq_PolicyID req" "viol_Path v = path"
        with eqs False have "resp = RPolicyResult \<lparr>res_Compliant = False, res_Receipt = None, res_Violation = Some v\<rparr>"
          "same_service (s\<lparr>sv_detector := d'\<rparr>) s'" by (auto simp: unf)
        with violated [of v d' path] al False p rec(2-) stores show thesis by simp
      qed
    qed
  qed
qed

lemma handleCheck_good:
  assumes "service_inv store_inv receipts D rv policies s" "ed25519_correct (dp_prims D)"
    and "handleCheck D env body s = (resp, s')"
  shows "good store_inv receipts D rv policies s s' \<and> sv_engine s' = sv_engine s"
proof (cases body)
  case None
  with assms(3) have "same_service s s'" by (auto simp: handleCheck_def)
  with same_service_good [OF assms(1)] show ?thesis by (simp add: same_serviceD)
next
  case (Some req)
  from assms(3) have run: "handleCheck D env (Some req) s = (resp, s')" by (simp add: Some)
  show ?thesis
    by (rule handleCheck_cases [OF assms(1,2) run refl])
       (auto simp: same_serviceD intro: same_service_good [OF assms(1)] good_same [OF good_detector [OF assms(1)]])
qed

lemma handleRotateKey_good:
  assumes "service_inv store_inv receipts D rv policies s"
    and key: "\<And>pub priv. e_genKey env = Some (pub, priv) \<Longrightarrow> pub = ed_public (dp_prims D) priv \<and> isTrustedKey rv pub"
    and run: "handleRotateKey D env hdr s = (resp, s')"
  shows "good store_inv receipts D rv policies s s' \<and> sv_engine s' = sv_engine s \<and> sv_receipts s' = sv_receipts s"
proof (cases "isAdminRequest hdr s \<and> sv_oracleKeyPath s \<noteq> '''' \<and> (\<exists>x. st_Last S (sv_receipts s) = Inr x)")
  case False
  with run have "s' = s" by (auto simp: handleRotateKey_def stores split: if_splits sum.splits)
  with assms(1) show ?thesis by (simp add: good_refl)
next
  case True
  then obtain x where x: "st_Last S (sv_receipts s) = Inr x" by blast
  obtain a err g fs where ro: "RotateKeyFile (e_faults env) (e_genKey env) (e_tmp env) (e_stamp env) (sv_oracleKeyPath s)
      (sv_generator s, sv_keyfs s) = ((a, err), g, fs)" by (metis surj_pair)
  from assms(1) have oo: "oracle_ok (dp_prims D) (dp_codec D) rv (sv_generator s) (receipts (sv_receipts s))"
    by (simp add: service_inv_def service_ok_def)
  have "oracle_ok (dp_prims D) (dp_codec D) rv g (receipts (sv_receipts s))"
  proof (cases "e_genKey env")
    case None
    with ro oo show ?thesis by (simp add: RotateKeyFile_def Let_def)
  next
    case (Some kp)
    obtain pub priv where kp: "kp = (pub, priv)" by (cases kp)
    with Some key have "pub = ed_public (dp_prims D) priv" "isTrustedKey rv pub" by auto
    with RotateKeyFile_gen [of "e_faults env" pub priv "e_tmp env" "e_stamp env" "sv_oracleKeyPath s" "sv_generator s"
        "sv_keyfs s" "(a, err)" g fs] ro Some kp oo oracle_ok_keys [OF oo] show ?thesis by auto
  qed
  with assms(1) have "good store_inv receipts D rv policies s (s\<lparr>sv_generator := g, sv_keyfs := fs\<rparr>)"
    by (simp add: good_def service_inv_def service_ok_def advances_def reach_refl)
  moreover from run True x ro have "same_service (s\<lparr>sv_generator := g, sv_keyfs := fs\<rparr>) s'"
    by (auto simp: handleRotateKey_def stores Let_def split: option.splits)
  ultimately show ?thesis by (auto simp: same_serviceD intro: good_same)
qed

lemma routes_good:
  assumes "service_inv store_inv receipts D rv policies s" "ed25519_correct (dp_prims D)" "hashes_sized (dp_prims D)"
    and key: "\<And>pub priv. e_genKey env = Some (pub, priv) \<Longrightarrow> pub = ed_public (dp_prims D) priv \<and> isTrustedKey rv pub"
  shows "good store_inv receipts D rv policies s (snd (routes D env req s))"
proof (cases "rq_Path req = callPath (rq_Call req)")
  case False
  with good_refl [OF assms(1)] show ?thesis by (simp add: routes_def)
next
  case here: True
  show ?thesis
  proof (cases "rq_Call req")
    case (PostCheck body)
    obtain resp s' where r: "handleCheck D env body s = (resp, s')" by fastforce
    with here PostCheck handleCheck_good [OF assms(1,2) r] show ?thesis by (simp add: routes_def)
  next
    case (PostFilterPaths body)
    have "same_service s (snd (handleFilterPaths env body s))"
      by (auto simp: handleFilterPaths_def Let_def split: option.split)
    with here PostFilterPaths same_service_good [OF assms(1)] show ?thesis by (simp add: routes_def)
  next
    case PostRotateKey
    obtain resp s' where r: "handleRotateKey D env (rq_AdminToken req) s = (resp, s')" by fastforce
    with here PostRotateKey handleRotateKey_good [OF assms(1) key r] show ?thesis by (simp add: routes_def)
  next
    case (PostSettle body)
    obtain resp s' where r: "handleSettle D env body s = (resp, s')" by fastforce
    show ?thesis
    proof (cases body)
      case None
      have "same_service s (snd (handleSettle D env body s))" by (simp add: None handleSettle_def)
      with here PostSettle same_service_good [OF assms(1)] show ?thesis by (simp add: routes_def)
    next
      case (Some q)
      with handleSettle_good [OF assms(1-3) r [unfolded Some]] r here PostSettle show ?thesis by (simp add: routes_def)
    qed
  qed (use here good_refl [OF assms(1)] in \<open>simp_all add: routes_def\<close>)
qed

lemma Handler_good:
  assumes "service_inv store_inv receipts D rv policies s" "ed25519_correct (dp_prims D)" "hashes_sized (dp_prims D)"
    and key: "\<And>pub priv. e_genKey env = Some (pub, priv) \<Longrightarrow> pub = ed_public (dp_prims D) priv \<and> isTrustedKey rv pub"
  shows "good store_inv receipts D rv policies s (snd (Handler D env req s))"
proof -
  have "snd (Handler D env req s) \<in> {s, snd (routes D env req s)}"
    by (auto simp: Handler_def recoveryMiddleware_def bearerAuthMiddleware_def split: prod.splits if_splits)
  with routes_good [OF assms(1-3) key] good_refl [OF assms(1)] show ?thesis by auto
qed

text \<open>Every step of a server's life is good, and so is every run.\<close>

lemma service_step_good:
  assumes "service_step D rv s s'" "service_inv store_inv receipts D rv policies s"
    and "ed25519_correct (dp_prims D)" "hashes_sized (dp_prims D)"
  shows "good store_inv receipts D rv policies s s'"
  using assms(1)
proof (cases rule: service_step.cases)
  case (request env req)
  have key: "pub = ed_public (dp_prims D) priv \<and> isTrustedKey rv pub" if "e_genKey env = Some (pub, priv)" for pub priv
    using that request(2) by (auto simp: keys_ok_def)
  from Handler_good [OF assms(2-4) key] request(1) show ?thesis by simp
next
  case (audit_written fails)
  have "same_service s (snd (auditWriter fails s))"
    by (simp add: same_service_def auditWriter_def split: list.split)
  with audit_written same_service_good [OF assms(2)] show ?thesis by simp
next
  case subscribed
  from assms(2) have "det_inv (sv_detector s)" by (simp add: service_inv_def service_ok_def)
  with subscribed good_detector [OF assms(2)] show ?thesis by (simp add: det_inv_Subscribe)
next
  case (unsubscribed c)
  from assms(2) have "det_inv (sv_detector s)" by (simp add: service_inv_def service_ok_def)
  with unsubscribed good_detector [OF assms(2)] show ?thesis by (simp add: det_inv_Unsubscribe)
qed

lemma service_reach_good:
  assumes "service_reach D rv s s'" "service_inv store_inv receipts D rv policies s"
    and "ed25519_correct (dp_prims D)" "hashes_sized (dp_prims D)"
  shows "good store_inv receipts D rv policies s s'"
  using assms(1,2)
proof (induction rule: service_reach.induct)
  case (service_refl s)
  then show ?case by (rule good_refl)
next
  case (service_next s s1 s2)
  from service_next.IH [OF service_next.prems] have g: "good store_inv receipts D rv policies s s1" .
  then have "service_inv store_inv receipts D rv policies s1" by (simp add: good_def)
  from good_trans [OF g service_step_good [OF service_next.hyps(2) this assms(3,4)]] show ?case .
qed

end

section \<open>The service on the in-memory stores\<close>

definition memoryDeps :: "prims \<Rightarrow> codec \<Rightarrow> (settlePayload \<Rightarrow> bytes option) \<Rightarrow> (MemoryStore, MemoryViolationStore) deps" where
  "memoryDeps P J js = \<lparr>dp_prims = P, dp_codec = J, dp_store = MemoryStoreOps, dp_vstore = MemoryViolationOps, dp_jsSettle = js\<rparr>"

lemma memoryDeps_simps [simp]:
  "dp_prims (memoryDeps P J js) = P" "dp_codec (memoryDeps P J js) = J" "dp_store (memoryDeps P J js) = MemoryStoreOps"
  "dp_vstore (memoryDeps P J js) = MemoryViolationOps" "dp_jsSettle (memoryDeps P J js) = js"
  by (simp_all add: memoryDeps_def)

interpretation memsvc: compliance_service MemoryStoreOps memory_inv ms_receipts MemoryViolationOps mv_violations "memoryDeps P J js"
  for P J js
  by unfold_locales simp_all

section \<open>The keys served with a chain\<close>

lemma set_addKey [simp]: "set (addKey k ks) = (if k = [] then set ks else insert k (set ks))"
  by (auto simp: addKey_def)

lemma receiptPublicKeys_complete:
  assumes "\<forall>r\<in>set rs. rcpt_OraclePublicKey r \<noteq> []" "cur \<noteq> []"
  shows "set (receiptPublicKeys rs cur) = insert cur (rcpt_OraclePublicKey ` set rs)"
proof -
  have "set (fold (\<lambda>r. addKey (rcpt_OraclePublicKey r)) rs ks) = rcpt_OraclePublicKey ` set rs \<union> set ks" for ks
    using assms(1) by (induction rs arbitrary: ks) auto
  with assms(2) show ?thesis by (simp add: receiptPublicKeys_def)
qed

section \<open>A fresh server\<close>

text \<open>
  A fresh server: its oracle has a genuine key pair that the validator \<open>rv\<close> trusts, its ledger
  and its engine have the same non-empty validator list, and its stores are empty.
\<close>

definition fresh_service ::
  "prims \<Rightarrow> ReceiptValidator \<Rightarrow> Policy list \<Rightarrow> ValidatorState list \<Rightarrow> (MemoryStore, MemoryViolationStore) Server \<Rightarrow> bool" where
  "fresh_service P rv policies vs s \<longleftrightarrow>
     vs \<noteq> [] \<and>
     (\<exists>priv pp ext now tok adm kp fs. isTrustedKey rv (ed_public P priv) \<and>
        s = NewServer policies (WithProofProvider pp (NewGeneratorWithKeys priv (ed_public P priv))) ext
              (NewConsensusEngine (NewLedger vs) vs) NewMemoryStore (NewDetector NewMemoryViolationStore) now tok adm kp fs)"

abbreviation mem_good where
  "mem_good P J js rv policies \<equiv> good memory_inv ms_receipts (memoryDeps P J js) rv policies"

abbreviation mem_inv where
  "mem_inv P J js rv policies \<equiv> service_inv memory_inv ms_receipts (memoryDeps P J js) rv policies"

lemma fresh_service_inv:
  assumes "fresh_service P rv policies vs s"
  shows "mem_inv P J js rv policies s" "sv_ledger s = NewLedger vs" "ms_receipts (sv_receipts s) = []"
proof -
  from assms obtain priv pp ext now tok adm kp fs where vs: "vs \<noteq> []" and tr: "isTrustedKey rv (ed_public P priv)"
    and s: "s = NewServer policies (WithProofProvider pp (NewGeneratorWithKeys priv (ed_public P priv))) ext
              (NewConsensusEngine (NewLedger vs) vs) NewMemoryStore (NewDetector NewMemoryViolationStore) now tok adm kp fs"
    by (auto simp: fresh_service_def)
  from oracle_ok_config(1) [OF oracle_ok_New [OF tr, of J], of pp]
  have oo: "oracle_ok P J rv (WithProofProvider pp (NewGeneratorWithKeys priv (ed_public P priv))) []" .
  have e: "ms_receipts NewMemoryStore = []" by (simp add: NewMemoryStore_def)
  show "sv_ledger s = NewLedger vs" "ms_receipts (sv_receipts s) = []" by (simp_all add: s NewServer_def NewConsensusEngine_def e)
  show "mem_inv P J js rv policies s"
    by (rule started_service_inv [where rs = NewMemoryStore, OF _ _ _ vs s]) (simp_all add: e oo memory_inv_New)
qed

lemma service_reach_inv:
  assumes "fresh_service P rv policies vs s0" "service_reach (memoryDeps P J js) rv s0 s" "ed25519_correct P" "hashes_sized P"
  shows "mem_inv P J js rv policies s"
  using memsvc.service_reach_good [OF assms(2) fresh_service_inv(1) [OF assms(1)]] assms(3,4) by (simp add: good_def)

section \<open>The signing key\<close>

lemma issueReceipt_key [simp]:
  "g_publicKey (sv_generator (snd (issueReceipt D uid now i p path s))) = g_publicKey (sv_generator s)"
proof -
  obtain x g where b: "buildReceiptLocked (dp_prims D) (dp_codec D) uid now i p path (sv_generator s) = (x, g)" by fastforce
  then have "g = defaultProofs (sv_generator s)" by (metis buildReceiptLocked_gen snd_conv)
  with b show ?thesis
    by (auto simp: issueReceipt_def IssueAndAppend_def split: sum.splits prod.splits option.splits)
qed

lemma issueReceipt_keyD:
  "issueReceipt D uid now i p path s = (x, s') \<Longrightarrow> g_publicKey (sv_generator s') = g_publicKey (sv_generator s)"
  using issueReceipt_key [of D uid now i p path s] by simp

lemma ensureSettlementReceipt_key:
  "g_publicKey (sv_generator (snd (ensureSettlementReceipt D env i p raw path s))) = g_publicKey (sv_generator s)"
  by (auto simp: ensureSettlementReceipt_def Let_def dest: issueReceipt_keyD split: sum.split prod.split)

lemma ensureSettlementReceipt_keyD:
  "ensureSettlementReceipt D env i p raw path s = (x, s') \<Longrightarrow> g_publicKey (sv_generator s') = g_publicKey (sv_generator s)"
  using ensureSettlementReceipt_key [of D env i p raw path s] by simp

lemma handleExistingSettlement_key:
  "g_publicKey (sv_generator (snd (handleExistingSettlement D env ex req d path s))) = g_publicKey (sv_generator s)"
  by (auto simp: handleExistingSettlement_def Let_def dest: ensureSettlementReceipt_keyD
      split: sum.split prod.split TxStatus.split LegacyPathFault.split)

lemma settleCompliant_key:
  "g_publicKey (sv_generator (snd (settleCompliant D env req i d path s))) = g_publicKey (sv_generator s)"
  by (auto simp: settleCompliant_def Let_def handleExistingSettlement_key dest: ensureSettlementReceipt_keyD
      split: sum.split prod.split RoundOutcome.split)

lemma handleSettle_key: "g_publicKey (sv_generator (snd (handleSettle D env body s))) = g_publicKey (sv_generator s)"
  by (simp add: handleSettle_def Let_def handleExistingSettlement_key settleCompliant_key
      split: option.split sum.split prod.split)

lemma handleCheck_key: "g_publicKey (sv_generator (snd (handleCheck D env body s))) = g_publicKey (sv_generator s)"
  by (auto simp: handleCheck_def Let_def dest: issueReceipt_keyD split: option.split sum.split prod.split)

lemma handleFilterPaths_key: "g_publicKey (sv_generator (snd (handleFilterPaths env body s))) = g_publicKey (sv_generator s)"
  by (simp add: handleFilterPaths_def Let_def split: option.split)

lemma routes_key:
  "rq_Call req \<noteq> PostRotateKey \<Longrightarrow> g_publicKey (sv_generator (snd (routes D env req s))) = g_publicKey (sv_generator s)"
  by (cases "rq_Call req") (simp_all add: routes_def handleSettle_key handleCheck_key handleFilterPaths_key)

section \<open>Primitives for the witnesses\<close>

definition svc_prims :: prims where
  "svc_prims = toy_ed\<lparr>sha256 := \<lambda>m. take 32 (m @ replicate 32 0)\<rparr>"

lemma svc_prims_correct: "ed25519_correct svc_prims" "hashes_sized svc_prims"
  using toy_ed_correct by (simp_all add: svc_prims_def ed25519_correct_def hashes_sized_def min_def)

end
