(* ===== verification/JP_Bolt.thy ===== *)
theory JP_Bolt
  imports JP_Store JP_Violation "HOL-Library.List_Lexorder" "HOL-Library.RBT"
begin

text \<open>
  The durable receipt store: the helpers of \<^verbatim>\<open>internal/boltutil/boltutil.go\<close> and \<open>BoltStore\<close> of
  \<^verbatim>\<open>internal/receipt/store.go\<close>.  The bbolt library is a parameter: a record of its bucket and
  transaction operations, whose documented behaviour is the locale \<open>bolt_db\<close> (a bucket is a finite
  map whose cursor walks the keys in byte order, a transaction that fails changes nothing).  JSON
  encoding is a parameter too.
\<close>

section \<open>The bbolt interface\<close>

text \<open>
  \<open>bo_walk\<close> is what a cursor meets from \<open>First\<close> on; \<open>bo_begin\<close> and \<open>bo_commit\<close> decide whether a
  transaction starts and commits, so every failure of the file is some choice of the two.
\<close>

record 'b boltOps =
  bo_get :: "bytes \<Rightarrow> 'b \<Rightarrow> bytes option"
  bo_put :: "bytes \<Rightarrow> bytes \<Rightarrow> 'b \<Rightarrow> 'b option"
  bo_walk :: "'b \<Rightarrow> (bytes \<times> bytes) list"
  bo_keyN :: "'b \<Rightarrow> nat"
  bo_nextSequence :: "'b \<Rightarrow> (uint64 \<times> 'b) option"
  bo_newBucket :: 'b
  bo_begin :: "(string \<rightharpoonup> 'b) \<Rightarrow> bool"
  bo_commit :: "(string \<rightharpoonup> 'b) \<Rightarrow> (string \<rightharpoonup> 'b) \<Rightarrow> bool"

type_synonym 'b boltDB = "string \<rightharpoonup> 'b"

datatype BoltFault = FaultOpen | FaultBegin | FaultCommit | FaultPut | FaultNilBucket | FaultUnmarshal | FaultMarshal | FaultSequence

record 'a jsonCodec =
  js_Marshal :: "'a \<Rightarrow> bytes option"
  js_Unmarshal :: "bytes \<Rightarrow> 'a option"

text \<open>\<open>db.Update\<close> and \<open>db.View\<close>: the function runs on the buckets; its error rolls back.\<close>

definition db_Update :: "'b boltOps \<Rightarrow> (BoltFault \<Rightarrow> 'e) \<Rightarrow> ('b boltDB \<Rightarrow> 'e option \<times> 'b boltDB) \<Rightarrow> 'b boltDB \<Rightarrow> 'e option \<times> 'b boltDB" where
  "db_Update B fault fn db =
     (if \<not> bo_begin B db then (Some (fault FaultBegin), db)
      else case fn db of
        (Some e, _) \<Rightarrow> (Some e, db)
      | (None, db') \<Rightarrow> (if bo_commit B db db' then (None, db') else (Some (fault FaultCommit), db)))"

definition db_View :: "'b boltOps \<Rightarrow> (BoltFault \<Rightarrow> 'e) \<Rightarrow> ('b boltDB \<Rightarrow> 'e + 'a) \<Rightarrow> 'b boltDB \<Rightarrow> 'e + 'a" where
  "db_View B fault fn db = (if \<not> bo_begin B db then Inl (fault FaultBegin) else fn db)"

section \<open>boltutil.go\<close>

fun createBuckets :: "'b boltOps \<Rightarrow> string list \<Rightarrow> 'b boltDB \<Rightarrow> 'b boltDB" where
  "createBuckets B [] db = db"
| "createBuckets B (n # ns) db = createBuckets B ns (if db n = None then db(n \<mapsto> bo_newBucket B) else db)"

text \<open>\<open>opens\<close> tells whether \<open>bolt.Open\<close> succeeds on the file.\<close>

definition OpenAndInit :: "'b boltOps \<Rightarrow> bool \<Rightarrow> string list \<Rightarrow> 'b boltDB \<Rightarrow> BoltFault option \<times> 'b boltDB" where
  "OpenAndInit B opens buckets db =
     (if \<not> opens then (Some FaultOpen, db)
      else db_Update B id (\<lambda>db. (None, createBuckets B buckets db)) db)"

definition GetByKey :: "'b boltOps \<Rightarrow> 'a jsonCodec \<Rightarrow> string \<Rightarrow> string \<Rightarrow> 'b boltDB \<Rightarrow> BoltFault + 'a option" where
  "GetByKey B J bucket key db =
     db_View B id (\<lambda>db. case db bucket of
         None \<Rightarrow> Inl FaultNilBucket
       | Some b \<Rightarrow>
          (case bo_get B (bytes_of_string key) b of
             None \<Rightarrow> Inr None
           | Some data \<Rightarrow> (case js_Unmarshal J data of None \<Rightarrow> Inl FaultUnmarshal | Some x \<Rightarrow> Inr (Some x)))) db"

definition GetViaIndex :: "'b boltOps \<Rightarrow> 'a jsonCodec \<Rightarrow> string \<Rightarrow> string \<Rightarrow> string \<Rightarrow> 'b boltDB \<Rightarrow> BoltFault + 'a option" where
  "GetViaIndex B J indexBucket dataBucket key db =
     db_View B id (\<lambda>db. case db indexBucket of
         None \<Rightarrow> Inl FaultNilBucket
       | Some ib \<Rightarrow>
          (case bo_get B (bytes_of_string key) ib of
             None \<Rightarrow> Inr None
           | Some pk \<Rightarrow>
              (case db dataBucket of
                 None \<Rightarrow> Inl FaultNilBucket
               | Some b \<Rightarrow>
                  (case bo_get B pk b of
                     None \<Rightarrow> Inr None
                   | Some data \<Rightarrow> (case js_Unmarshal J data of None \<Rightarrow> Inl FaultUnmarshal | Some x \<Rightarrow> Inr (Some x)))))) db"

definition ListAll :: "'b boltOps \<Rightarrow> 'a jsonCodec \<Rightarrow> string \<Rightarrow> 'b boltDB \<Rightarrow> BoltFault + 'a list" where
  "ListAll B J bucket db =
     db_View B id (\<lambda>db. case db bucket of
         None \<Rightarrow> Inl FaultNilBucket
       | Some b \<Rightarrow> mapErr (\<lambda>(_, v). case js_Unmarshal J v of None \<Rightarrow> Inl FaultUnmarshal | Some x \<Rightarrow> Inr x) (bo_walk B b)) db"

definition CountKeys :: "'b boltOps \<Rightarrow> string \<Rightarrow> 'b boltDB \<Rightarrow> BoltFault + nat" where
  "CountKeys B bucket db =
     db_View B id (\<lambda>db. case db bucket of None \<Rightarrow> Inl FaultNilBucket | Some b \<Rightarrow> Inr (bo_keyN B b)) db"

section \<open>Sequence keys\<close>

text \<open>\<open>binary.BigEndian\<close> on 64-bit numbers.\<close>

fun be_bytes :: "nat \<Rightarrow> nat \<Rightarrow> bytes" where
  "be_bytes 0 n = []"
| "be_bytes (Suc k) n = be_bytes k (n div 256) @ [word_of_nat n]"

definition PutUint64 :: "uint64 \<Rightarrow> bytes" where
  "PutUint64 q = be_bytes 8 (unat q)"

definition be_val :: "bytes \<Rightarrow> nat" where
  "be_val bs = foldl (\<lambda>n b. 256 * n + unat b) 0 bs"

definition Uint64 :: "bytes \<Rightarrow> uint64" where
  "Uint64 bs = word_of_nat (be_val (take 8 bs))"

section \<open>BoltStore\<close>

definition receiptsBucket :: string where "receiptsBucket = ''receipts''"
definition receiptsByTxBucket :: string where "receiptsByTxBucket = ''receipts_by_tx''"
definition seqBucket :: string where "seqBucket = ''seq''"

definition faultName :: "BoltFault \<Rightarrow> string" where
  "faultName f = (case f of FaultOpen \<Rightarrow> ''open'' | FaultBegin \<Rightarrow> ''begin'' | FaultCommit \<Rightarrow> ''commit'' | FaultPut \<Rightarrow> ''put''
     | FaultNilBucket \<Rightarrow> ''bucket'' | FaultUnmarshal \<Rightarrow> ''unmarshal'' | FaultMarshal \<Rightarrow> ''marshal'' | FaultSequence \<Rightarrow> ''sequence'')"

abbreviation storeFault :: "BoltFault \<Rightarrow> StoreError" where
  "storeFault f \<equiv> StoreFailure (faultName f)"

abbreviation liftFault :: "BoltFault + 'a \<Rightarrow> StoreError + 'a" where
  "liftFault \<equiv> map_sum storeFault id"

text \<open>The loop of \<open>backfillSeqBucket\<close>: undecodable receipts are skipped.\<close>

fun backfillLoop :: "'b boltOps \<Rightarrow> ComplianceReceipt jsonCodec \<Rightarrow> (bytes \<times> bytes) list \<Rightarrow> 'b \<Rightarrow> StoreError + 'b" where
  "backfillLoop B J [] q = Inr q"
| "backfillLoop B J ((k, v) # kvs) q =
     (case js_Unmarshal J v of
        None \<Rightarrow> backfillLoop B J kvs q
      | Some r \<Rightarrow>
         (case bo_get B (PutUint64 (rcpt_SeqNo r)) q of
            Some _ \<Rightarrow> Inl (DuplicateSequence (rcpt_SeqNo r))
          | None \<Rightarrow>
             (case bo_put B (PutUint64 (rcpt_SeqNo r)) k q of
                None \<Rightarrow> Inl (storeFault FaultPut)
              | Some q' \<Rightarrow> backfillLoop B J kvs q')))"

definition backfillSeqBucket :: "'b boltOps \<Rightarrow> ComplianceReceipt jsonCodec \<Rightarrow> 'b boltDB \<Rightarrow> StoreError option \<times> 'b boltDB" where
  "backfillSeqBucket B J db =
     db_Update B storeFault (\<lambda>db. case db seqBucket of
         None \<Rightarrow> (Some (storeFault FaultNilBucket), db)
       | Some q \<Rightarrow>
          if bo_keyN B q > 0 then (None, db)
          else
           (case db receiptsBucket of
              None \<Rightarrow> (None, db)
            | Some b \<Rightarrow>
               (case backfillLoop B J (bo_walk B b) q of
                  Inl e \<Rightarrow> (Some e, db)
                | Inr q' \<Rightarrow> (None, db(seqBucket \<mapsto> q'))))) db"

definition NewBoltStore :: "'b boltOps \<Rightarrow> ComplianceReceipt jsonCodec \<Rightarrow> bool \<Rightarrow> 'b boltDB \<Rightarrow> StoreError option \<times> 'b boltDB" where
  "NewBoltStore B J opens db =
     (case OpenAndInit B opens [receiptsBucket, receiptsByTxBucket, seqBucket] db of
        (Some f, db1) \<Rightarrow> (Some (storeFault f), db1)
      | (None, db1) \<Rightarrow> backfillSeqBucket B J db1)"

definition Bolt_Append :: "'b boltOps \<Rightarrow> ComplianceReceipt jsonCodec \<Rightarrow> ComplianceReceipt \<Rightarrow> 'b boltDB \<Rightarrow> StoreError option \<times> 'b boltDB" where
  "Bolt_Append B J r db =
     (case js_Marshal J r of
        None \<Rightarrow> (Some (storeFault FaultMarshal), db)
      | Some data \<Rightarrow>
          db_Update B storeFault (\<lambda>db. case (db receiptsBucket, db receiptsByTxBucket, db seqBucket) of
              (Some receipts, Some byTx, Some seq) \<Rightarrow>
                if bo_get B (bytes_of_string (rcpt_ID r)) receipts \<noteq> None then (Some (DuplicateReceiptID (rcpt_ID r)), db)
                else if bo_get B (PutUint64 (rcpt_SeqNo r)) seq \<noteq> None then (Some (DuplicateSequence (rcpt_SeqNo r)), db)
                else
                 (case bo_put B (bytes_of_string (rcpt_ID r)) data receipts of
                    None \<Rightarrow> (Some (storeFault FaultPut), db)
                  | Some receipts' \<Rightarrow>
                     (case bo_put B (bytes_of_string (rcpt_TransactionID r)) (bytes_of_string (rcpt_ID r)) byTx of
                        None \<Rightarrow> (Some (storeFault FaultPut), db)
                      | Some byTx' \<Rightarrow>
                         (case bo_put B (PutUint64 (rcpt_SeqNo r)) (bytes_of_string (rcpt_ID r)) seq of
                            None \<Rightarrow> (Some (storeFault FaultPut), db)
                          | Some seq' \<Rightarrow>
                              (None, db(receiptsBucket \<mapsto> receipts', receiptsByTxBucket \<mapsto> byTx', seqBucket \<mapsto> seq')))))
            | _ \<Rightarrow> (Some (storeFault FaultNilBucket), db)) db)"

definition Bolt_GetByID :: "'b boltOps \<Rightarrow> ComplianceReceipt jsonCodec \<Rightarrow> string \<Rightarrow> 'b boltDB \<Rightarrow> StoreError + ComplianceReceipt option" where
  "Bolt_GetByID B J rid db = liftFault (GetByKey B J receiptsBucket rid db)"

definition Bolt_GetByTxID :: "'b boltOps \<Rightarrow> ComplianceReceipt jsonCodec \<Rightarrow> string \<Rightarrow> 'b boltDB \<Rightarrow> StoreError + ComplianceReceipt option" where
  "Bolt_GetByTxID B J txID db = liftFault (GetViaIndex B J receiptsByTxBucket receiptsBucket txID db)"

definition Bolt_List :: "'b boltOps \<Rightarrow> ComplianceReceipt jsonCodec \<Rightarrow> 'b boltDB \<Rightarrow> StoreError + ComplianceReceipt list" where
  "Bolt_List B J db = liftFault (ListAll B J receiptsBucket db)"

definition Bolt_Count :: "'b boltOps \<Rightarrow> 'b boltDB \<Rightarrow> StoreError + nat" where
  "Bolt_Count B db = liftFault (CountKeys B receiptsBucket db)"

definition Bolt_Last :: "'b boltOps \<Rightarrow> ComplianceReceipt jsonCodec \<Rightarrow> 'b boltDB \<Rightarrow> StoreError + ComplianceReceipt option" where
  "Bolt_Last B J db =
     db_View B storeFault (\<lambda>db. case db seqBucket of
         None \<Rightarrow> Inl (storeFault FaultNilBucket)
       | Some seq \<Rightarrow>
          if bo_walk B seq = [] then Inr None
          else
           (case db receiptsBucket of
              None \<Rightarrow> Inl (storeFault FaultNilBucket)
            | Some receipts \<Rightarrow>
               (case bo_get B (snd (last (bo_walk B seq))) receipts of
                  None \<Rightarrow> Inr None
                | Some data \<Rightarrow>
                   (case js_Unmarshal J data of None \<Rightarrow> Inl (storeFault FaultUnmarshal) | Some r \<Rightarrow> Inr (Some r))))) db"

text \<open>The cursor loop of \<open>ListRange\<close> from the first key that is not below the start key.\<close>

fun rangeLoop ::
  "'b boltOps \<Rightarrow> ComplianceReceipt jsonCodec \<Rightarrow> uint64 \<Rightarrow> 'b \<Rightarrow> (bytes \<times> bytes) list \<Rightarrow> StoreError + ComplianceReceipt list" where
  "rangeLoop B J toSeq receipts [] = Inr []"
| "rangeLoop B J toSeq receipts ((k, i) # kvs) =
     (if Uint64 k > toSeq then Inr []
      else case bo_get B i receipts of
        None \<Rightarrow> rangeLoop B J toSeq receipts kvs
      | Some data \<Rightarrow>
         (case js_Unmarshal J data of
            None \<Rightarrow> Inl (storeFault FaultUnmarshal)
          | Some r \<Rightarrow> map_sum id ((#) r) (rangeLoop B J toSeq receipts kvs)))"

definition Bolt_ListRange ::
  "'b boltOps \<Rightarrow> ComplianceReceipt jsonCodec \<Rightarrow> uint64 \<Rightarrow> uint64 \<Rightarrow> 'b boltDB \<Rightarrow> StoreError + ComplianceReceipt list" where
  "Bolt_ListRange B J fromSeq toSeq db =
     db_View B storeFault (\<lambda>db. case (db seqBucket, db receiptsBucket) of
         (Some seq, Some receipts) \<Rightarrow>
           rangeLoop B J toSeq receipts (dropWhile (\<lambda>(k, _). k < PutUint64 fromSeq) (bo_walk B seq))
       | _ \<Rightarrow> Inl (storeFault FaultNilBucket)) db"

text \<open>
  The interface value of a bolt store.  Its state carries the history of successful appends beside
  the database as an auxiliary variable: no operation's result or effect on the database depends
  on it.
\<close>

definition BoltStoreOps :: "'b boltOps \<Rightarrow> ComplianceReceipt jsonCodec \<Rightarrow> ('b boltDB \<times> ComplianceReceipt list) Store" where
  "BoltStoreOps B J =
     \<lparr>st_Append = (\<lambda>r (db, h). case Bolt_Append B J r db of (None, db') \<Rightarrow> (None, (db', h @ [r])) | (Some e, db') \<Rightarrow> (Some e, (db', h))),
      st_GetByTxID = (\<lambda>i (db, _). Bolt_GetByTxID B J i db), st_GetByID = (\<lambda>i (db, _). Bolt_GetByID B J i db),
      st_List = (\<lambda>(db, _). Bolt_List B J db), st_Count = (\<lambda>(db, _). Bolt_Count B db), st_Last = (\<lambda>(db, _). Bolt_Last B J db),
      st_ListRange = (\<lambda>a b (db, _). Bolt_ListRange B J a b db)\<rparr>"

section \<open>Sequence keys sort like the numbers\<close>

lemma be_val_Nil [simp]: "be_val [] = 0"
  by (simp add: be_val_def)

lemma be_val_snoc [simp]: "be_val (bs @ [b]) = 256 * be_val bs + unat b"
  by (simp add: be_val_def)

lemma be_val_Cons: "be_val (b # bs) = unat b * 256 ^ length bs + be_val bs"
proof (induction bs rule: rev_induct)
  case Nil
  show ?case by (simp add: be_val_def)
next
  case (snoc c bs)
  have "be_val ((b # bs) @ [c]) = 256 * be_val (b # bs) + unat c" by (rule be_val_snoc)
  with snoc show ?case by (simp add: algebra_simps)
qed

lemma be_val_bound: "be_val bs < 256 ^ length bs"
proof (induction bs rule: rev_induct)
  case (snoc b bs)
  then show ?case using unat_byte_lt [of b] by simp
qed simp

lemma be_val_less: "length xs = length ys \<Longrightarrow> xs < ys \<longleftrightarrow> be_val xs < be_val ys"
proof (induction xs ys rule: list_induct2)
  case Nil
  then show ?case by simp
next
  case (Cons x xs y ys)
  let ?n = "256 ^ length ys :: nat"
  have b: "be_val xs < ?n" "be_val ys < ?n" using be_val_bound [of xs] be_val_bound [of ys] Cons.hyps by simp_all
  consider "unat x < unat y" | "x = y" | "unat y < unat x" by (metis linorder_less_linear word_unat_eq_iff)
  then show ?case
  proof cases
    case 1
    then have "unat x * ?n + ?n \<le> unat y * ?n" by (metis Suc_leI add.commute mult_Suc mult_le_mono1)
    with 1 b Cons.hyps show ?thesis by (simp add: be_val_Cons word_less_nat_alt)
  next
    case 2
    with Cons show ?thesis by (simp add: be_val_Cons)
  next
    case 3
    then have "unat y * ?n + ?n \<le> unat x * ?n" by (metis Suc_leI add.commute mult_Suc mult_le_mono1)
    with 3 b Cons.hyps show ?thesis by (auto simp: be_val_Cons word_less_nat_alt)
  qed
qed

lemma be_bytes_val: "be_val (be_bytes k n) = n mod 256 ^ k"
proof (induction k arbitrary: n)
  case (Suc k)
  have "unat (word_of_nat n :: 8 word) = n mod 256" by (simp add: unat_of_nat)
  then show ?case using Suc [of "n div 256"] by (simp add: mod_mult2_eq)
qed simp

lemma length_be_bytes [simp]: "length (be_bytes k n) = k"
  by (induction k arbitrary: n) simp_all

lemma be_val_PutUint64 [simp]: "be_val (PutUint64 q) = unat q"
proof -
  have "unat q < 2 ^ 64" using unsigned_less [of q, where 'a = nat] by simp
  then show ?thesis by (simp add: PutUint64_def be_bytes_val)
qed

lemma PutUint64_less [simp]: "PutUint64 a < PutUint64 b \<longleftrightarrow> a < b"
proof -
  have "length (PutUint64 a) = length (PutUint64 b)" by (simp add: PutUint64_def)
  from be_val_less [OF this] show ?thesis by (simp add: word_less_nat_alt)
qed

lemma PutUint64_inj [simp]: "PutUint64 a = PutUint64 b \<longleftrightarrow> a = b"
  by (metis be_val_PutUint64 word_unat_eq_iff)

lemma PutUint64_nonempty [simp]: "PutUint64 a \<noteq> []"
  by (metis PutUint64_def length_be_bytes list.size(3) zero_neq_numeral)

lemma length_PutUint64 [simp]: "length (PutUint64 q) = 8"
  by (simp add: PutUint64_def)

lemma Uint64_Put [simp]: "Uint64 (PutUint64 q) = q"
proof -
  have "take 8 (PutUint64 q) = PutUint64 q" by (simp add: PutUint64_def)
  then show ?thesis by (simp add: Uint64_def)
qed

section \<open>What bbolt promises\<close>

lemma find_member: "find P h = Some q \<Longrightarrow> q \<in> set h \<and> P q"
  by (auto simp: find_Some_iff)

lemma map_of_find: "map_of (map (\<lambda>r. (f r, g r)) h) k = map_option g (find (\<lambda>r. f r = k) h)"
  by (induction h) auto

lemma find_unique:
  "distinct (map f h) \<Longrightarrow> r \<in> set h \<Longrightarrow> find (\<lambda>q. f q = f r) h = Some r"
  by (induction h) (auto simp: image_iff)

lemma createBuckets_id: "\<forall>n\<in>set ns. db n \<noteq> None \<Longrightarrow> createBuckets B ns db = db"
  by (induction ns) auto

lemma createBuckets_keep: "db n \<noteq> None \<or> n \<notin> set ns \<Longrightarrow> createBuckets B ns db n = db n"
  by (induction ns arbitrary: db) auto

lemma createBuckets_new: "db n = None \<Longrightarrow> n \<in> set ns \<Longrightarrow> createBuckets B ns db n = Some (bo_newBucket B)"
proof (induction ns arbitrary: db)
  case (Cons m ns)
  show ?case
  proof (cases "n = m")
    case True
    with Cons.prems show ?thesis by (simp add: createBuckets_keep)
  next
    case False
    with Cons show ?thesis by simp
  qed
qed simp

text \<open>
  A bucket is a finite map \<open>bmap\<close> with a sequence counter \<open>bseq\<close>.  A put may fail (an empty or
  oversized key, a full disk) but never takes an empty key; the cursor walks the keys in ascending
  byte order.
\<close>

locale bolt_db =
  fixes B :: "'b boltOps" and bmap :: "'b \<Rightarrow> (bytes \<rightharpoonup> bytes)" and bseq :: "'b \<Rightarrow> uint64"
  assumes get: "bo_get B k b = bmap b k"
    and put: "bo_put B k v b = Some b' \<Longrightarrow> bmap b' = (bmap b)(k \<mapsto> v) \<and> bseq b' = bseq b \<and> k \<noteq> []"
    and walk_sorted: "sorted_wrt (<) (map fst (bo_walk B b))"
    and walk_map: "map_of (bo_walk B b) = bmap b"
    and keyN: "bo_keyN B b = length (bo_walk B b)"
    and newBucket: "bmap (bo_newBucket B) = Map.empty \<and> bseq (bo_newBucket B) = 0"
    and sequence: "bo_nextSequence B b = Some (q, b') \<Longrightarrow> q = bseq b + 1 \<and> bseq b' = q \<and> bmap b' = bmap b"
begin

lemma walk_distinct: "distinct (map fst (bo_walk B b))"
  using walk_sorted strict_sorted_iff by blast

lemma walk_mem: "(k, v) \<in> set (bo_walk B b) \<longleftrightarrow> bmap b k = Some v"
  using walk_map [of b] walk_distinct [of b] by (metis map_of_eq_Some_iff)

lemma walk_keys: "fst ` set (bo_walk B b) = dom (bmap b)"
  by (metis dom_map_of_conv_image_fst walk_map)

text \<open>A sorted list with the same associations is the walk.\<close>

lemma walk_unique:
  assumes "sorted_wrt (<) (map fst kvs)" "map_of kvs = bmap b"
  shows "bo_walk B b = kvs"
proof -
  have d: "distinct (map fst kvs)" using assms(1) strict_sorted_iff by blast
  have "set (map fst (bo_walk B b)) = set (map fst kvs)"
    using assms(2) walk_map [of b] by (metis dom_map_of_conv_image_fst list.set_map)
  with walk_sorted [of b] assms(1) have k: "map fst (bo_walk B b) = map fst kvs" by (metis strict_sorted_equal)
  have l: "length (bo_walk B b) = length kvs" using k by (metis length_map)
  have "bo_walk B b ! i = kvs ! i" if i: "i < length kvs" for i
  proof -
    have f: "fst (bo_walk B b ! i) = fst (kvs ! i)" using k i l by (metis nth_map)
    have "(fst (kvs ! i), snd (bo_walk B b ! i)) \<in> set (bo_walk B b)" using i l f by (metis nth_mem prod.collapse)
    then have "bmap b (fst (kvs ! i)) = Some (snd (bo_walk B b ! i))" by (simp add: walk_mem)
    moreover have "bmap b (fst (kvs ! i)) = Some (snd (kvs ! i))" using assms(2) d i by (metis map_of_eq_Some_iff nth_mem prod.collapse)
    ultimately show ?thesis using f by (simp add: prod_eq_iff)
  qed
  with l show ?thesis by (intro nth_equalityI) auto
qed

lemma walk_empty: "bo_walk B b = [] \<longleftrightarrow> bmap b = Map.empty"
proof
  assume "bo_walk B b = []"
  then show "bmap b = Map.empty" using walk_map [of b] by simp
next
  assume "bmap b = Map.empty"
  then show "bo_walk B b = []" by (intro walk_unique) simp_all
qed

lemma keyN_card: "bo_keyN B b = card (dom (bmap b))"
  using keyN [of b] walk_keys [of b] walk_distinct [of b] by (metis distinct_card length_map list.set_map)

text \<open>A bucket that holds the encodings of a list of values under distinct keys: its walk decodes to them.\<close>

lemma decoded_walk:
  assumes R: "bmap R = (\<lambda>k. Option.bind (find (\<lambda>r. key r = k) h) (js_Marshal J))"
    and m: "\<forall>r\<in>set h. js_Marshal J r \<noteq> None" and dk: "distinct (map key h)"
    and rt: "\<And>r d. js_Marshal J r = Some d \<Longrightarrow> js_Unmarshal J d = Some r"
  obtains rs where "list_all2 (\<lambda>kv r. js_Unmarshal J (snd kv) = Some r \<and> fst kv = key r) (bo_walk B R) rs"
    "set rs = set h" "distinct rs" "distinct h"
proof -
  define dec where "dec kv = the (js_Unmarshal J (snd kv))" for kv :: "bytes \<times> bytes"
  let ?rs = "map dec (bo_walk B R)"
  have w: "js_Unmarshal J (snd kv) = Some (dec kv) \<and> fst kv = key (dec kv) \<and> dec kv \<in> set h"
    if kv: "kv \<in> set (bo_walk B R)" for kv
  proof -
    from kv have "bmap R (fst kv) = Some (snd kv)" by (simp add: walk_mem [symmetric])
    then obtain q where q: "find (\<lambda>r. key r = fst kv) h = Some q" "js_Marshal J q = Some (snd kv)"
      unfolding R by (auto simp: Option.bind_eq_Some_conv)
    from rt [OF q(2)] find_member [OF q(1)] show ?thesis by (simp add: dec_def)
  qed
  have keys: "map key ?rs = map fst (bo_walk B R)" using w by simp
  have "r \<in> set ?rs" if r: "r \<in> set h" for r
  proof -
    from find_unique [OF dk r] m r have "bmap R (key r) \<noteq> None" unfolding R by simp
    then have "key r \<in> set (map key ?rs)" unfolding keys by (auto simp: walk_keys)
    then obtain q where q: "q \<in> set ?rs" "key r = key q" unfolding list.set_map [of key] by (rule imageE)
    with w have "q \<in> set h" by auto
    with q r dk have "q = r" by (auto simp: distinct_map inj_on_def)
    with q show ?thesis by simp
  qed
  with w have "set ?rs = set h" by auto
  moreover have "distinct ?rs" using keys walk_distinct [of R] by (metis distinct_map)
  moreover have "list_all2 (\<lambda>kv r. js_Unmarshal J (snd kv) = Some r \<and> fst kv = key r) (bo_walk B R) ?rs"
    using w by (auto simp: list_all2_map2 list_all2_same)
  moreover have "distinct h" using dk by (simp add: distinct_map)
  ultimately show thesis using that by blast
qed

lemma ListAll_decodes:
  assumes "db n = Some R" "bo_begin B db" and R: "bmap R = (\<lambda>k. Option.bind (find (\<lambda>r. key r = k) h) (js_Marshal J))"
    and m: "\<forall>r\<in>set h. js_Marshal J r \<noteq> None" and dk: "distinct (map key h)"
    and rt: "\<And>r d. js_Marshal J r = Some d \<Longrightarrow> js_Unmarshal J d = Some r"
  shows "\<exists>rs. ListAll B J n db = Inr rs \<and> mset rs = mset h"
proof -
  obtain qs where q: "list_all2 (\<lambda>kv r. js_Unmarshal J (snd kv) = Some r \<and> fst kv = key r) (bo_walk B R) qs"
    "set qs = set h" "distinct qs" "distinct h" by (rule decoded_walk [OF R m dk rt])
  have "mapErr (\<lambda>(_, v). case js_Unmarshal J v of None \<Rightarrow> Inl FaultUnmarshal | Some x \<Rightarrow> Inr x) (bo_walk B R) = Inr qs"
    using q(1) by (auto simp: result_simps elim!: list_all2_mono)
  then have "ListAll B J n db = Inr qs" using assms(1,2) by (simp add: ListAll_def db_View_def)
  with q set_eq_iff_mset_eq_distinct show ?thesis by blast
qed

lemma CountKeys_length:
  assumes "db n = Some R" "bo_begin B db" "distinct (map key h)" "\<And>k. bmap R k = None \<longleftrightarrow> find (\<lambda>r. key r = k) h = None"
  shows "CountKeys B n db = Inr (length h)"
proof -
  have "dom (bmap R) = key ` set h" using assms(4) by (auto simp: dom_def find_None_iff image_iff)
  with assms(3) have "bo_keyN B R = length h" by (metis distinct_card keyN_card length_map list.set_map)
  with assms(1,2) show ?thesis by (simp add: CountKeys_def db_View_def)
qed

end

text \<open>How the database represents the append history of receipts.\<close>

definition receipt_key :: "ComplianceReceipt \<Rightarrow> bytes" where
  "receipt_key r = bytes_of_string (rcpt_ID r)"

lemma receipt_key_inj: "receipt_key r = receipt_key q \<longleftrightarrow> rcpt_ID r = rcpt_ID q"
  by (simp add: receipt_key_def bytes_of_string_inj)

definition bolt_rep :: "('b \<Rightarrow> (bytes \<rightharpoonup> bytes)) \<Rightarrow> ComplianceReceipt jsonCodec \<Rightarrow> 'b boltDB \<Rightarrow> ComplianceReceipt list \<Rightarrow> bool" where
  "bolt_rep bmap J db h \<longleftrightarrow>
     (\<exists>R T Q. db receiptsBucket = Some R \<and> db receiptsByTxBucket = Some T \<and> db seqBucket = Some Q \<and>
        bmap R = (\<lambda>k. Option.bind (find (\<lambda>r. receipt_key r = k) h) (js_Marshal J)) \<and>
        bmap T = (\<lambda>k. map_option receipt_key (find (\<lambda>r. bytes_of_string (rcpt_TransactionID r) = k) (rev h))) \<and>
        bmap Q = (\<lambda>k. map_option receipt_key (find (\<lambda>r. PutUint64 (rcpt_SeqNo r) = k) h))) \<and>
     (\<forall>r\<in>set h. js_Marshal J r \<noteq> None) \<and> distinct (map rcpt_ID h) \<and> distinct (map rcpt_SeqNo h)"

text \<open>The part of it that the receipts bucket carries, and a database whose sequence index is missing or empty.\<close>

definition data_rep :: "('b \<Rightarrow> (bytes \<rightharpoonup> bytes)) \<Rightarrow> ComplianceReceipt jsonCodec \<Rightarrow> 'b \<Rightarrow> ComplianceReceipt list \<Rightarrow> bool" where
  "data_rep bmap J R h \<longleftrightarrow> bmap R = (\<lambda>k. Option.bind (find (\<lambda>r. receipt_key r = k) h) (js_Marshal J)) \<and>
     (\<forall>r\<in>set h. js_Marshal J r \<noteq> None) \<and> distinct (map rcpt_ID h)"

definition unindexed_rep :: "('b \<Rightarrow> (bytes \<rightharpoonup> bytes)) \<Rightarrow> ComplianceReceipt jsonCodec \<Rightarrow> 'b boltDB \<Rightarrow> ComplianceReceipt list \<Rightarrow> bool" where
  "unindexed_rep bmap J db h \<longleftrightarrow>
     (\<exists>R T. db receiptsBucket = Some R \<and> db receiptsByTxBucket = Some T \<and> data_rep bmap J R h \<and>
        bmap T = (\<lambda>k. map_option receipt_key (find (\<lambda>r. bytes_of_string (rcpt_TransactionID r) = k) (rev h)))) \<and>
     (case db seqBucket of None \<Rightarrow> True | Some Q \<Rightarrow> bmap Q = Map.empty)"

lemma rep_distinct: "bolt_rep bmap J db h \<Longrightarrow> distinct (map rcpt_ID h) \<and> distinct (map rcpt_SeqNo h)"
  by (simp add: bolt_rep_def)

lemma bucket_names [simp]:
  "receiptsBucket \<noteq> receiptsByTxBucket" "receiptsBucket \<noteq> seqBucket" "receiptsByTxBucket \<noteq> seqBucket"
  "receiptsByTxBucket \<noteq> receiptsBucket" "seqBucket \<noteq> receiptsBucket" "seqBucket \<noteq> receiptsByTxBucket"
  by (simp_all add: receiptsBucket_def receiptsByTxBucket_def seqBucket_def)

lemma range_prefix:
  "sorted_wrt (<) (map f h) \<Longrightarrow>
     takeWhile (\<lambda>r. f r \<le> b) (dropWhile (\<lambda>r. f r < a) h) = filter (\<lambda>r. a \<le> f r \<and> f r \<le> (b :: 'a :: linorder)) h"
proof (induction h)
  case (Cons r h)
  have up: "takeWhile (\<lambda>r. f r \<le> b) h = filter (\<lambda>r. a \<le> f r \<and> f r \<le> b) h" if "a \<le> f r"
  proof -
    have "dropWhile (\<lambda>r. f r < a) h = h" using Cons.prems that by (cases h) auto
    with Cons show ?thesis by simp
  qed
  have "filter (\<lambda>r. a \<le> f r \<and> f r \<le> b) h = []" if "\<not> f r \<le> b"
    using Cons.prems that by (auto simp: filter_empty_conv)
  with Cons up show ?case by (cases "f r < a") auto
qed simp

locale bolt_receipts = bolt_db B bmap bseq
  for B :: "'b boltOps" and bmap and bseq +
  fixes J :: "ComplianceReceipt jsonCodec"
  assumes roundtrip: "js_Marshal J r = Some d \<Longrightarrow> js_Unmarshal J d = Some r"
begin

lemma rep_append:
  assumes rep: "bolt_rep bmap J db h" and a: "Bolt_Append B J r db = (e, db')"
  shows "case e of
      None \<Rightarrow> bolt_rep bmap J db' (h @ [r]) \<and> rcpt_ID r \<notin> rcpt_ID ` set h \<and> rcpt_SeqNo r \<notin> rcpt_SeqNo ` set h
    | Some x \<Rightarrow> db' = db"
proof (cases e)
  case (Some x)
  with a show ?thesis
    by (auto simp: Bolt_Append_def db_Update_def split: option.splits if_splits prod.splits)
next
  case None
  from rep obtain R T Q where b: "db receiptsBucket = Some R" "db receiptsByTxBucket = Some T" "db seqBucket = Some Q"
    and R: "bmap R = (\<lambda>k. Option.bind (find (\<lambda>r. receipt_key r = k) h) (js_Marshal J))"
    and T: "bmap T = (\<lambda>k. map_option receipt_key (find (\<lambda>r. bytes_of_string (rcpt_TransactionID r) = k) (rev h)))"
    and Q: "bmap Q = (\<lambda>k. map_option receipt_key (find (\<lambda>r. PutUint64 (rcpt_SeqNo r) = k) h))"
    and m: "\<forall>r\<in>set h. js_Marshal J r \<noteq> None" and d: "distinct (map rcpt_ID h)" "distinct (map rcpt_SeqNo h)"
    unfolding bolt_rep_def by blast
  from None a b obtain data R' T' Q' where dt: "js_Marshal J r = Some data"
    and g: "bo_get B (receipt_key r) R = None" "bo_get B (PutUint64 (rcpt_SeqNo r)) Q = None"
    and p: "bo_put B (receipt_key r) data R = Some R'" "bo_put B (bytes_of_string (rcpt_TransactionID r)) (receipt_key r) T = Some T'"
      "bo_put B (PutUint64 (rcpt_SeqNo r)) (receipt_key r) Q = Some Q'"
    and db': "db' = db(receiptsBucket \<mapsto> R', receiptsByTxBucket \<mapsto> T', seqBucket \<mapsto> Q')"
    unfolding receipt_key_def
    by (auto simp: Bolt_Append_def db_Update_def split: option.splits if_splits prod.splits)
  have fi: "find (\<lambda>q. receipt_key q = receipt_key r) h = None"
  proof (cases "find (\<lambda>q. receipt_key q = receipt_key r) h")
    case (Some q)
    then have "js_Marshal J q = None" using g(1) get R by simp
    with m find_member [OF Some] show ?thesis by blast
  qed simp
  have fs: "find (\<lambda>q. PutUint64 (rcpt_SeqNo q) = PutUint64 (rcpt_SeqNo r)) h = None"
    using g(2) get Q by simp
  have fresh: "rcpt_ID r \<notin> rcpt_ID ` set h" "rcpt_SeqNo r \<notin> rcpt_SeqNo ` set h"
    using fi fs by (auto simp: find_None_iff receipt_key_inj)
  have "bmap R' = (\<lambda>k. Option.bind (find (\<lambda>r. receipt_key r = k) (h @ [r])) (js_Marshal J))"
    using put [OF p(1)] R fi dt by (auto simp: find_snoc fun_eq_iff split: option.split)
  moreover have "bmap T' = (\<lambda>k. map_option receipt_key (find (\<lambda>r. bytes_of_string (rcpt_TransactionID r) = k) (rev (h @ [r]))))"
    using put [OF p(2)] T by (auto simp: fun_eq_iff)
  moreover have "bmap Q' = (\<lambda>k. map_option receipt_key (find (\<lambda>r. PutUint64 (rcpt_SeqNo r) = k) (h @ [r])))"
    using put [OF p(3)] Q fs by (auto simp: find_snoc fun_eq_iff split: option.split)
  ultimately have "bolt_rep bmap J db' (h @ [r])"
    unfolding bolt_rep_def db' using m d dt fresh by (auto simp: image_iff)
  with None fresh show ?thesis by simp
qed

lemma rep_lookup:
  assumes "bolt_rep bmap J db h"
  obtains R T Q where "db receiptsBucket = Some R" "db receiptsByTxBucket = Some T" "db seqBucket = Some Q"
    "\<And>k. bmap R k = None \<longleftrightarrow> find (\<lambda>r. receipt_key r = k) h = None"
    "\<And>k r. find (\<lambda>r. receipt_key r = k) h = Some r \<Longrightarrow> \<exists>d. bmap R k = Some d \<and> js_Unmarshal J d = Some r"
    "\<And>r. r \<in> set h \<Longrightarrow> find (\<lambda>q. receipt_key q = receipt_key r) h = Some r"
    "\<And>k. bmap T k = map_option receipt_key (find (\<lambda>r. bytes_of_string (rcpt_TransactionID r) = k) (rev h))"
    "bmap Q = (\<lambda>k. map_option receipt_key (find (\<lambda>r. PutUint64 (rcpt_SeqNo r) = k) h))"
proof -
  from assms obtain R T Q where b: "db receiptsBucket = Some R" "db receiptsByTxBucket = Some T" "db seqBucket = Some Q"
    and R: "bmap R = (\<lambda>k. Option.bind (find (\<lambda>r. receipt_key r = k) h) (js_Marshal J))"
    and T: "bmap T = (\<lambda>k. map_option receipt_key (find (\<lambda>r. bytes_of_string (rcpt_TransactionID r) = k) (rev h)))"
    and Q: "bmap Q = (\<lambda>k. map_option receipt_key (find (\<lambda>r. PutUint64 (rcpt_SeqNo r) = k) h))"
    and m: "\<forall>r\<in>set h. js_Marshal J r \<noteq> None" and d: "distinct (map rcpt_ID h)"
    unfolding bolt_rep_def by blast
  have some: "\<exists>d. bmap R k = Some d \<and> js_Unmarshal J d = Some r" if "find (\<lambda>r. receipt_key r = k) h = Some r" for k r
    using that find_member [OF that] m R roundtrip by auto
  moreover have "bmap R k = None \<longleftrightarrow> find (\<lambda>r. receipt_key r = k) h = None" for k
    using some [of k] by (cases "find (\<lambda>r. receipt_key r = k) h") (auto simp: R)
  moreover have "find (\<lambda>q. receipt_key q = receipt_key r) h = Some r" if "r \<in> set h" for r
  proof -
    from d have "distinct (map receipt_key h)" by (auto simp: distinct_map inj_on_def receipt_key_inj)
    from find_unique [OF this that] show ?thesis .
  qed
  ultimately show thesis using that [OF b] T Q by simp
qed

lemma rep_getByID:
  assumes "bolt_rep bmap J db h"
  shows "Bolt_GetByID B J i db = (if bo_begin B db then Inr (find (\<lambda>r. rcpt_ID r = i) h) else Inl (storeFault FaultBegin))"
proof (rule rep_lookup [OF assms])
  fix R T Q
  assume *: "db receiptsBucket = Some R" "\<And>k. bmap R k = None \<longleftrightarrow> find (\<lambda>r. receipt_key r = k) h = None"
    "\<And>k r. find (\<lambda>r. receipt_key r = k) h = Some r \<Longrightarrow> \<exists>d. bmap R k = Some d \<and> js_Unmarshal J d = Some r"
  have "find (\<lambda>r. receipt_key r = bytes_of_string i) h = find (\<lambda>r. rcpt_ID r = i) h"
    by (simp add: receipt_key_def bytes_of_string_inj)
  with *(3) [of "bytes_of_string i"] *(2) [of "bytes_of_string i"]
  consider "find (\<lambda>r. rcpt_ID r = i) h = None" "bmap R (bytes_of_string i) = None"
    | q d where "find (\<lambda>r. rcpt_ID r = i) h = Some q" "bmap R (bytes_of_string i) = Some d" "js_Unmarshal J d = Some q"
    by (cases "find (\<lambda>r. rcpt_ID r = i) h") auto
  then show ?thesis
    using *(1) by cases (simp_all add: Bolt_GetByID_def GetByKey_def db_View_def get)
qed

lemma rep_getByTxID:
  assumes "bolt_rep bmap J db h"
  shows "Bolt_GetByTxID B J i db = (if bo_begin B db then Inr (find (\<lambda>r. rcpt_TransactionID r = i) (rev h)) else Inl (storeFault FaultBegin))"
proof (rule rep_lookup [OF assms])
  fix R T Q
  assume *: "db receiptsBucket = Some R" "db receiptsByTxBucket = Some T"
    "\<And>k r. find (\<lambda>r. receipt_key r = k) h = Some r \<Longrightarrow> \<exists>d. bmap R k = Some d \<and> js_Unmarshal J d = Some r"
    "\<And>r. r \<in> set h \<Longrightarrow> find (\<lambda>q. receipt_key q = receipt_key r) h = Some r"
    "\<And>k. bmap T k = map_option receipt_key (find (\<lambda>r. bytes_of_string (rcpt_TransactionID r) = k) (rev h))"
  show ?thesis
  proof (cases "find (\<lambda>r. rcpt_TransactionID r = i) (rev h)")
    case None
    with *(1,2,5) show ?thesis by (simp add: Bolt_GetByTxID_def GetViaIndex_def db_View_def get bytes_of_string_inj)
  next
    case (Some q)
    from find_member [OF Some] have "q \<in> set h" by simp
    from *(3) [OF *(4) [OF this]] obtain d where "bmap R (receipt_key q) = Some d" "js_Unmarshal J d = Some q" by blast
    with *(1,2,5) Some show ?thesis by (simp add: Bolt_GetByTxID_def GetViaIndex_def db_View_def get bytes_of_string_inj)
  qed
qed

text \<open>The cursor over the receipts bucket meets every receipt of the history once.\<close>

lemma walk_decodes:
  assumes "data_rep bmap J R h"
  obtains rs where "list_all2 (\<lambda>kv r. js_Unmarshal J (snd kv) = Some r \<and> fst kv = receipt_key r) (bo_walk B R) rs"
    "set rs = set h" "distinct rs" "distinct h"
proof -
  from assms have R: "bmap R = (\<lambda>k. Option.bind (find (\<lambda>r. receipt_key r = k) h) (js_Marshal J))"
    and m: "\<forall>r\<in>set h. js_Marshal J r \<noteq> None" and d: "distinct (map rcpt_ID h)" by (simp_all add: data_rep_def)
  have "distinct (map receipt_key h)" using d by (auto simp: distinct_map inj_on_def receipt_key_inj)
  from decoded_walk [OF R m this roundtrip] that show thesis by blast
qed

lemma rep_data: "bolt_rep bmap J db h \<Longrightarrow> \<exists>R. db receiptsBucket = Some R \<and> data_rep bmap J R h"
  unfolding bolt_rep_def data_rep_def by blast

lemma rep_keys_distinct: "bolt_rep bmap J db h \<Longrightarrow> distinct (map receipt_key h)"
  by (auto simp: bolt_rep_def distinct_map inj_on_def receipt_key_inj)

lemma rep_list_total:
  assumes "bolt_rep bmap J db h" "bo_begin B db"
  shows "\<exists>rs. Bolt_List B J db = Inr rs \<and> mset rs = mset h"
proof -
  from rep_data [OF assms(1)] obtain R where R: "db receiptsBucket = Some R" "data_rep bmap J R h" by blast
  then have "\<exists>rs. ListAll B J receiptsBucket db = Inr rs \<and> mset rs = mset h"
    by (intro ListAll_decodes [OF R(1) assms(2) _ _ rep_keys_distinct [OF assms(1)] roundtrip]) (simp_all add: data_rep_def)
  then show ?thesis by (auto simp: Bolt_List_def)
qed

lemma rep_list: "bolt_rep bmap J db h \<Longrightarrow> Bolt_List B J db = Inr rs \<Longrightarrow> mset rs = mset h"
  using rep_list_total [of db h] by (cases "bo_begin B db") (auto simp: Bolt_List_def ListAll_def db_View_def)

lemma rep_count:
  assumes "bolt_rep bmap J db h"
  shows "Bolt_Count B db = (if bo_begin B db then Inr (length h) else Inl (storeFault FaultBegin))"
proof (rule rep_lookup [OF assms])
  fix R T Q
  assume *: "db receiptsBucket = Some R" "\<And>k. bmap R k = None \<longleftrightarrow> find (\<lambda>r. receipt_key r = k) h = None"
  from CountKeys_length [where db = db and R = R and key = receipt_key, OF *(1) _ rep_keys_distinct [OF assms] *(2)] show ?thesis
    by (simp add: Bolt_Count_def CountKeys_def db_View_def)
qed

lemma rep_seq_walk:
  assumes "bmap Q = (\<lambda>k. map_option receipt_key (find (\<lambda>r. PutUint64 (rcpt_SeqNo r) = k) h))" "seq_sorted h"
  shows "bo_walk B Q = map (\<lambda>r. (PutUint64 (rcpt_SeqNo r), receipt_key r)) h"
proof (rule walk_unique)
  show "sorted_wrt (<) (map fst (map (\<lambda>r. (PutUint64 (rcpt_SeqNo r), receipt_key r)) h))"
    using assms(2) by (simp add: seq_sorted_def sorted_wrt_map)
  show "map_of (map (\<lambda>r. (PutUint64 (rcpt_SeqNo r), receipt_key r)) h) = bmap Q"
    unfolding assms(1) by (rule ext) (rule map_of_find)
qed

lemma rep_last:
  assumes "bolt_rep bmap J db h" "seq_sorted h"
  shows "Bolt_Last B J db =
    (if bo_begin B db then Inr (if h = [] then None else Some (last h)) else Inl (storeFault FaultBegin))"
proof (rule rep_lookup [OF assms(1)])
  fix R T Q
  assume *: "db receiptsBucket = Some R" "db seqBucket = Some Q"
    "\<And>k r. find (\<lambda>r. receipt_key r = k) h = Some r \<Longrightarrow> \<exists>d. bmap R k = Some d \<and> js_Unmarshal J d = Some r"
    "\<And>r. r \<in> set h \<Longrightarrow> find (\<lambda>q. receipt_key q = receipt_key r) h = Some r"
    "bmap Q = (\<lambda>k. map_option receipt_key (find (\<lambda>r. PutUint64 (rcpt_SeqNo r) = k) h))"
  note w = rep_seq_walk [OF *(5) assms(2)]
  show ?thesis
  proof (cases "h = []")
    case True
    with w *(2) show ?thesis by (simp add: Bolt_Last_def db_View_def)
  next
    case False
    from *(3) [OF *(4)] False obtain d where "bmap R (receipt_key (last h)) = Some d" "js_Unmarshal J d = Some (last h)"
      using last_in_set by blast
    with w *(1,2) False show ?thesis by (simp add: Bolt_Last_def db_View_def last_map get)
  qed
qed

lemma rangeLoop_takeWhile:
  assumes "\<And>r. r \<in> set hs \<Longrightarrow> \<exists>d. bmap R (receipt_key r) = Some d \<and> js_Unmarshal J d = Some r"
  shows "rangeLoop B J b R (map (\<lambda>r. (PutUint64 (rcpt_SeqNo r), receipt_key r)) hs) = Inr (takeWhile (\<lambda>r. rcpt_SeqNo r \<le> b) hs)"
  using assms
proof (induction hs)
  case (Cons r hs)
  from Cons.prems [of r] obtain d where "bmap R (receipt_key r) = Some d" "js_Unmarshal J d = Some r" by auto
  with Cons show ?case by (auto simp: get)
qed simp

lemma rep_range:
  assumes "bolt_rep bmap J db h" "seq_sorted h"
  shows "Bolt_ListRange B J a b db = (if bo_begin B db then Inr (filter (in_range a b) h) else Inl (storeFault FaultBegin))"
proof (rule rep_lookup [OF assms(1)])
  fix R T Q
  assume *: "db receiptsBucket = Some R" "db seqBucket = Some Q"
    "\<And>k r. find (\<lambda>r. receipt_key r = k) h = Some r \<Longrightarrow> \<exists>d. bmap R k = Some d \<and> js_Unmarshal J d = Some r"
    "\<And>r. r \<in> set h \<Longrightarrow> find (\<lambda>q. receipt_key q = receipt_key r) h = Some r"
    "bmap Q = (\<lambda>k. map_option receipt_key (find (\<lambda>r. PutUint64 (rcpt_SeqNo r) = k) h))"
  have w: "dropWhile (\<lambda>(k, _). k < PutUint64 a) (bo_walk B Q) =
      map (\<lambda>r. (PutUint64 (rcpt_SeqNo r), receipt_key r)) (dropWhile (\<lambda>r. rcpt_SeqNo r < a) h)"
    unfolding rep_seq_walk [OF *(5) assms(2)] by (simp add: dropWhile_map comp_def)
  have "rangeLoop B J b R (dropWhile (\<lambda>(k, _). k < PutUint64 a) (bo_walk B Q)) =
      Inr (takeWhile (\<lambda>r. rcpt_SeqNo r \<le> b) (dropWhile (\<lambda>r. rcpt_SeqNo r < a) h))"
    unfolding w by (rule rangeLoop_takeWhile) (use *(3) [OF *(4)] set_dropWhileD in fast)
  also have "\<dots> = Inr (filter (in_range a b) h)"
    using range_prefix [of rcpt_SeqNo h b a] assms(2) by (simp add: seq_sorted_def in_range_def [abs_def])
  finally show ?thesis using *(1,2) by (simp add: Bolt_ListRange_def db_View_def)
qed

text \<open>Opening a store again, and indexing a store that was written before the sequence index existed.\<close>

lemma backfillLoop_spec:
  "list_all2 (\<lambda>kv r. js_Unmarshal J (snd kv) = Some r \<and> fst kv = receipt_key r) kvs rs \<Longrightarrow> backfillLoop B J kvs q = Inr q' \<Longrightarrow>
     distinct (map rcpt_SeqNo rs) \<and> (\<forall>r\<in>set rs. bmap q (PutUint64 (rcpt_SeqNo r)) = None) \<and>
     bmap q' = bmap q ++ map_of (map (\<lambda>r. (PutUint64 (rcpt_SeqNo r), receipt_key r)) rs)"
proof (induction kvs arbitrary: rs q)
  case (Cons kv kvs)
  obtain k v where kv: "kv = (k, v)" by fastforce
  from Cons.prems(1) kv obtain r rs' where rs: "rs = r # rs'" "js_Unmarshal J v = Some r" "k = receipt_key r"
    "list_all2 (\<lambda>kv r. js_Unmarshal J (snd kv) = Some r \<and> fst kv = receipt_key r) kvs rs'"
    by (auto simp: list_all2_Cons1)
  from Cons.prems(2) kv rs(2) obtain q1 where q1: "bmap q (PutUint64 (rcpt_SeqNo r)) = None"
    "bo_put B (PutUint64 (rcpt_SeqNo r)) k q = Some q1" "backfillLoop B J kvs q1 = Inr q'"
    by (auto simp: get split: option.splits)
  from put [OF q1(2)] have b: "bmap q1 = (bmap q)(PutUint64 (rcpt_SeqNo r) \<mapsto> receipt_key r)" using rs(3) by simp
  from Cons.IH [OF rs(4) q1(3)]
  have ih: "distinct (map rcpt_SeqNo rs')" "\<forall>x\<in>set rs'. bmap q1 (PutUint64 (rcpt_SeqNo x)) = None"
    "bmap q' = bmap q1 ++ map_of (map (\<lambda>r. (PutUint64 (rcpt_SeqNo r), receipt_key r)) rs')" by blast+
  from ih(2) have new: "\<forall>x\<in>set rs'. rcpt_SeqNo x \<noteq> rcpt_SeqNo r \<and> bmap q (PutUint64 (rcpt_SeqNo x)) = None"
    unfolding b by (auto split: if_splits)
  have "PutUint64 (rcpt_SeqNo r) \<notin> dom (map_of (map (\<lambda>r. (PutUint64 (rcpt_SeqNo r), receipt_key r)) rs'))"
    using new by (auto simp: dom_map_of_conv_image_fst)
  then have "bmap q' = bmap q ++ map_of (map (\<lambda>r. (PutUint64 (rcpt_SeqNo r), receipt_key r)) rs)"
    unfolding ih(3) b rs(1) by (auto simp: map_add_def fun_eq_iff domIff split: option.split)
  moreover have "distinct (map rcpt_SeqNo rs)" using ih(1) new rs(1) by (auto simp: image_iff)
  moreover have "\<forall>r\<in>set rs. bmap q (PutUint64 (rcpt_SeqNo r)) = None" using new q1(1) rs(1) by simp
  ultimately show ?case by blast
qed simp

lemma index_map:
  assumes "set rs = set h" "distinct rs" "distinct h" "distinct (map rcpt_SeqNo rs)"
  shows "map_of (map (\<lambda>r. (PutUint64 (rcpt_SeqNo r), receipt_key r)) rs) =
    (\<lambda>k. map_option receipt_key (find (\<lambda>r. PutUint64 (rcpt_SeqNo r) = k) h))" and "distinct (map rcpt_SeqNo h)"
proof -
  from assms have m: "mset rs = mset h" using set_eq_iff_mset_eq_distinct by blast
  then have "mset (map rcpt_SeqNo rs) = mset (map rcpt_SeqNo h)" by simp
  with assms(4) show dh: "distinct (map rcpt_SeqNo h)" by (metis mset_eq_imp_distinct_iff)
  let ?f = "\<lambda>r. (PutUint64 (rcpt_SeqNo r), receipt_key r)"
  have d: "distinct (map fst (map ?f xs))" if "distinct (map rcpt_SeqNo xs)" for xs
    using that by (auto simp: distinct_map inj_on_def)
  have "map_of (map ?f rs) = map_of (map ?f h)"
    using map_of_inject_set [OF d [OF assms(4)] d [OF dh]] assms(1) by simp
  then show "map_of (map ?f rs) = (\<lambda>k. map_option receipt_key (find (\<lambda>r. PutUint64 (rcpt_SeqNo r) = k) h))"
    by (simp add: map_of_find fun_eq_iff)
qed

lemma backfill_rep:
  assumes u: "unindexed_rep bmap J db h" and q: "db seqBucket \<noteq> None" and b: "backfillSeqBucket B J db = (None, db')"
  shows "bolt_rep bmap J db' h"
proof -
  from u q obtain R T Q where R: "db receiptsBucket = Some R" "db receiptsByTxBucket = Some T" "data_rep bmap J R h"
    and T: "bmap T = (\<lambda>k. map_option receipt_key (find (\<lambda>r. bytes_of_string (rcpt_TransactionID r) = k) (rev h)))"
    and Q: "db seqBucket = Some Q" "bmap Q = Map.empty" by (auto simp: unindexed_rep_def)
  obtain rs where rs: "list_all2 (\<lambda>kv r. js_Unmarshal J (snd kv) = Some r \<and> fst kv = receipt_key r) (bo_walk B R) rs"
    "set rs = set h" "distinct rs" "distinct h" by (rule walk_decodes [OF R(3)])
  from Q(2) have "bo_keyN B Q = 0" by (simp add: keyN_card)
  with b R Q obtain Q' where Q': "backfillLoop B J (bo_walk B R) Q = Inr Q'" "db' = db(seqBucket \<mapsto> Q')"
    by (auto simp: backfillSeqBucket_def db_Update_def split: sum.splits if_splits prod.splits)
  from backfillLoop_spec [OF rs(1) Q'(1)] Q(2) have l: "distinct (map rcpt_SeqNo rs)"
    "bmap Q' = map_of (map (\<lambda>r. (PutUint64 (rcpt_SeqNo r), receipt_key r)) rs)" by simp_all
  from index_map [OF rs(2-4) l(1)] l(2) R T Q'(2) show ?thesis
    by (auto simp: bolt_rep_def data_rep_def)
qed

lemma rep_reopen:
  assumes "bolt_rep bmap J db h" "NewBoltStore B J opens db = (e, db')"
  shows "db' = db"
proof -
  from assms(1) obtain R T Q where b: "db receiptsBucket = Some R" "db receiptsByTxBucket = Some T" "db seqBucket = Some Q"
    and Q: "bmap Q = (\<lambda>k. map_option receipt_key (find (\<lambda>r. PutUint64 (rcpt_SeqNo r) = k) h))"
    and R: "bmap R = (\<lambda>k. Option.bind (find (\<lambda>r. receipt_key r = k) h) (js_Marshal J))"
    unfolding bolt_rep_def by blast
  have c: "createBuckets B [receiptsBucket, receiptsByTxBucket, seqBucket] db = db" by (rule createBuckets_id) (simp add: b)
  have "bo_walk B R = []" if "bo_keyN B Q = 0"
  proof -
    from that have "bmap Q = Map.empty" by (simp add: keyN walk_empty)
    then have "h = []" unfolding Q by (cases h) (auto simp: fun_eq_iff split: if_splits)
    then show ?thesis unfolding walk_empty R by simp
  qed
  with b c assms(2) show ?thesis
    by (auto simp: NewBoltStore_def OpenAndInit_def backfillSeqBucket_def db_Update_def split: if_splits prod.splits option.splits sum.splits)
qed

lemma rep_open_unindexed:
  assumes "unindexed_rep bmap J db h" "NewBoltStore B J opens db = (None, db')"
  shows "bolt_rep bmap J db' h"
proof -
  let ?c = "createBuckets B [receiptsBucket, receiptsByTxBucket, seqBucket] db"
  from assms(2) have b: "backfillSeqBucket B J ?c = (None, db')"
    by (auto simp: NewBoltStore_def OpenAndInit_def db_Update_def split: if_splits prod.splits option.splits)
  have s: "?c seqBucket \<noteq> None \<and> (case ?c seqBucket of None \<Rightarrow> True | Some Q \<Rightarrow> bmap Q = Map.empty)"
  proof (cases "db seqBucket")
    case None
    then show ?thesis using createBuckets_new [of db seqBucket "[receiptsBucket, receiptsByTxBucket, seqBucket]"] newBucket by simp
  next
    case (Some Q)
    then have "?c seqBucket = Some Q" by (simp add: createBuckets_keep)
    with Some assms(1) show ?thesis by (simp add: unindexed_rep_def)
  qed
  from assms(1) have "?c receiptsBucket = db receiptsBucket" "?c receiptsByTxBucket = db receiptsByTxBucket"
    by (auto simp: unindexed_rep_def createBuckets_keep)
  with assms(1) s have "unindexed_rep bmap J ?c h" unfolding unindexed_rep_def by simp
  from backfill_rep [OF this _ b] s show ?thesis by blast
qed

lemma rep_open_fresh:
  assumes "NewBoltStore B J opens Map.empty = (None, db')"
  shows "bolt_rep bmap J db' []"
proof -
  let ?c = "createBuckets B [receiptsBucket, receiptsByTxBucket, seqBucket] Map.empty"
  from assms have b: "backfillSeqBucket B J ?c = (None, db')"
    by (auto simp: NewBoltStore_def OpenAndInit_def db_Update_def split: if_splits prod.splits option.splits)
  have "unindexed_rep bmap J ?c []" using newBucket by (simp add: unindexed_rep_def data_rep_def fun_eq_iff)
  from backfill_rep [OF this _ b] show ?thesis by simp
qed

lemma rep_open_any:
  assumes "NewBoltStore B J opens Map.empty = (e, db')"
  shows "db' = Map.empty \<or> bolt_rep bmap J db' []"
proof (cases e)
  case None
  with rep_open_fresh assms show ?thesis by blast
next
  case (Some x)
  let ?c = "createBuckets B [receiptsBucket, receiptsByTxBucket, seqBucket] Map.empty"
  have "bolt_rep bmap J ?c []" using newBucket by (simp add: bolt_rep_def fun_eq_iff)
  moreover from Some assms have "db' = Map.empty \<or> db' = ?c"
    by (auto simp: NewBoltStore_def OpenAndInit_def backfillSeqBucket_def db_Update_def
        simp del: createBuckets.simps split: if_splits prod.splits option.splits sum.splits)
  ultimately show ?thesis by blast
qed

lemma rep_append_exact:
  assumes "bolt_rep bmap J db h" "Bolt_Append B J r db = (Some e, db')"
  shows "(\<exists>f. e = storeFault f) \<or> (e = DuplicateReceiptID (rcpt_ID r) \<and> rcpt_ID r \<in> rcpt_ID ` set h) \<or>
    (e = DuplicateSequence (rcpt_SeqNo r) \<and> rcpt_ID r \<notin> rcpt_ID ` set h \<and> rcpt_SeqNo r \<in> rcpt_SeqNo ` set h)"
proof (rule rep_lookup [OF assms(1)])
  fix R T Q
  assume *: "db receiptsBucket = Some R" "db receiptsByTxBucket = Some T" "db seqBucket = Some Q"
    "\<And>k. bmap R k = None \<longleftrightarrow> find (\<lambda>r. receipt_key r = k) h = None"
    "bmap Q = (\<lambda>k. map_option receipt_key (find (\<lambda>r. PutUint64 (rcpt_SeqNo r) = k) h))"
  have i: "bo_get B (bytes_of_string (rcpt_ID r)) R \<noteq> None \<longleftrightarrow> rcpt_ID r \<in> rcpt_ID ` set h"
    using *(4) by (auto simp: get receipt_key_def bytes_of_string_inj find_None_iff intro: rev_image_eqI)
  have s: "bo_get B (PutUint64 (rcpt_SeqNo r)) Q \<noteq> None \<longleftrightarrow> rcpt_SeqNo r \<in> rcpt_SeqNo ` set h"
    using *(5) by (auto simp: get find_None_iff intro: rev_image_eqI)
  from assms(2) *(1-3) i s show ?thesis
    by (auto simp: Bolt_Append_def db_Update_def split: option.splits if_splits prod.splits)
qed

end

sublocale bolt_receipts \<subseteq> durable: receipt_store "BoltStoreOps B J" "\<lambda>s. bolt_rep bmap J (fst s) (snd s)" snd
proof unfold_locales
  fix s r s'
  assume i: "bolt_rep bmap J (fst s) (snd s)" and a: "st_Append (BoltStoreOps B J) r s = (None, s')"
  then have "Bolt_Append B J r (fst s) = (None, fst s')" "snd s' = snd s @ [r]"
    by (auto simp: BoltStoreOps_def split: prod.splits option.splits)
  with rep_append [OF i this(1)] show "bolt_rep bmap J (fst s') (snd s') \<and> snd s' = snd s @ [r]
      \<and> rcpt_ID r \<notin> rcpt_ID ` set (snd s) \<and> rcpt_SeqNo r \<notin> rcpt_SeqNo ` set (snd s)" by simp
next
  fix s r e s'
  assume i: "bolt_rep bmap J (fst s) (snd s)" and a: "st_Append (BoltStoreOps B J) r s = (Some e, s')"
  then have "Bolt_Append B J r (fst s) = (Some e, fst s')" "snd s' = snd s"
    by (auto simp: BoltStoreOps_def split: prod.splits option.splits)
  with rep_append [OF i this(1)] show "s' = s" by (simp add: prod_eq_iff)
qed (auto simp: BoltStoreOps_def rep_getByID rep_getByTxID rep_count rep_last rep_range rep_distinct
    split: prod.splits if_splits dest: rep_list)

section \<open>A reference database\<close>

text \<open>
  Buckets as red-black trees with a sequence counter, keys limited as bbolt limits them and no
  faults.  It satisfies the contract, so the theorems about the durable stores are not vacuous.
\<close>

definition refBolt :: "((bytes, bytes) rbt \<times> uint64) boltOps" where
  "refBolt =
     \<lparr>bo_get = (\<lambda>k b. RBT.lookup (fst b) k),
      bo_put = (\<lambda>k v b. if k = [] \<or> length k > 32768 then None else Some (RBT.insert k v (fst b), snd b)),
      bo_walk = (\<lambda>b. RBT.entries (fst b)), bo_keyN = (\<lambda>b. length (RBT.entries (fst b))),
      bo_nextSequence = (\<lambda>b. Some (snd b + 1, (fst b, snd b + 1))), bo_newBucket = (RBT.empty, 0),
      bo_begin = (\<lambda>_. True), bo_commit = (\<lambda>_ _. True)\<rparr>"

abbreviation refMap :: "(bytes, bytes) rbt \<times> uint64 \<Rightarrow> (bytes \<rightharpoonup> bytes)" where
  "refMap b \<equiv> RBT.lookup (fst b)"

interpretation refbolt: bolt_db refBolt refMap snd
proof unfold_locales
  fix b :: "(bytes, bytes) rbt \<times> uint64"
  show "sorted_wrt (<) (map fst (bo_walk refBolt b))"
    using RBT.sorted_entries [of "fst b"] RBT.distinct_entries [of "fst b"] by (simp add: refBolt_def strict_sorted_iff)
qed (auto simp: refBolt_def split: if_splits)

text \<open>An encoding of finitely many receipts, by position.\<close>

definition listCodec :: "'a list \<Rightarrow> 'a jsonCodec" where
  "listCodec xs =
     \<lparr>js_Marshal = (\<lambda>x. map_option (\<lambda>i. replicate (Suc i) 0) (find (\<lambda>i. xs ! i = x) [0..<length xs])),
      js_Unmarshal = (\<lambda>d. if 0 < length d \<and> length d \<le> length xs then Some (xs ! (length d - 1)) else None)\<rparr>"

lemma listCodec_roundtrip: "js_Marshal (listCodec xs) x = Some d \<Longrightarrow> js_Unmarshal (listCodec xs) d = Some x"
proof -
  assume "js_Marshal (listCodec xs) x = Some d"
  then obtain i where i: "find (\<lambda>i. xs ! i = x) [0..<length xs] = Some i" "d = replicate (Suc i) 0" by (auto simp: listCodec_def)
  from find_member [OF i(1)] i(2) show ?thesis by (auto simp: listCodec_def)
qed

interpretation refstore: bolt_receipts refBolt refMap snd "listCodec rs" for rs
  by unfold_locales (rule listCodec_roundtrip)

section \<open>Properties of the durable receipt store\<close>

text \<open>
  C12. \<open>BoltStore\<close> simulates \<open>MemoryStore\<close>.  Whenever a database represents the receipts a memory
  store holds, an append to both either is a fault of the medium that leaves the database as it
  was, or gives the same answer (success, duplicate identifier, duplicate sequence number) and
  databases and memory that correspond again; and every read that can start returns what the memory
  store returns: lookups by identifier and by transaction, the count, the same receipts listed (in
  key order), and, for ascending sequence numbers, the last receipt and every range.  The hypothesis
  is what bbolt and the JSON encoding document.
\<close>

theorem BoltStore_simulates_MemoryStore:
  assumes "bolt_receipts B bmap bseq J" and "bolt_rep bmap J db (ms_receipts s)" and "memory_inv s"
  shows "(case (Bolt_Append B J r db, Memory_Append r s) of ((e, db'), (e', s')) \<Rightarrow>
       (\<exists>f. e = Some (storeFault f) \<and> db' = db) \<or> (e = e' \<and> memory_inv s' \<and> bolt_rep bmap J db' (ms_receipts s'))) \<and>
    (bo_begin B db \<longrightarrow>
       Bolt_GetByID B J i db = Memory_GetByID i s \<and> Bolt_GetByTxID B J t db = Memory_GetByTxID t s \<and> Bolt_Count B db = Memory_Count s \<and>
       (\<exists>rs. Bolt_List B J db = Inr rs \<and> mset rs = mset (ms_receipts s)) \<and>
       (seq_sorted (ms_receipts s) \<longrightarrow> Bolt_Last B J db = Memory_Last s \<and> Bolt_ListRange B J a b db = Memory_ListRange a b s))"
proof (intro conjI impI)
  let ?h = "ms_receipts s"
  obtain e db' where b: "Bolt_Append B J r db = (e, db')" by fastforce
  obtain e' s' where m: "Memory_Append r s = (e', s')" by fastforce
  note step = bolt_receipts.rep_append [OF assms(1,2) b]
  have "(\<exists>f. e = Some (storeFault f) \<and> db' = db) \<or> (e = e' \<and> memory_inv s' \<and> bolt_rep bmap J db' (ms_receipts s'))"
  proof (cases e)
    case None
    with step have f: "rcpt_ID r \<notin> rcpt_ID ` set ?h" "rcpt_SeqNo r \<notin> rcpt_SeqNo ` set ?h" "bolt_rep bmap J db' (?h @ [r])" by simp_all
    with m have "e' = None" "ms_receipts s' = ?h @ [r]" by (auto simp: Memory_Append_eq [OF assms(3)] split: if_splits)
    with None f(3) m Memory_Append_inv [OF assms(3)] show ?thesis by simp
  next
    case (Some x)
    with bolt_receipts.rep_append_exact [OF assms(1,2), of r x db'] b step m assms(2,3) show ?thesis
      by (auto simp: Memory_Append_eq [OF assms(3)] split: if_splits)
  qed
  with b m show "case (Bolt_Append B J r db, Memory_Append r s) of ((e, db'), (e', s')) \<Rightarrow>
       (\<exists>f. e = Some (storeFault f) \<and> db' = db) \<or> (e = e' \<and> memory_inv s' \<and> bolt_rep bmap J db' (ms_receipts s'))" by simp
  assume live: "bo_begin B db"
  note reads = bolt_receipts.rep_getByID [OF assms(1,2)] bolt_receipts.rep_getByTxID [OF assms(1,2)] bolt_receipts.rep_count [OF assms(1,2)]
  show "Bolt_GetByID B J i db = Memory_GetByID i s" "Bolt_GetByTxID B J t db = Memory_GetByTxID t s" "Bolt_Count B db = Memory_Count s"
    using live assms(3) by (simp_all add: reads Memory_GetByID_def Memory_GetByTxID_def Memory_Count_def memory_inv_def)
  show "\<exists>rs. Bolt_List B J db = Inr rs \<and> mset rs = mset ?h" by (rule bolt_receipts.rep_list_total [OF assms(1,2) live])
  assume "seq_sorted ?h"
  with live show "Bolt_Last B J db = Memory_Last s" "Bolt_ListRange B J a b db = Memory_ListRange a b s"
    by (simp_all add: bolt_receipts.rep_last [OF assms(1,2)] bolt_receipts.rep_range [OF assms(1,2)] Memory_Last_def Memory_ListRange_def
        last_conv_nth in_range_def [abs_def])
qed

definition plainReceipt :: "string \<Rightarrow> string \<Rightarrow> uint64 \<Rightarrow> ComplianceReceipt" where
  "plainReceipt i t q =
     \<lparr>rcpt_ID = i, rcpt_TransactionID = t, rcpt_PolicyID = '''',
      rcpt_Path = \<lparr>path_Raw = [], path_Hops = [], path_Fingerprint = '''', path_EvidenceClass = '''', path_ProofStatus = ''''\<rparr>,
      rcpt_EvidenceClass = '''', rcpt_ProofStatus = '''', rcpt_ISDProofs = [], rcpt_SeqNo = q, rcpt_Timestamp = 0, rcpt_Signature = [],
      rcpt_OraclePublicKey = [], rcpt_PreviousHash = None, rcpt_ThresholdK = 0, rcpt_ThresholdN = 0, rcpt_ThresholdSignatures = []\<rparr>"

abbreviation refJ :: "ComplianceReceipt jsonCodec" where
  "refJ \<equiv> listCodec [plainReceipt ''r1'' ''t1'' 1, plainReceipt ''r2'' ''t2'' 2]"

definition refDB :: "((bytes, bytes) rbt \<times> uint64) boltDB" where
  "refDB = snd (NewBoltStore refBolt refJ True Map.empty)"

lemma refDB_rep: "bolt_rep refMap refJ refDB []"
proof -
  have "fst (NewBoltStore refBolt refJ True Map.empty) = None"
    by (simp add: NewBoltStore_def OpenAndInit_def backfillSeqBucket_def db_Update_def) (simp add: refBolt_def)
  then show ?thesis
    unfolding refDB_def using refstore.rep_open_fresh [of "[plainReceipt ''r1'' ''t1'' 1, plainReceipt ''r2'' ''t2'' 2]" True] by (metis prod.collapse)
qed

lemma refBolt_no_fault:
  assumes "bolt_rep refMap J db h" "js_Marshal J r \<noteq> None" "rcpt_ID r \<noteq> ''''" "rcpt_TransactionID r \<noteq> ''''"
    and "length (rcpt_ID r) \<le> 32768" "length (rcpt_TransactionID r) \<le> 32768"
  shows "fst (Bolt_Append refBolt J r db) \<noteq> Some (storeFault f)"
proof -
  from assms(1) obtain R T Q where b: "db receiptsBucket = Some R" "db receiptsByTxBucket = Some T" "db seqBucket = Some Q"
    unfolding bolt_rep_def by blast
  from assms(2) obtain d where d: "js_Marshal J r = Some d" by blast
  have live: "bo_begin refBolt x" "bo_commit refBolt x y" for x y by (simp_all add: refBolt_def)
  have put: "\<exists>b'. bo_put refBolt k v b = Some b'" if "k \<noteq> []" "length k \<le> 32768" for k v b
    using that by (simp add: refBolt_def)
  have ne: "bytes_of_string s \<noteq> []" if "s \<noteq> ''''" for s using that by (simp add: bytes_of_string_def)
  have "length (bytes_of_string (rcpt_ID r)) \<le> 32768" "length (bytes_of_string (rcpt_TransactionID r)) \<le> 32768"
    "length (PutUint64 (rcpt_SeqNo r)) \<le> 32768" using assms(5,6) by simp_all
  from put [OF ne [OF assms(3)] this(1), of d R] put [OF ne [OF assms(4)] this(2), of "bytes_of_string (rcpt_ID r)" T]
    put [OF PutUint64_nonempty this(3), of "bytes_of_string (rcpt_ID r)" Q]
  obtain R' T' Q' where "bo_put refBolt (bytes_of_string (rcpt_ID r)) d R = Some R'"
    "bo_put refBolt (bytes_of_string (rcpt_TransactionID r)) (bytes_of_string (rcpt_ID r)) T = Some T'"
    "bo_put refBolt (PutUint64 (rcpt_SeqNo r)) (bytes_of_string (rcpt_ID r)) Q = Some Q'" by blast
  with b d live show ?thesis by (simp add: Bolt_Append_def db_Update_def)
qed

theorem BoltStore_simulates_MemoryStore_witness:
  "let r = plainReceipt ''r1'' ''t1'' 1; db = snd (Bolt_Append refBolt refJ r refDB) in
   fst (Bolt_Append refBolt refJ r refDB) = None \<and> Bolt_GetByID refBolt refJ ''r1'' db = Inr (Some r) \<and>
   Bolt_Last refBolt refJ db = Inr (Some r) \<and> Bolt_ListRange refBolt refJ 1 5 db = Inr [r] \<and> Bolt_Count refBolt db = Inr 1"
proof -
  let ?r = "plainReceipt ''r1'' ''t1'' 1"
  obtain e db where b: "Bolt_Append refBolt refJ ?r refDB = (e, db)" by fastforce
  have live: "bo_begin refBolt d" for d by (simp add: refBolt_def)
  have st: "bolt_receipts refBolt refMap snd refJ" by (rule refstore.bolt_receipts_axioms)
  obtain s where m: "Memory_Append ?r NewMemoryStore = (None, s)" "ms_receipts s = [?r]" "ms_byID s ''r1'' = Some ?r"
    by (simp add: Memory_Append_def NewMemoryStore_def plainReceipt_def)
  have rep: "bolt_rep refMap refJ refDB (ms_receipts NewMemoryStore)" using refDB_rep by (simp add: NewMemoryStore_def)
  have "js_Marshal refJ ?r \<noteq> None" by (simp add: listCodec_def upt_rec)
  from refBolt_no_fault [OF refDB_rep this] b have nf: "e \<noteq> Some (storeFault f)" for f by (simp add: plainReceipt_def)
  from BoltStore_simulates_MemoryStore [OF st rep memory_inv_New, of ?r] b m nf
  have sim: "e = None" "memory_inv s" "bolt_rep refMap refJ db (ms_receipts s)" by auto
  from BoltStore_simulates_MemoryStore [OF st sim(3,2), of ?r "''r1''" "''t1''" 1 5] live m(2,3) b sim(1) show ?thesis
    by (simp add: Memory_GetByID_def Memory_Last_def Memory_ListRange_def Memory_Count_def seq_sorted_def Let_def)
       (simp add: plainReceipt_def)
qed

text \<open>
  C22. A restart keeps the receipts.  Opening a database that represents a history leaves it
  untouched, whether opening succeeds or fails; opening one that was written before the sequence
  index existed, if it succeeds, yields a database that represents the same history, index
  included; and it cannot succeed when two of the receipts share a sequence number.
\<close>

theorem NewBoltStore_keeps_history:
  assumes "bolt_receipts B bmap bseq J"
  shows "(bolt_rep bmap J db h \<longrightarrow> snd (NewBoltStore B J opens db) = db) \<and>
    (unindexed_rep bmap J db h \<longrightarrow> fst (NewBoltStore B J opens db) = None \<longrightarrow>
       bolt_rep bmap J (snd (NewBoltStore B J opens db)) h \<and> distinct (map rcpt_SeqNo h))"
proof (intro conjI impI)
  obtain e db' where n: "NewBoltStore B J opens db = (e, db')" by fastforce
  show "snd (NewBoltStore B J opens db) = db" if "bolt_rep bmap J db h"
    using bolt_receipts.rep_reopen [OF assms that n] n by simp
  assume u: "unindexed_rep bmap J db h" "fst (NewBoltStore B J opens db) = None"
  then show r: "bolt_rep bmap J (snd (NewBoltStore B J opens db)) h"
    using bolt_receipts.rep_open_unindexed [OF assms u(1), of opens db'] n by simp
  from rep_distinct [OF r] show "distinct (map rcpt_SeqNo h)" by simp
qed

definition oldDB :: "((bytes, bytes) rbt \<times> uint64) boltDB" where
  "oldDB = [receiptsBucket \<mapsto> (RBT.insert (bytes_of_string ''r1'') [0] RBT.empty, 0),
            receiptsByTxBucket \<mapsto> (RBT.insert (bytes_of_string ''t1'') (bytes_of_string ''r1'') RBT.empty, 0)]"

theorem NewBoltStore_keeps_history_witness:
  "fst (NewBoltStore refBolt refJ True oldDB) = None \<and>
   bolt_rep refMap refJ (snd (NewBoltStore refBolt refJ True oldDB)) [plainReceipt ''r1'' ''t1'' 1]"
proof -
  have st: "bolt_receipts refBolt refMap snd refJ" by (rule refstore.bolt_receipts_axioms)
  have m: "js_Marshal refJ (plainReceipt ''r1'' ''t1'' 1) = Some [0]" by (simp add: listCodec_def upt_rec)
  have "unindexed_rep refMap refJ oldDB [plainReceipt ''r1'' ''t1'' 1]"
    using m by (auto simp: unindexed_rep_def data_rep_def oldDB_def fun_eq_iff receipt_key_def plainReceipt_def)
  moreover have "fst (NewBoltStore refBolt refJ True oldDB) = None"
  proof -
    have "bo_walk refBolt (RBT.insert (bytes_of_string ''r1'') [0] RBT.empty, q) = [(bytes_of_string ''r1'', [0])]" for q
      by (rule refbolt.walk_unique) (simp_all add: fun_eq_iff)
    moreover have "bo_walk refBolt (RBT.empty, q) = []" "bo_newBucket refBolt = (RBT.empty, 0)" for q
      by (simp_all add: refbolt.walk_empty) (simp add: refBolt_def)
    moreover have "bo_get refBolt k (RBT.empty, q) = None" "bo_begin refBolt d" "bo_commit refBolt d d'" for k q d d'
      by (simp_all add: refBolt_def)
    moreover have "\<exists>b. bo_put refBolt (PutUint64 n) v q = Some b" for n v q by (simp add: refBolt_def)
    ultimately show ?thesis
      by (auto simp: NewBoltStore_def OpenAndInit_def backfillSeqBucket_def db_Update_def oldDB_def refbolt.keyN listCodec_def
          split: option.splits sum.splits)
  qed
  ultimately show ?thesis using NewBoltStore_keeps_history [OF st, of oldDB "[plainReceipt ''r1'' ''t1'' 1]" True] by blast
qed

end
