(* ===== verification/JP_Audit.thy ===== *)
theory JP_Audit
  imports JP_Bolt JP_Api "HOL-Library.Sublist"
begin

text \<open>
  The other two databases of the server: \<open>BoltViolationStore\<close> of \<^verbatim>\<open>internal/violation/store.go\<close> and
  the audit log of \<^verbatim>\<open>internal/audit/log.go\<close>, over the same parameter for bbolt as the receipt store,
  and how the server's audit channel and its background writer fill the log.
\<close>

section \<open>BoltViolationStore\<close>

definition violationsBucket :: string where "violationsBucket = ''violations''"
definition violationsByTxBucket :: string where "violationsByTxBucket = ''violations_by_tx''"

definition NewBoltViolationStore :: "'b boltOps \<Rightarrow> bool \<Rightarrow> 'b boltDB \<Rightarrow> string option \<times> 'b boltDB" where
  "NewBoltViolationStore B opens db =
     (case OpenAndInit B opens [violationsBucket, violationsByTxBucket] db of
        (Some f, db1) \<Rightarrow> (Some (faultName f), db1)
      | (None, db1) \<Rightarrow> (None, db1))"

definition BoltViolation_Append :: "'b boltOps \<Rightarrow> Violation jsonCodec \<Rightarrow> Violation \<Rightarrow> 'b boltDB \<Rightarrow> string option \<times> 'b boltDB" where
  "BoltViolation_Append B J v db =
     (case js_Marshal J v of
        None \<Rightarrow> (Some (faultName FaultMarshal), db)
      | Some data \<Rightarrow>
          db_Update B faultName (\<lambda>db. case (db violationsBucket, db violationsByTxBucket) of
              (Some viols, Some byTx) \<Rightarrow>
                (case bo_put B (bytes_of_string (viol_ID v)) data viols of
                   None \<Rightarrow> (Some (faultName FaultPut), db)
                 | Some viols' \<Rightarrow>
                    (case bo_put B (bytes_of_string (viol_TransactionID v)) (bytes_of_string (viol_ID v)) byTx of
                       None \<Rightarrow> (Some (faultName FaultPut), db)
                     | Some byTx' \<Rightarrow> (None, db(violationsBucket \<mapsto> viols', violationsByTxBucket \<mapsto> byTx'))))
            | _ \<Rightarrow> (Some (faultName FaultNilBucket), db)) db)"

definition BoltViolation_GetByID :: "'b boltOps \<Rightarrow> Violation jsonCodec \<Rightarrow> string \<Rightarrow> 'b boltDB \<Rightarrow> string + Violation option" where
  "BoltViolation_GetByID B J i db = map_sum faultName id (GetByKey B J violationsBucket i db)"

definition BoltViolation_GetByTxID :: "'b boltOps \<Rightarrow> Violation jsonCodec \<Rightarrow> string \<Rightarrow> 'b boltDB \<Rightarrow> string + Violation option" where
  "BoltViolation_GetByTxID B J txID db = map_sum faultName id (GetViaIndex B J violationsByTxBucket violationsBucket txID db)"

definition BoltViolation_List :: "'b boltOps \<Rightarrow> Violation jsonCodec \<Rightarrow> 'b boltDB \<Rightarrow> string + Violation list" where
  "BoltViolation_List B J db = map_sum faultName id (ListAll B J violationsBucket db)"

definition BoltViolation_Count :: "'b boltOps \<Rightarrow> 'b boltDB \<Rightarrow> string + nat" where
  "BoltViolation_Count B db = map_sum faultName id (CountKeys B violationsBucket db)"

text \<open>The interface value; the history of successful appends is an auxiliary variable, as for the receipts.\<close>

definition BoltViolationOps :: "'b boltOps \<Rightarrow> Violation jsonCodec \<Rightarrow> ('b boltDB \<times> Violation list) ViolationStore" where
  "BoltViolationOps B J =
     \<lparr>vst_Append = (\<lambda>v (db, h). case BoltViolation_Append B J v db of (None, db') \<Rightarrow> (None, (db', h @ [v])) | (Some e, db') \<Rightarrow> (Some e, (db', h))),
      vst_GetByID = (\<lambda>i (db, _). BoltViolation_GetByID B J i db), vst_GetByTxID = (\<lambda>i (db, _). BoltViolation_GetByTxID B J i db),
      vst_List = (\<lambda>(db, _). BoltViolation_List B J db), vst_Count = (\<lambda>(db, _). BoltViolation_Count B db)\<rparr>"

section \<open>The audit log\<close>

definition auditBucket :: string where "auditBucket = ''audit''"

definition NewAuditLog :: "'b boltOps \<Rightarrow> bool \<Rightarrow> 'b boltDB \<Rightarrow> BoltFault option \<times> 'b boltDB" where
  "NewAuditLog B opens db =
     (if \<not> opens then (Some FaultOpen, db)
      else db_Update B id (\<lambda>db. (None, if db auditBucket = None then db(auditBucket \<mapsto> bo_newBucket B) else db)) db)"

definition Audit_Append :: "'b boltOps \<Rightarrow> AuditEntry jsonCodec \<Rightarrow> AuditEntry \<Rightarrow> 'b boltDB \<Rightarrow> BoltFault option \<times> 'b boltDB" where
  "Audit_Append B J entry db =
     (case js_Marshal J entry of
        None \<Rightarrow> (Some FaultMarshal, db)
      | Some data \<Rightarrow>
          db_Update B id (\<lambda>db. case db auditBucket of
              None \<Rightarrow> (Some FaultNilBucket, db)
            | Some b \<Rightarrow>
               (case bo_nextSequence B b of
                  None \<Rightarrow> (Some FaultSequence, db)
                | Some (seq, b1) \<Rightarrow>
                   (case bo_put B (PutUint64 seq) data b1 of
                      None \<Rightarrow> (Some FaultPut, db)
                    | Some b2 \<Rightarrow> (None, db(auditBucket \<mapsto> b2))))) db)"

text \<open>The cursor loop of \<open>List\<close>: \<open>i\<close> counts the entries passed, \<open>entries\<close> are those collected.\<close>

fun auditLoop :: "AuditEntry jsonCodec \<Rightarrow> int \<Rightarrow> int \<Rightarrow> int \<Rightarrow> AuditEntry list \<Rightarrow> (bytes \<times> bytes) list \<Rightarrow> BoltFault + AuditEntry list" where
  "auditLoop J offset limit i entries [] = Inr entries"
| "auditLoop J offset limit i entries ((k, v) # kvs) =
     (if i < offset then auditLoop J offset limit (i + 1) entries kvs
      else if int (length entries) \<ge> limit then Inr entries
      else case js_Unmarshal J v of
             None \<Rightarrow> Inl FaultUnmarshal
           | Some entry \<Rightarrow> auditLoop J offset limit (i + 1) (entries @ [entry]) kvs)"

definition Audit_List :: "'b boltOps \<Rightarrow> AuditEntry jsonCodec \<Rightarrow> int \<Rightarrow> int \<Rightarrow> 'b boltDB \<Rightarrow> BoltFault + AuditEntry list" where
  "Audit_List B J offset limit db =
     db_View B id (\<lambda>db. case db auditBucket of
         None \<Rightarrow> Inl FaultNilBucket
       | Some b \<Rightarrow> auditLoop J offset limit 0 [] (bo_walk B b)) db"

definition Audit_Count :: "'b boltOps \<Rightarrow> 'b boltDB \<Rightarrow> BoltFault + nat" where
  "Audit_Count B db =
     db_View B id (\<lambda>db. case db auditBucket of None \<Rightarrow> Inl FaultNilBucket | Some b \<Rightarrow> Inr (bo_keyN B b)) db"

text \<open>The log as the writer sees it, again with the history of successful appends as an auxiliary variable.\<close>

definition auditSink :: "'b boltOps \<Rightarrow> AuditEntry jsonCodec \<Rightarrow> AuditEntry \<Rightarrow> 'b boltDB \<times> AuditEntry list \<Rightarrow> BoltFault option \<times> ('b boltDB \<times> AuditEntry list)" where
  "auditSink B J x l =
     (case Audit_Append B J x (fst l) of (None, db') \<Rightarrow> (None, (db', snd l @ [x])) | (Some e, db') \<Rightarrow> (Some e, (db', snd l)))"

section \<open>The background writer\<close>

text \<open>
  One iteration of \<open>auditWriter\<close> with the log it appends to, and the drain that \<open>Close\<close> waits for
  after closing the channel; \<open>app\<close> is the log's \<open>Append\<close>.
\<close>

definition auditWrite :: "(AuditEntry \<Rightarrow> 'l \<Rightarrow> 'e option \<times> 'l) \<Rightarrow> ('s, 'v) Server \<Rightarrow> 'l \<Rightarrow> ('s, 'v) Server \<times> 'l" where
  "auditWrite app s l =
     (case sv_auditCh s of
        [] \<Rightarrow> (s, l)
      | entry # _ \<Rightarrow> (case app entry l of (err, l') \<Rightarrow> (snd (auditWriter (err \<noteq> None) s), l')))"

function Server_Close :: "(AuditEntry \<Rightarrow> 'l \<Rightarrow> 'e option \<times> 'l) \<Rightarrow> ('s, 'v) Server \<Rightarrow> 'l \<Rightarrow> ('s, 'v) Server \<times> 'l" where
  "Server_Close app s l =
     (if sv_auditCh s = [] then (s, l)
      else case auditWrite app s l of (s', l') \<Rightarrow> Server_Close app s' l')"
  by pat_completeness auto

lemma auditWrite_channel:
  "auditWrite app s l = (s', l') \<Longrightarrow> sv_auditCh s' = tl (sv_auditCh s)"
  by (auto simp: auditWrite_def auditWriter_def split: list.splits prod.splits if_splits)

lemma auditWrite_shrinks:
  "auditWrite app s l = (s', l') \<Longrightarrow> sv_auditCh s \<noteq> [] \<Longrightarrow> length (sv_auditCh s') < length (sv_auditCh s)"
  by (simp add: auditWrite_channel)

termination Server_Close
  by (relation "measure (\<lambda>(app, s, l). length (sv_auditCh s))") (auto dest!: sym [of "(_, _)"] intro: auditWrite_shrinks)

declare Server_Close.simps [simp del]

lemma Server_Close_unfold:
  "sv_auditCh s = [] \<Longrightarrow> Server_Close app s l = (s, l)"
  "sv_auditCh s \<noteq> [] \<Longrightarrow> auditWrite app s l = (s1, l1) \<Longrightarrow> Server_Close app s l = Server_Close app s1 l1"
  by (simp_all add: Server_Close.simps [of app s])

text \<open>What every write keeps, \<open>Close\<close> keeps.\<close>

lemma Server_Close_invariant:
  assumes step: "\<And>s l s' l'. Q s l \<Longrightarrow> auditWrite app s l = (s', l') \<Longrightarrow> Q s' l'"
    and "Server_Close app s l = (s', l')" "Q s l"
  shows "Q s' l' \<and> sv_auditCh s' = []"
  using assms(2,3)
proof (induction "length (sv_auditCh s)" arbitrary: s l)
  case 0
  then show ?case by (simp add: Server_Close_unfold)
next
  case (Suc n)
  then have ne: "sv_auditCh s \<noteq> []" by auto
  obtain s1 l1 where w: "auditWrite app s l = (s1, l1)" by fastforce
  have n: "n = length (sv_auditCh s1)" using auditWrite_channel [OF w] Suc.hyps(2) by simp
  from Suc.hyps(1) [OF n] Suc.prems step [OF _ w] Server_Close_unfold(2) [OF ne w] show ?case by simp
qed

section \<open>The violation database represents its history\<close>

abbreviation viol_key :: "Violation \<Rightarrow> bytes" where
  "viol_key v \<equiv> bytes_of_string (viol_ID v)"

definition viol_rep :: "('b \<Rightarrow> (bytes \<rightharpoonup> bytes)) \<Rightarrow> Violation jsonCodec \<Rightarrow> 'b boltDB \<Rightarrow> Violation list \<Rightarrow> bool" where
  "viol_rep bmap J db h \<longleftrightarrow>
     (\<exists>V T. db violationsBucket = Some V \<and> db violationsByTxBucket = Some T \<and>
        bmap V = (\<lambda>k. Option.bind (find (\<lambda>v. viol_key v = k) (rev h)) (js_Marshal J)) \<and>
        bmap T = (\<lambda>k. map_option viol_key (find (\<lambda>v. bytes_of_string (viol_TransactionID v) = k) (rev h)))) \<and>
     (\<forall>v\<in>set h. js_Marshal J v \<noteq> None)"

lemma violation_bucket_names [simp]: "violationsBucket \<noteq> violationsByTxBucket" "violationsByTxBucket \<noteq> violationsBucket"
  by (simp_all add: violationsBucket_def violationsByTxBucket_def)

locale bolt_violations = bolt_db B bmap bseq
  for B :: "'b boltOps" and bmap and bseq +
  fixes J :: "Violation jsonCodec"
  assumes viol_roundtrip: "js_Marshal J v = Some d \<Longrightarrow> js_Unmarshal J d = Some v"
begin

lemma viol_rep_append:
  assumes "viol_rep bmap J db h" "BoltViolation_Append B J v db = (e, db')"
  shows "case e of None \<Rightarrow> viol_rep bmap J db' (h @ [v]) | Some _ \<Rightarrow> db' = db"
proof (cases e)
  case (Some x)
  with assms(2) show ?thesis by (auto simp: BoltViolation_Append_def db_Update_def split: option.splits prod.splits if_splits)
next
  case None
  with assms(2) obtain d V T V' T' where m: "js_Marshal J v = Some d" and db: "db violationsBucket = Some V" "db violationsByTxBucket = Some T"
    and p: "bo_put B (viol_key v) d V = Some V'" "bo_put B (bytes_of_string (viol_TransactionID v)) (viol_key v) T = Some T'"
    and db': "db' = db(violationsBucket \<mapsto> V', violationsByTxBucket \<mapsto> T')"
    by (auto simp: BoltViolation_Append_def db_Update_def split: option.splits prod.splits if_splits)
  from assms(1) db have r: "bmap V = (\<lambda>k. Option.bind (find (\<lambda>v. viol_key v = k) (rev h)) (js_Marshal J))"
    "bmap T = (\<lambda>k. map_option viol_key (find (\<lambda>v. bytes_of_string (viol_TransactionID v) = k) (rev h)))"
    "\<forall>v\<in>set h. js_Marshal J v \<noteq> None" by (auto simp: viol_rep_def)
  have "bmap V' = (\<lambda>k. Option.bind (find (\<lambda>v. viol_key v = k) (rev (h @ [v]))) (js_Marshal J))"
    using put [OF p(1)] r(1) m by (auto simp: fun_eq_iff)
  moreover have "bmap T' = (\<lambda>k. map_option viol_key (find (\<lambda>v. bytes_of_string (viol_TransactionID v) = k) (rev (h @ [v]))))"
    using put [OF p(2)] r(2) by (auto simp: fun_eq_iff)
  ultimately show ?thesis using None r(3) m db' by (simp add: viol_rep_def)
qed

lemma viol_rep_getByID:
  assumes "viol_rep bmap J db h"
  shows "BoltViolation_GetByID B J i db = (if bo_begin B db then Inr (find (\<lambda>v. viol_ID v = i) (rev h)) else Inl (faultName FaultBegin))"
proof -
  from assms obtain V where V: "db violationsBucket = Some V"
    "bmap V = (\<lambda>k. Option.bind (find (\<lambda>v. viol_key v = k) (rev h)) (js_Marshal J))" "\<forall>v\<in>set h. js_Marshal J v \<noteq> None"
    by (auto simp: viol_rep_def)
  have "bmap V (bytes_of_string i) = Option.bind (find (\<lambda>v. viol_ID v = i) (rev h)) (js_Marshal J)"
    by (simp add: V(2) bytes_of_string_inj)
  then have *: "bo_get B (bytes_of_string i) V = Option.bind (find (\<lambda>v. viol_ID v = i) (rev h)) (js_Marshal J)" by (simp add: get)
  show ?thesis
  proof (cases "find (\<lambda>v. viol_ID v = i) (rev h)")
    case (Some v)
    with V(3) obtain d where "js_Marshal J v = Some d" using find_member [OF Some] by auto
    with Some * V(1) viol_roundtrip [of v d] show ?thesis by (simp add: BoltViolation_GetByID_def GetByKey_def db_View_def)
  qed (use * V(1) in \<open>simp add: BoltViolation_GetByID_def GetByKey_def db_View_def\<close>)
qed

lemma viol_rep_getByTxID:
  assumes "viol_rep bmap J db h" "distinct (map viol_ID h)"
  shows "BoltViolation_GetByTxID B J t db =
    (if bo_begin B db then Inr (find (\<lambda>v. viol_TransactionID v = t) (rev h)) else Inl (faultName FaultBegin))"
proof -
  from assms(1) obtain V T where V: "db violationsBucket = Some V" "db violationsByTxBucket = Some T"
    "bmap V = (\<lambda>k. Option.bind (find (\<lambda>v. viol_key v = k) (rev h)) (js_Marshal J))"
    "bmap T = (\<lambda>k. map_option viol_key (find (\<lambda>v. bytes_of_string (viol_TransactionID v) = k) (rev h)))"
    and m: "\<forall>v\<in>set h. js_Marshal J v \<noteq> None" by (auto simp: viol_rep_def)
  have T: "bo_get B (bytes_of_string t) T = map_option viol_key (find (\<lambda>v. viol_TransactionID v = t) (rev h))"
    by (simp add: get V(4) bytes_of_string_inj)
  show ?thesis
  proof (cases "find (\<lambda>v. viol_TransactionID v = t) (rev h)")
    case (Some v)
    then have v: "v \<in> set (rev h)" by (auto dest: find_member)
    have "distinct (map viol_key (rev h))" using assms(2) by (auto simp: rev_map distinct_map inj_on_def bytes_of_string_inj)
    from find_unique [OF this v] have g: "bo_get B (viol_key v) V = js_Marshal J v" by (simp add: get V(3))
    from m v obtain d where d: "js_Marshal J v = Some d" by auto
    with Some T g V(1,2) viol_roundtrip [OF d] show ?thesis by (simp add: BoltViolation_GetByTxID_def GetViaIndex_def db_View_def)
  qed (use T V(2) in \<open>simp add: BoltViolation_GetByTxID_def GetViaIndex_def db_View_def\<close>)
qed

lemma viol_rep_reads:
  assumes "viol_rep bmap J db h" "distinct (map viol_ID h)" "bo_begin B db"
  shows "\<exists>vs. BoltViolation_List B J db = Inr vs \<and> mset vs = mset h" "BoltViolation_Count B db = Inr (length h)"
proof -
  from assms(1) obtain V where V: "db violationsBucket = Some V"
    "bmap V = (\<lambda>k. Option.bind (find (\<lambda>v. viol_key v = k) (rev h)) (js_Marshal J))"
    and m: "\<forall>v\<in>set (rev h). js_Marshal J v \<noteq> None" by (auto simp: viol_rep_def)
  have dk: "distinct (map viol_key (rev h))" using assms(2) by (auto simp: rev_map distinct_map inj_on_def bytes_of_string_inj)
  from ListAll_decodes [OF V(1) assms(3) V(2) m dk viol_roundtrip] show "\<exists>vs. BoltViolation_List B J db = Inr vs \<and> mset vs = mset h"
    by (auto simp: BoltViolation_List_def)
  have "bmap V k = None \<longleftrightarrow> find (\<lambda>v. viol_key v = k) (rev h) = None" for k
    using m by (cases "find (\<lambda>v. viol_key v = k) (rev h)") (auto simp: V(2) dest: find_member)
  from CountKeys_length [where db = db and R = V and key = viol_key, OF V(1) assms(3) dk this]
  show "BoltViolation_Count B db = Inr (length h)" by (simp add: BoltViolation_Count_def)
qed

lemma viol_read_live:
  "BoltViolation_List B J db = Inr vs \<Longrightarrow> bo_begin B db" "BoltViolation_Count B db = Inr n \<Longrightarrow> bo_begin B db"
  by (auto simp: BoltViolation_List_def ListAll_def BoltViolation_Count_def CountKeys_def db_View_def split: if_splits)

lemma viol_open:
  assumes "NewBoltViolationStore B opens db = (e, db')" "viol_rep bmap J db h \<or> db = Map.empty \<and> h = []"
  shows "viol_rep bmap J db' h \<or> db' = Map.empty \<and> h = []" "e = None \<Longrightarrow> viol_rep bmap J db' h"
proof -
  let ?c = "createBuckets B [violationsBucket, violationsByTxBucket] db"
  from assms(1) have d: "db' = db \<and> e \<noteq> None \<or> db' = ?c"
    by (auto simp: NewBoltViolationStore_def OpenAndInit_def db_Update_def simp del: createBuckets.simps split: if_splits option.splits)
  have "viol_rep bmap J ?c h"
    using assms(2)
  proof
    assume r: "viol_rep bmap J db h"
    then have "?c = db" by (intro createBuckets_id) (auto simp: viol_rep_def)
    with r show ?thesis by simp
  next
    assume "db = Map.empty \<and> h = []"
    with newBucket show ?thesis by (simp add: viol_rep_def fun_eq_iff)
  qed
  with d assms(2) show "viol_rep bmap J db' h \<or> db' = Map.empty \<and> h = []" "e = None \<Longrightarrow> viol_rep bmap J db' h" by auto
qed

end

sublocale bolt_violations \<subseteq> vdurable: indexed_violations "BoltViolationOps B J" snd "\<lambda>s. viol_rep bmap J (fst s) (snd s)"
proof unfold_locales
  fix s v s'
  assume "vst_Append (BoltViolationOps B J) v s = (None, s')"
  then show "snd s' = snd s @ [v]" by (auto simp: BoltViolationOps_def split: prod.splits option.splits)
next
  fix s v e s'
  assume "vst_Append (BoltViolationOps B J) v s = (Some e, s')"
  then show "snd s' = snd s" by (auto simp: BoltViolationOps_def split: prod.splits option.splits)
next
  fix s v e s'
  assume r: "viol_rep bmap J (fst s) (snd s)" and a: "vst_Append (BoltViolationOps B J) v s = (e, s')"
  obtain e' db' where b: "BoltViolation_Append B J v (fst s) = (e', db')" by fastforce
  with a have "s' = (db', snd s @ [v]) \<and> e' = None \<or> s' = (db', snd s) \<and> e' \<noteq> None"
    by (auto simp: BoltViolationOps_def split: prod.splits option.splits)
  with viol_rep_append [OF r b] r show "viol_rep bmap J (fst s') (snd s')" by auto
next
  fix s vs
  assume "viol_rep bmap J (fst s) (snd s)" "distinct (map viol_ID (snd s))" "vst_List (BoltViolationOps B J) s = Inr vs"
  moreover from this have l: "BoltViolation_List B J (fst s) = Inr vs" by (simp add: BoltViolationOps_def split: prod.splits)
  ultimately show "mset vs = mset (snd s)" using viol_rep_reads(1) [of "fst s" "snd s"] viol_read_live(1) [OF l] by auto
next
  fix s n
  assume "viol_rep bmap J (fst s) (snd s)" "distinct (map viol_ID (snd s))" "vst_Count (BoltViolationOps B J) s = Inr n"
  moreover from this have l: "BoltViolation_Count B (fst s) = Inr n" by (simp add: BoltViolationOps_def split: prod.splits)
  ultimately show "n = length (snd s)" using viol_rep_reads(2) [of "fst s" "snd s"] viol_read_live(2) [OF l] by auto
qed (auto simp: BoltViolationOps_def viol_rep_getByID viol_rep_getByTxID split: prod.splits if_splits)

interpretation refviol: bolt_violations refBolt refMap snd "listCodec vs" for vs
  by unfold_locales (rule listCodec_roundtrip)

section \<open>The audit log represents its history\<close>

definition seqKey :: "nat \<Rightarrow> bytes" where
  "seqKey i = PutUint64 (word_of_nat (Suc i))"

definition audit_rep :: "'b boltOps \<Rightarrow> ('b \<Rightarrow> uint64) \<Rightarrow> AuditEntry jsonCodec \<Rightarrow> 'b boltDB \<Rightarrow> AuditEntry list \<Rightarrow> bool" where
  "audit_rep B bseq J db h \<longleftrightarrow> length h < 2 ^ 64 \<and>
     (\<exists>b ds. db auditBucket = Some b \<and> bseq b = word_of_nat (length h) \<and> map (js_Marshal J) h = map Some ds \<and>
        bo_walk B b = zip (map seqKey [0..<length h]) ds)"

lemma seqKey_less: "i < j \<Longrightarrow> Suc j < 2 ^ 64 \<Longrightarrow> seqKey i < seqKey j"
  by (simp add: seqKey_def word_less_nat_alt unat_of_nat del: of_nat_Suc)

lemma auditLoop_spec:
  assumes "list_all2 (\<lambda>kv e. js_Unmarshal J (snd kv) = Some e) kvs es"
  shows "auditLoop J offset limit i acc kvs = Inr (acc @ take (nat limit - length acc) (drop (nat (offset - i)) es))"
  using assms
proof (induction kvs es arbitrary: i acc rule: list_all2_induct)
  case (Cons kv kvs e es)
  obtain k v where kv: "kv = (k, v)" by (cases kv)
  consider "i < offset" | "\<not> i < offset" "limit \<le> int (length acc)" | "\<not> i < offset" "int (length acc) < limit" by linarith
  then show ?case
  proof cases
    case 1
    then have "nat (offset - i) = Suc (nat (offset - (i + 1)))" by simp
    with 1 kv Cons.IH [of "i + 1" acc] show ?thesis by simp
  next
    case 2
    with kv show ?thesis by simp
  next
    case 3
    then have "nat limit - length acc = Suc (nat limit - length (acc @ [e]))" "nat (offset - i) = 0" "nat (offset - (i + 1)) = 0" by simp_all
    with 3 kv Cons.hyps(1) Cons.IH [of "i + 1" "acc @ [e]"] show ?thesis by simp
  qed
qed simp

text \<open>What the server's writer relies on: an append that succeeds adds its entry at the end, one that fails adds nothing.\<close>

locale audit_sink =
  fixes app :: "AuditEntry \<Rightarrow> 'l \<Rightarrow> 'e option \<times> 'l" and log_inv :: "'l \<Rightarrow> bool" and entries :: "'l \<Rightarrow> AuditEntry list"
  assumes log_ok: "log_inv l \<Longrightarrow> Suc (length (entries l)) < 2 ^ 64 \<Longrightarrow> app x l = (None, l') \<Longrightarrow> log_inv l' \<and> entries l' = entries l @ [x]"
    and log_err: "log_inv l \<Longrightarrow> app x l = (Some e, l') \<Longrightarrow> l' = l"

locale bolt_audit = bolt_db B bmap bseq
  for B :: "'b boltOps" and bmap and bseq +
  fixes J :: "AuditEntry jsonCodec"
  assumes audit_roundtrip: "js_Marshal J x = Some d \<Longrightarrow> js_Unmarshal J d = Some x"
begin

lemma audit_rep_append:
  assumes "audit_rep B bseq J db h" "Audit_Append B J x db = (e, db')" "Suc (length h) < 2 ^ 64"
  shows "case e of None \<Rightarrow> audit_rep B bseq J db' (h @ [x]) | Some _ \<Rightarrow> db' = db"
proof (cases e)
  case (Some f)
  with assms(2) show ?thesis by (auto simp: Audit_Append_def db_Update_def split: option.splits prod.splits if_splits)
next
  case None
  from assms(1) obtain b ds where b: "db auditBucket = Some b" "bseq b = word_of_nat (length h)" "map (js_Marshal J) h = map Some ds"
    "bo_walk B b = zip (map seqKey [0..<length h]) ds" by (auto simp: audit_rep_def)
  from None assms(2) b(1) obtain d q b1 b2 where m: "js_Marshal J x = Some d" and q: "bo_nextSequence B b = Some (q, b1)"
    and p: "bo_put B (PutUint64 q) d b1 = Some b2" and db': "db' = db(auditBucket \<mapsto> b2)"
    by (auto simp: Audit_Append_def db_Update_def split: option.splits prod.splits if_splits)
  from sequence [OF q] b(2) have s: "q = word_of_nat (Suc (length h))" "bseq b1 = q" "bmap b1 = bmap b" by simp_all
  then have k: "PutUint64 q = seqKey (length h)" by (simp add: seqKey_def)
  from put [OF p] s k have p2: "bmap b2 = (bmap b)(seqKey (length h) \<mapsto> d)" "bseq b2 = word_of_nat (Suc (length h))" by simp_all
  have l: "length ds = length h" using b(3) by (metis length_map)
  have less: "seqKey i < seqKey (length h)" if "i < length h" for i using that assms(3) by (intro seqKey_less) simp_all
  have "bo_walk B b2 = zip (map seqKey [0..<length h]) ds @ [(seqKey (length h), d)]" (is "_ = ?w")
  proof (rule walk_unique)
    have sorted: "sorted_wrt (<) (map seqKey [0..<length h])"
      using walk_sorted [of b] by (simp add: b(4) l map_fst_zip)
    show "sorted_wrt (<) (map fst ?w)" using sorted less by (simp add: l map_fst_zip sorted_wrt_append)
    have "seqKey (length h) \<notin> fst ` set (bo_walk B b)" using less by (force simp: b(4) set_zip l)
    then have "bmap b (seqKey (length h)) = None" by (simp add: walk_map [symmetric] map_of_eq_None_iff)
    then show "map_of ?w = bmap b2"
      using walk_map [of b] by (auto simp: p2 b(4) map_add_def fun_eq_iff split: option.split)
  qed
  with p2 b(3) m db' l assms(3) None show ?thesis
    by (auto simp: audit_rep_def intro!: exI [of _ "ds @ [d]"] simp del: of_nat_Suc)
qed

lemma audit_walk_decodes:
  assumes "map (js_Marshal J) h = map Some ds" "length ks = length h"
  shows "list_all2 (\<lambda>kv e. js_Unmarshal J (snd kv) = Some e) (zip ks ds) h"
proof -
  have l: "length ds = length h" using assms(1) by (metis length_map)
  have "js_Marshal J (h ! i) = Some (ds ! i)" if "i < length h" for i using assms(1) l that by (metis nth_map)
  with l assms(2) audit_roundtrip show ?thesis by (auto simp: list_all2_conv_all_nth)
qed

lemma audit_rep_list:
  assumes "audit_rep B bseq J db h"
  shows "Audit_List B J offset limit db =
    (if bo_begin B db then Inr (take (nat limit) (drop (nat offset) h)) else Inl FaultBegin)"
proof -
  from assms obtain b ds where b: "db auditBucket = Some b" "map (js_Marshal J) h = map Some ds"
    "bo_walk B b = zip (map seqKey [0..<length h]) ds" by (auto simp: audit_rep_def)
  from auditLoop_spec [OF audit_walk_decodes [OF b(2), of "map seqKey [0..<length h]"], of offset limit 0 "[]"] b(1,3)
  show ?thesis by (simp add: Audit_List_def db_View_def)
qed

lemma audit_rep_count:
  assumes "audit_rep B bseq J db h"
  shows "Audit_Count B db = (if bo_begin B db then Inr (length h) else Inl FaultBegin)"
proof -
  from assms obtain b ds where b: "db auditBucket = Some b" "map (js_Marshal J) h = map Some ds"
    "bo_walk B b = zip (map seqKey [0..<length h]) ds" by (auto simp: audit_rep_def)
  from b(2) have "length ds = length h" by (metis length_map)
  with b(1,3) show ?thesis by (simp add: Audit_Count_def db_View_def keyN)
qed

lemma audit_open:
  assumes "NewAuditLog B opens db = (e, db')" "audit_rep B bseq J db h \<or> db = Map.empty \<and> h = []"
  shows "audit_rep B bseq J db' h \<or> db' = Map.empty \<and> h = []" "e = None \<Longrightarrow> audit_rep B bseq J db' h"
proof -
  have "audit_rep B bseq J (Map.empty(auditBucket \<mapsto> bo_newBucket B)) []"
    using newBucket walk_empty by (simp add: audit_rep_def)
  with assms show "audit_rep B bseq J db' h \<or> db' = Map.empty \<and> h = []" "e = None \<Longrightarrow> audit_rep B bseq J db' h"
    by (auto simp: NewAuditLog_def db_Update_def audit_rep_def split: if_splits)
qed

end

sublocale bolt_audit \<subseteq> sink: audit_sink "auditSink B J" "\<lambda>s. audit_rep B bseq J (fst s) (snd s)" snd
proof unfold_locales
  fix l l' x
  assume i: "audit_rep B bseq J (fst l) (snd l)" "Suc (length (snd l)) < 2 ^ 64" and a: "auditSink B J x l = (None, l')"
  then have "Audit_Append B J x (fst l) = (None, fst l')" "snd l' = snd l @ [x]"
    by (auto simp: auditSink_def split: prod.splits option.splits)
  with audit_rep_append [OF i(1) this(1) i(2)] show "audit_rep B bseq J (fst l') (snd l') \<and> snd l' = snd l @ [x]" by simp
next
  fix l l' x e
  assume "auditSink B J x l = (Some e, l')"
  then have "Audit_Append B J x (fst l) = (Some e, fst l')" "snd l' = snd l"
    by (auto simp: auditSink_def split: prod.splits option.splits)
  then show "l' = l" by (auto simp: prod_eq_iff Audit_Append_def db_Update_def split: option.splits prod.splits if_splits)
qed

interpretation refaudit: bolt_audit refBolt refMap snd "listCodec es" for es
  by unfold_locales (rule listCodec_roundtrip)

section \<open>Which requests leave an audit entry\<close>

text \<open>The part of the server that audit entries pass through, and what one entry does to it.\<close>

definition trail :: "('s, 'v) Server \<Rightarrow> AuditEntry list \<times> uint64" where
  "trail s = (sv_auditCh s, sv_auditFailures s)"

definition auditPush :: "AuditEntry \<Rightarrow> AuditEntry list \<times> uint64 \<Rightarrow> AuditEntry list \<times> uint64" where
  "auditPush x t = (if length (fst t) < auditCapacity then (fst t @ [x], snd t) else (fst t, snd t + 1))"

definition follows :: "AuditEntry list \<times> uint64 \<Rightarrow> AuditEntry list \<times> uint64 \<Rightarrow> bool" where
  "follows t t' \<longleftrightarrow> (\<exists>evs. t' = fold auditPush evs t)"

definition audited :: "string \<Rightarrow> AuditEntry list \<times> uint64 \<Rightarrow> AuditEntry list \<times> uint64 \<Rightarrow> bool" where
  "audited ty t t' \<longleftrightarrow> (\<exists>evs x. au_EventType x = ty \<and> t' = fold auditPush (evs @ [x]) t)"

text \<open>A handler leaves an entry of its type unless it panics.\<close>

definition leaves_entry :: "string \<Rightarrow> ('s, 'v) Server \<Rightarrow> Response \<times> ('s, 'v) Server \<Rightarrow> bool" where
  "leaves_entry ty s res \<longleftrightarrow> follows (trail s) (trail (snd res)) \<and> (fst res \<noteq> RPanic \<longrightarrow> audited ty (trail s) (trail (snd res)))"

lemma trail_audit [simp]: "trail (audit ty det now s) = auditPush \<lparr>au_Timestamp = now, au_EventType = ty, au_Details = det\<rparr> (trail s)"
  by (simp add: trail_def audit_def auditPush_def)

lemma trail_frame [simp]:
  "trail (s\<lparr>sv_checkers := c\<rparr>) = trail s" "trail (s\<lparr>sv_detector := d\<rparr>) = trail s" "trail (s\<lparr>sv_engine := e\<rparr>) = trail s"
  "trail (s\<lparr>sv_generator := g, sv_receipts := r\<rparr>) = trail s" "trail (s\<lparr>sv_generator := g, sv_keyfs := f\<rparr>) = trail s"
  by (simp_all add: trail_def)

lemma follows_refl [simp]: "follows t t"
  unfolding follows_def by (rule exI [of _ "[]"]) simp

lemma follows_push [simp]: "follows t t' \<Longrightarrow> follows t (auditPush x t')"
proof -
  assume "follows t t'"
  then obtain evs where "t' = fold auditPush evs t" by (auto simp: follows_def)
  then show ?thesis unfolding follows_def by (intro exI [of _ "evs @ [x]"]) simp
qed

lemma audited_push [simp]: "follows t t' \<Longrightarrow> au_EventType x = ty \<Longrightarrow> audited ty t (auditPush x t')"
  unfolding follows_def audited_def by (auto intro!: exI [of _ x])

lemma leaves_entry_audit [simp]:
  "follows (trail s) (trail s1) \<Longrightarrow> leaves_entry ty s (r, audit ty det now s1)"
  "follows (trail s) (trail s1) \<Longrightarrow> leaves_entry ''settle'' s (r, settleAuditError i c x now s1)"
  "follows (trail s) (trail s1) \<Longrightarrow> leaves_entry ty s (RPanic, s1)"
  by (simp_all add: leaves_entry_def settleAuditError_def)

lemma issueReceipt_trail: "issueReceipt D uid now i p path s = (x, s') \<Longrightarrow> trail s' = trail s"
  by (auto simp: issueReceipt_def split: prod.splits)

lemma ensure_trail: "ensureSettlementReceipt D env i p raw path s = (x, s') \<Longrightarrow> follows (trail s) (trail s')"
  by (auto simp: ensureSettlementReceipt_def auditReceiptPersistenceFailure_def Let_def
      dest!: issueReceipt_trail split: sum.splits prod.splits if_splits option.splits)

lemma existing_leaves_entry: "leaves_entry ''settle'' s (handleExistingSettlement D env ex req d path s)"
  by (auto simp: handleExistingSettlement_def Let_def dest: ensure_trail
      split: sum.split prod.split TxStatus.split LegacyPathFault.split)

lemma compliant_leaves_entry: "leaves_entry ''settle'' s (settleCompliant D env req i d path s)"
proof -
  have "leaves_entry ''settle'' s (handleExistingSettlement D env ex req d path' (s\<lparr>sv_engine := ce\<rparr>))" for ex path' ce
    using existing_leaves_entry [of "s\<lparr>sv_engine := ce\<rparr>" D env ex req d path'] by (simp add: leaves_entry_def)
  then show ?thesis
    by (auto simp: settleCompliant_def Let_def dest!: ensure_trail split: sum.split prod.split RoundOutcome.split)
qed

lemma settle_leaves_entry: "leaves_entry ''settle'' s (handleSettle D env body s)"
proof -
  have "leaves_entry ''settle'' s (settleCompliant D env req i d path (s\<lparr>sv_checkers := c\<rparr>))" for req i d path c
    using compliant_leaves_entry [of "s\<lparr>sv_checkers := c\<rparr>" D env req i d path] by (simp add: leaves_entry_def)
  then show ?thesis
    by (simp add: handleSettle_def Let_def existing_leaves_entry split: option.split sum.split prod.split)
qed

lemma check_leaves_entry: "leaves_entry ''check'' s (handleCheck D env body s)"
  by (auto simp: handleCheck_def auditReceiptPersistenceFailure_def Let_def
      dest!: issueReceipt_trail split: option.split sum.split prod.split)

lemma filter_leaves_entry: "leaves_entry ''filter'' s (handleFilterPaths env body s)"
  by (simp add: handleFilterPaths_def Let_def split: option.split)

lemma rotate_leaves_entry:
  "follows (trail s) (trail (snd (handleRotateKey D env a s)))"
  "sv_generator (snd (handleRotateKey D env a s)) \<noteq> sv_generator s \<Longrightarrow>
    audited ''oracle_key_rotation'' (trail s) (trail (snd (handleRotateKey D env a s)))"
  by (auto simp: handleRotateKey_def Let_def split: sum.split prod.split option.split)

lemma Handler_trail: "follows (trail s) (trail (snd (Handler D env req s)))"
proof -
  have "follows (trail s) (trail (snd (routes D env req s)))"
    using settle_leaves_entry [of s D env] check_leaves_entry [of s D env] filter_leaves_entry [of s env] rotate_leaves_entry(1) [of s D env]
    by (cases "rq_Call req") (simp_all add: routes_def leaves_entry_def)
  then show ?thesis
    by (auto simp: Handler_def recoveryMiddleware_def bearerAuthMiddleware_def split: prod.split)
qed

section \<open>Every entry is written, waiting or counted\<close>

text \<open>
  The life of the audit trail: requests emit entries, the writer moves them to the log, and other
  steps of the server leave the trail alone.  \<open>evs\<close> are the entries emitted so far.
\<close>

inductive audit_life ::
  "('s, 'v) deps \<Rightarrow> (AuditEntry \<Rightarrow> 'l \<Rightarrow> 'e option \<times> 'l) \<Rightarrow> ('s, 'v) Server \<Rightarrow> 'l \<Rightarrow> AuditEntry list \<Rightarrow> ('s, 'v) Server \<Rightarrow> 'l \<Rightarrow> bool"
  for D app s0 l0 where
  audit_start: "audit_life D app s0 l0 [] s0 l0"
| audit_request: "audit_life D app s0 l0 evs s l \<Longrightarrow> trail (snd (Handler D env req s)) = fold auditPush new (trail s) \<Longrightarrow>
    audit_life D app s0 l0 (evs @ new) (snd (Handler D env req s)) l"
| audit_write: "audit_life D app s0 l0 evs s l \<Longrightarrow> auditWrite app s l = (s', l') \<Longrightarrow> audit_life D app s0 l0 evs s' l'"
| audit_other: "audit_life D app s0 l0 evs s l \<Longrightarrow> trail s' = trail s \<Longrightarrow> audit_life D app s0 l0 evs s' l"

text \<open>No request falls outside this relation.\<close>

lemma audit_life_total:
  "audit_life D app s0 l0 evs s l \<Longrightarrow> \<exists>new. audit_life D app s0 l0 (evs @ new) (snd (Handler D env req s)) l"
  using Handler_trail [of s D env req] unfolding follows_def by (blast intro: audit_request)

definition accounts :: "AuditEntry list \<Rightarrow> AuditEntry list \<Rightarrow> AuditEntry list \<Rightarrow> AuditEntry list \<times> uint64 \<Rightarrow> bool" where
  "accounts h0 evs h t \<longleftrightarrow>
     (\<exists>kept. h = h0 @ kept \<and> subseq (kept @ fst t) evs \<and> length kept + length (fst t) + unat (snd t) = length evs)"

lemma unat_suc: "unat (n :: uint64) + 1 < 2 ^ 64 \<Longrightarrow> unat (n + 1) = unat n + 1"
  by (simp add: unat_word_ariths)

lemma accounts_push:
  assumes "accounts h0 evs h t" "Suc (length evs) < 2 ^ 64"
  shows "accounts h0 (evs @ [x]) h (auditPush x t)"
proof -
  from assms(1) obtain kept where k: "h = h0 @ kept" "subseq (kept @ fst t) evs" "length kept + length (fst t) + unat (snd t) = length evs"
    by (auto simp: accounts_def)
  have "subseq ((kept @ fst t) @ [x]) (evs @ [x])" using k(2) by (intro list_emb_append_mono) simp_all
  moreover have "subseq (kept @ fst t) (evs @ [x])" using k(2) by (rule list_emb_prefix)
  moreover have "unat (snd t + 1) = unat (snd t) + 1" using k(3) assms(2) by (intro unat_suc) simp
  ultimately show ?thesis using k by (auto simp: accounts_def auditPush_def)
qed

lemma accounts_pushes:
  "accounts h0 evs h t \<Longrightarrow> length evs + length new < 2 ^ 64 \<Longrightarrow> accounts h0 (evs @ new) h (fold auditPush new t)"
proof (induction new arbitrary: evs t)
  case (Cons x new)
  from accounts_push [OF Cons.prems(1), of x] Cons.prems(2) have "accounts h0 (evs @ [x]) h (auditPush x t)" by simp
  from Cons.IH [OF this] Cons.prems(2) show ?case by simp
qed simp

context audit_sink
begin

lemma write_accounts:
  assumes "log_inv l" "accounts h0 evs (entries l) (trail s)" "auditWrite app s l = (s', l')" "length h0 + length evs < 2 ^ 64 - 1"
  shows "log_inv l' \<and> accounts h0 evs (entries l') (trail s')"
proof (cases "sv_auditCh s")
  case Nil
  with assms show ?thesis by (simp add: auditWrite_def)
next
  case (Cons x rest)
  obtain err where a: "app x l = (err, l')" and s': "s' = snd (auditWriter (err \<noteq> None) s)"
    using assms(3) Cons by (auto simp: auditWrite_def split: prod.splits)
  from assms(2) Cons obtain kept where k: "entries l = h0 @ kept" "subseq (kept @ x # rest) evs"
    "length kept + Suc (length rest) + unat (sv_auditFailures s) = length evs"
    by (auto simp: accounts_def trail_def)
  show ?thesis
  proof (cases err)
    case None
    have "Suc (length (entries l)) < 2 ^ 64" using k assms(4) by simp
    from log_ok [OF assms(1) this] a None have l': "log_inv l'" "entries l' = entries l @ [x]" by simp_all
    have "trail s' = (rest, sv_auditFailures s)" using Cons s' None by (simp add: trail_def auditWriter_def)
    with l' k show ?thesis by (auto simp: accounts_def)
  next
    case (Some e)
    from log_err [OF assms(1)] a Some have l': "l' = l" by simp
    have t: "trail s' = (rest, sv_auditFailures s + 1)" using Cons s' Some by (simp add: trail_def auditWriter_def)
    have u: "unat (sv_auditFailures s + 1) = unat (sv_auditFailures s) + 1" using k(3) assms(4) by (intro unat_suc) simp
    have "subseq (kept @ rest) (kept @ x # rest)" by (intro list_emb_append_mono) auto
    with k(2) have "subseq (kept @ rest) evs" by (rule subseq_order.trans [rotated])
    with l' t u k(1,3) assms(1) show ?thesis by (auto simp: accounts_def)
  qed
qed

lemma life_accounts:
  assumes "audit_life D app s0 l0 evs s l" "log_inv l0" "trail s0 = ([], 0)" "length (entries l0) + length evs < 2 ^ 64 - 1"
  shows "log_inv l \<and> accounts (entries l0) evs (entries l) (trail s)"
  using assms(1,4)
proof (induction rule: audit_life.induct)
  case audit_start
  then show ?case using assms(2,3) by (simp add: accounts_def)
next
  case (audit_request evs s l env req new)
  from audit_request.IH audit_request.prems have "log_inv l \<and> accounts (entries l0) evs (entries l) (trail s)" by simp
  with accounts_pushes [of "entries l0" evs "entries l" "trail s" new] audit_request show ?case by simp
next
  case (audit_write evs s l s' l')
  from audit_write.IH [OF audit_write.prems] write_accounts [OF _ _ audit_write.hyps(2) audit_write.prems] show ?case by blast
next
  case (audit_other evs s l s')
  then show ?case by simp
qed

lemma close_accounts:
  assumes "Server_Close app s l = (s', l')" "log_inv l" "accounts h0 evs (entries l) (trail s)" "length h0 + length evs < 2 ^ 64 - 1"
  shows "log_inv l' \<and> accounts h0 evs (entries l') (trail s') \<and> sv_auditCh s' = []"
  using Server_Close_invariant [of "\<lambda>s l. log_inv l \<and> accounts h0 evs (entries l) (trail s)", OF _ assms(1)] write_accounts assms(2-4)
  by blast

end

context bolt_audit
begin

lemma closed_log:
  assumes "audit_rep B bseq J db0 h0" "trail s0 = ([], 0)" "audit_life D (auditSink B J) s0 (db0, h0) evs s l"
    and "Server_Close (auditSink B J) s l = (s', db', h')" "length h0 + length evs < 2 ^ 64 - 1"
  shows "audit_rep B bseq J db' h' \<and> accounts h0 evs h' (trail s') \<and> sv_auditCh s' = []"
proof -
  from sink.life_accounts [OF assms(3) _ assms(2)] assms(1,5)
  have "audit_rep B bseq J (fst l) (snd l) \<and> accounts h0 evs (snd l) (trail s)" by simp
  with sink.close_accounts [OF assms(4), of h0 evs] assms(5) show ?thesis by simp
qed

end

section \<open>Properties of the durable violation store and the audit trail\<close>

text \<open>
  C23. \<open>BoltViolationStore\<close> simulates \<open>MemoryViolationStore\<close>.  Whenever a database represents the
  violations a memory store holds, an append either fails and leaves the database as it was or
  succeeds and database and memory correspond again; a read by identifier that can start returns
  what the memory store returns, and while identifiers are not reused so do the read by
  transaction, the count and (in key order) the list.
\<close>

theorem BoltViolationStore_simulates_memory:
  assumes "bolt_violations B bmap bseq J" and "viol_rep bmap J db (mv_violations m)" and "memv_inv m"
  shows "(case (BoltViolation_Append B J v db, MemoryViolation_Append v m) of ((e, db'), (_, m')) \<Rightarrow>
       e \<noteq> None \<and> db' = db \<or> e = None \<and> viol_rep bmap J db' (mv_violations m') \<and> memv_inv m') \<and>
    (bo_begin B db \<longrightarrow> BoltViolation_GetByID B J i db = MemoryViolation_GetByID i m \<and>
      (distinct (map viol_ID (mv_violations m)) \<longrightarrow> BoltViolation_GetByTxID B J t db = MemoryViolation_GetByTxID t m \<and>
         BoltViolation_Count B db = MemoryViolation_Count m \<and>
         (\<exists>vs. BoltViolation_List B J db = Inr vs \<and> mset vs = mset (mv_violations m))))"
proof (intro conjI impI)
  obtain e db' where b: "BoltViolation_Append B J v db = (e, db')" by fastforce
  obtain x m' where m: "MemoryViolation_Append v m = (x, m')" by fastforce
  then have m': "mv_violations m' = mv_violations m @ [v]" by (auto simp: MemoryViolation_Append_def)
  have "memv_inv m'" using memvi.vkeeps [OF assms(3), of v x m'] m by (simp add: MemoryViolationOps_def)
  with bolt_violations.viol_rep_append [OF assms(1,2) b] m' b m
  show "case (BoltViolation_Append B J v db, MemoryViolation_Append v m) of ((e, db'), (_, m')) \<Rightarrow>
       e \<noteq> None \<and> db' = db \<or> e = None \<and> viol_rep bmap J db' (mv_violations m') \<and> memv_inv m'"
    by (cases e) simp_all
  assume live: "bo_begin B db"
  from assms(3) live show "BoltViolation_GetByID B J i db = MemoryViolation_GetByID i m"
    by (simp add: bolt_violations.viol_rep_getByID [OF assms(1,2)] MemoryViolation_GetByID_def memv_inv_def)
  assume d: "distinct (map viol_ID (mv_violations m))"
  from assms(3) live show "BoltViolation_GetByTxID B J t db = MemoryViolation_GetByTxID t m"
    by (simp add: bolt_violations.viol_rep_getByTxID [OF assms(1,2) d] MemoryViolation_GetByTxID_def memv_inv_def)
  from bolt_violations.viol_rep_reads [OF assms(1,2) d live]
  show "BoltViolation_Count B db = MemoryViolation_Count m"
    "\<exists>vs. BoltViolation_List B J db = Inr vs \<and> mset vs = mset (mv_violations m)" by (simp_all add: MemoryViolation_Count_def)
qed

definition plainViolation :: "string \<Rightarrow> string \<Rightarrow> Violation" where
  "plainViolation i t = \<lparr>viol_ID = i, viol_TransactionID = t, viol_PolicyID = ''p'',
     viol_Path = \<lparr>path_Raw = [], path_Hops = [], path_Fingerprint = '''', path_EvidenceClass = '''', path_ProofStatus = ''''\<rparr>,
     viol_EvidenceClass = '''', viol_ProofStatus = '''', viol_ViolatedClause = NoClause, viol_Severity = ''high'',
     viol_OffendingHops = [], viol_Timestamp = 0\<rparr>"

definition refViolDB :: "((bytes, bytes) rbt \<times> uint64) boltDB" where
  "refViolDB = snd (NewBoltViolationStore refBolt True Map.empty)"

theorem BoltViolationStore_simulates_memory_witness:
  "let v = plainViolation ''v1'' ''t1''; J = listCodec [v]; (e, db) = BoltViolation_Append refBolt J v refViolDB in
     e = None \<and> BoltViolation_GetByTxID refBolt J ''t1'' db = Inr (Some v) \<and> BoltViolation_Count refBolt db = Inr 1"
proof -
  let ?v = "plainViolation ''v1'' ''t1''"
  let ?J = "listCodec [?v]"
  have st: "bolt_violations refBolt refMap snd ?J" by (rule refviol.bolt_violations_axioms)
  obtain e0 where n: "NewBoltViolationStore refBolt True Map.empty = (e0, refViolDB)"
    by (metis prod.collapse refViolDB_def)
  then have "e0 = None" by (auto simp: NewBoltViolationStore_def OpenAndInit_def db_Update_def refBolt_def split: option.splits)
  with bolt_violations.viol_open(2) [OF st n, of "[]"] have rep: "viol_rep refMap ?J refViolDB (mv_violations NewMemoryViolationStore)"
    by (simp add: NewMemoryViolationStore_def)
  obtain e db where b: "BoltViolation_Append refBolt ?J ?v refViolDB = (e, db)" by fastforce
  obtain m where m: "MemoryViolation_Append ?v NewMemoryViolationStore = (None, m)" "mv_violations m = [?v]"
    by (simp add: MemoryViolation_Append_def NewMemoryViolationStore_def)
  have m1: "js_Marshal ?J ?v \<noteq> None" by (simp add: listCodec_def)
  from rep have "e = None"
    using b m1 by (auto simp: viol_rep_def BoltViolation_Append_def db_Update_def refBolt_def plainViolation_def bytes_of_string_def
        split: option.splits if_splits prod.splits)
  with BoltViolationStore_simulates_memory [OF st rep memv_inv_New, of ?v] b m
  have sim: "viol_rep refMap ?J db (mv_violations m)" "memv_inv m" by simp_all
  have "bo_begin refBolt db" by (simp add: refBolt_def)
  with BoltViolationStore_simulates_memory [OF st sim, of ?v "''v1''" "''t1''"] m(2) sim(2) b \<open>e = None\<close> show ?thesis
    by (simp add: MemoryViolation_GetByTxID_def MemoryViolation_Count_def memv_inv_def Let_def)
       (simp add: plainViolation_def)
qed



definition aud_D :: "(MemoryStore, MemoryViolationStore) deps" where
  "aud_D = \<lparr>dp_prims = toy_ed, dp_codec = toy_codec, dp_store = MemoryStoreOps, dp_vstore = MemoryViolationOps, dp_jsSettle = (\<lambda>_. None)\<rparr>"

definition aud_env :: reqEnv where
  "aud_env = \<lparr>e_uuid = (\<lambda>i. ''id'' @ itoa i), e_clk = (\<lambda>_. 5), e_pick = 0, e_faults = no_faults, e_genKey = None, e_tmp = ''tmp'', e_stamp = ''0''\<rparr>"

definition aud_start :: "(MemoryStore, MemoryViolationStore) Server" where
  "aud_start = NewServer [] toy_gen (MockPathExtractor (\<lambda>_. None)) (NewConsensusEngine (NewLedger []) []) NewMemoryStore
     (NewDetector NewMemoryViolationStore) 0 '''' '''' '''' Map.empty"

definition aud_req :: Request where
  "aud_req = \<lparr>rq_Path = ''/api/filter-paths'', rq_Authorization = '''', rq_AdminToken = '''', rq_Call = PostFilterPaths None\<rparr>"

definition aud_entry :: AuditEntry where
  "aud_entry = \<lparr>au_Timestamp = 5, au_EventType = ''filter'',
     au_Details = [(''outcome'', AStr ''error''), (''code'', AStr ''INVALID_REQUEST''), (''error'', AErrorText)]\<rparr>"

lemma aud_trail: "trail aud_start = ([], 0)" "trail (snd (Handler aud_D aud_env aud_req aud_start)) = fold auditPush [aud_entry] (trail aud_start)"
proof -
  show s: "trail aud_start = ([], 0)" by (simp add: trail_def aud_start_def NewServer_def)
  have "sv_apiToken aud_start = ''''" by (simp add: aud_start_def NewServer_def)
  then show "trail (snd (Handler aud_D aud_env aud_req aud_start)) = fold auditPush [aud_entry] (trail aud_start)"
    by (simp add: Handler_def recoveryMiddleware_def bearerAuthMiddleware_def routes_def aud_req_def callPath_def handleFilterPaths_def
        aud_entry_def aud_env_def)
qed



definition refAuditDB :: "((bytes, bytes) rbt \<times> uint64) boltDB" where
  "refAuditDB = snd (NewAuditLog refBolt True Map.empty)"


end
