(* ===== verification/JP_Config.thy ===== *)
theory JP_Config
  imports JP_Prelude
begin

text \<open>
  The configuration of the server program, \<^verbatim>\<open>config/config.go\<close>: reading it from the environment,
  validating it, and loading the validator file.  \<open>getenv\<close> is \<open>os.Getenv\<close> (the empty string for a
  variable that is not set), \<open>stat\<close> tells whether \<open>os.Stat\<close> finds a path; reading a file and
  decoding YAML are parameters.
\<close>

section \<open>Loading from the environment\<close>

record Config =
  cfg_ListenAddr :: string
  cfg_PolicyDir :: string
  cfg_DashboardDir :: string
  cfg_DataDir :: string
  cfg_LogLevel :: string
  cfg_OracleKeyPath :: string
  cfg_TRCDir :: string
  cfg_TLSCert :: string
  cfg_TLSKey :: string
  cfg_AllowInsecure :: bool
  cfg_APIToken :: string
  cfg_AdminToken :: string
  cfg_AllowUnauthAPI :: bool
  cfg_ValidatorsFile :: string
  cfg_SCIONMode :: bool
  cfg_SCIONDaemon :: string
  cfg_ValidatorID :: string
  cfg_ThresholdK :: int
  cfg_ThresholdN :: int

definition envOr :: "(string \<Rightarrow> string) \<Rightarrow> string \<Rightarrow> string \<Rightarrow> string" where
  "envOr getenv key fallback = (let v = getenv key in if v \<noteq> '''' then v else fallback)"

text \<open>\<open>strconv.Atoi\<close>: an optional sign and decimal digits, within the range of a 64-bit \<open>int\<close>.\<close>

definition Atoi :: "string \<Rightarrow> int option" where
  "Atoi s =
     (case s of
        [] \<Rightarrow> None
      | c # cs \<Rightarrow>
          if c = CHR ''-'' then
            (if cs = [] \<or> \<not> list_all is_digit cs \<or> decimal cs > 2 ^ 63 then None else Some (- int (decimal cs)))
          else map_option int (parseUint 63 (if c = CHR ''+'' then cs else s)))"

definition envIntOrInvalid :: "(string \<Rightarrow> string) \<Rightarrow> string \<Rightarrow> int" where
  "envIntOrInvalid getenv key =
     (let v = getenv key in
      if v = '''' then 0 else case Atoi v of None \<Rightarrow> -1 | Some n \<Rightarrow> n)"

definition Load :: "(string \<Rightarrow> string) \<Rightarrow> Config" where
  "Load getenv =
     \<lparr>cfg_ListenAddr = envOr getenv ''JURISPATH_LISTEN'' '':8080'',
      cfg_PolicyDir = envOr getenv ''JURISPATH_POLICY_DIR'' ''policies'',
      cfg_DashboardDir = envOr getenv ''JURISPATH_DASHBOARD_DIR'' ''dashboard'',
      cfg_DataDir = envOr getenv ''JURISPATH_DATA_DIR'' ''data/'',
      cfg_LogLevel = envOr getenv ''JURISPATH_LOG_LEVEL'' ''info'',
      cfg_OracleKeyPath = envOr getenv ''JURISPATH_ORACLE_KEY'' ''data/oracle.key'',
      cfg_TRCDir = getenv ''JURISPATH_TRC_DIR'',
      cfg_TLSCert = getenv ''JURISPATH_TLS_CERT'',
      cfg_TLSKey = getenv ''JURISPATH_TLS_KEY'',
      cfg_AllowInsecure = (getenv ''JURISPATH_INSECURE'' = ''true''),
      cfg_APIToken = getenv ''JURISPATH_API_TOKEN'',
      cfg_AdminToken = getenv ''JURISPATH_ADMIN_TOKEN'',
      cfg_AllowUnauthAPI = (getenv ''JURISPATH_UNAUTHENTICATED_API'' = ''true''),
      cfg_ValidatorsFile = envOr getenv ''JURISPATH_VALIDATORS'' ''validators.yaml'',
      cfg_SCIONMode = (getenv ''JURISPATH_SCION_MODE'' = ''true''),
      cfg_SCIONDaemon = envOr getenv ''JURISPATH_SCION_DAEMON'' ''127.0.0.1:30255'',
      cfg_ValidatorID = getenv ''JURISPATH_VALIDATOR_ID'',
      cfg_ThresholdK = envIntOrInvalid getenv ''JURISPATH_THRESHOLD_K'',
      cfg_ThresholdN = envIntOrInvalid getenv ''JURISPATH_THRESHOLD_N''\<rparr>"

section \<open>Validation\<close>

datatype ConfigError =
    PolicyDirMissing string
  | TLSPairIncomplete
  | TLSCertMissing string
  | TLSKeyMissing string
  | TLSNotConfigured
  | APIAuthNotConfigured
  | ThresholdKNegative
  | ThresholdNNegative
  | ThresholdPairIncomplete
  | ThresholdKExceedsN int int

definition TLSEnabled :: "Config \<Rightarrow> bool" where
  "TLSEnabled c \<longleftrightarrow> cfg_TLSCert c \<noteq> '''' \<and> cfg_TLSKey c \<noteq> ''''"

definition Validate_Config :: "(string \<Rightarrow> bool) \<Rightarrow> Config \<Rightarrow> ConfigError option" where
  "Validate_Config stat c =
     (if \<not> stat (cfg_PolicyDir c) then Some (PolicyDirMissing (cfg_PolicyDir c))
      else if (cfg_TLSCert c \<noteq> '''') \<noteq> (cfg_TLSKey c \<noteq> '''') then Some TLSPairIncomplete
      else if TLSEnabled c \<and> \<not> stat (cfg_TLSCert c) then Some (TLSCertMissing (cfg_TLSCert c))
      else if TLSEnabled c \<and> \<not> stat (cfg_TLSKey c) then Some (TLSKeyMissing (cfg_TLSKey c))
      else if \<not> TLSEnabled c \<and> \<not> cfg_AllowInsecure c then Some TLSNotConfigured
      else if cfg_APIToken c = '''' \<and> \<not> cfg_AllowUnauthAPI c then Some APIAuthNotConfigured
      else if cfg_ThresholdK c < 0 then Some ThresholdKNegative
      else if cfg_ThresholdN c < 0 then Some ThresholdNNegative
      else if (cfg_ThresholdK c = 0) \<noteq> (cfg_ThresholdN c = 0) then Some ThresholdPairIncomplete
      else if cfg_ThresholdK c > cfg_ThresholdN c then Some (ThresholdKExceedsN (cfg_ThresholdK c) (cfg_ThresholdN c))
      else None)"

section \<open>The validator file\<close>

record ValidatorConfig =
  vc_ID :: string
  vc_Address :: string
  vc_Balance :: "string \<rightharpoonup> int64"

datatype 'io ValidatorsError =
    ReadingValidatorsFile 'io
  | ParsingValidatorsFile 'io
  | NoValidators
  | ValidatorWithoutID nat
  | ValidatorWithoutAddress string
  | DuplicateValidatorID string

fun checkValidators :: "nat \<Rightarrow> string set \<Rightarrow> ValidatorConfig list \<Rightarrow> 'io ValidatorsError option" where
  "checkValidators i seen [] = None"
| "checkValidators i seen (v # vs) =
     (if vc_ID v = '''' then Some (ValidatorWithoutID i)
      else if vc_Address v = '''' then Some (ValidatorWithoutAddress (vc_ID v))
      else if vc_ID v \<in> seen then Some (DuplicateValidatorID (vc_ID v))
      else checkValidators (Suc i) (insert (vc_ID v) seen) vs)"

definition LoadValidators ::
  "(string \<Rightarrow> 'io + bytes) \<Rightarrow> (bytes \<Rightarrow> 'io + ValidatorConfig list) \<Rightarrow> string \<Rightarrow> 'io ValidatorsError + ValidatorConfig list" where
  "LoadValidators readFile yamlUnmarshal path =
     (case readFile path of
        Inl e \<Rightarrow> Inl (ReadingValidatorsFile e)
      | Inr data \<Rightarrow>
         (case yamlUnmarshal data of
            Inl e \<Rightarrow> Inl (ParsingValidatorsFile e)
          | Inr validators \<Rightarrow>
              if length validators = 0 then Inl NoValidators
              else case checkValidators 0 {} validators of
                     Some e \<Rightarrow> Inl e
                   | None \<Rightarrow> Inr validators))"

section \<open>What a validated configuration guarantees\<close>

lemma Validate_Config_None_iff:
  "Validate_Config stat c = None \<longleftrightarrow>
     stat (cfg_PolicyDir c) \<and>
     (if cfg_TLSCert c = '''' \<and> cfg_TLSKey c = '''' then cfg_AllowInsecure c
      else cfg_TLSCert c \<noteq> '''' \<and> cfg_TLSKey c \<noteq> '''' \<and> stat (cfg_TLSCert c) \<and> stat (cfg_TLSKey c)) \<and>
     (cfg_APIToken c \<noteq> '''' \<or> cfg_AllowUnauthAPI c) \<and>
     (cfg_ThresholdK c = 0 \<and> cfg_ThresholdN c = 0 \<or> 1 \<le> cfg_ThresholdK c \<and> cfg_ThresholdK c \<le> cfg_ThresholdN c)"
  by (auto simp: Validate_Config_def TLSEnabled_def)

lemma checkValidators_None_iff:
  "checkValidators i seen vs = None \<longleftrightarrow>
     (\<forall>v\<in>set vs. vc_ID v \<noteq> '''' \<and> vc_Address v \<noteq> '''' \<and> vc_ID v \<notin> seen) \<and> distinct (map vc_ID vs)"
  by (induction i seen vs rule: checkValidators.induct) (auto simp: image_iff)

lemma LoadValidators_Inr_iff:
  fixes yaml :: "bytes \<Rightarrow> 'io + ValidatorConfig list"
  shows "LoadValidators readFile yaml path = Inr vs \<longleftrightarrow>
     (\<exists>data. readFile path = Inr data \<and> yaml data = Inr vs) \<and> vs \<noteq> [] \<and>
     (\<forall>v\<in>set vs. vc_ID v \<noteq> '''' \<and> vc_Address v \<noteq> '''') \<and> distinct (map vc_ID vs)"
proof -
  have "(checkValidators 0 {} vs :: 'io ValidatorsError option) = None \<longleftrightarrow>
      (\<forall>v\<in>set vs. vc_ID v \<noteq> '''' \<and> vc_Address v \<noteq> '''') \<and> distinct (map vc_ID vs)" by (simp add: checkValidators_None_iff)
  then show ?thesis by (auto simp: LoadValidators_def split: sum.split option.split)
qed

text \<open>A threshold variable is either unset, a number in range, or makes the validation fail.\<close>

lemma Atoi_bounds: "Atoi s = Some n \<Longrightarrow> - (2 ^ 63) \<le> n \<and> n < 2 ^ 63"
proof -
  assume a: "Atoi s = Some n"
  have p: "parseUint 63 t = Some m \<Longrightarrow> int m < 2 ^ 63" for t m using parseUint_bound [of 63 t m] by simp
  from a show ?thesis
    by (cases s) (auto simp: Atoi_def not_less split: if_splits dest!: p)
qed

lemma Atoi_itoa: "n < 2 ^ 63 \<Longrightarrow> Atoi (itoa n) = Some (int n)"
proof -
  assume n: "n < 2 ^ 63"
  obtain c cs where c: "itoa n = c # cs" by (cases "itoa n") simp_all
  with itoa_digits [of n] have "is_digit c" by simp
  then have "c \<noteq> CHR ''-''" "c \<noteq> CHR ''+''" by (auto simp: is_digit_def)
  with c n parseUint_itoa [of 63 n] show ?thesis by (simp add: Atoi_def)
qed

lemma Atoi_minus_itoa: "n \<le> 2 ^ 63 \<Longrightarrow> Atoi (CHR ''-'' # itoa n) = Some (- int n)"
  using itoa_digits [of n] by (simp add: Atoi_def)

end
