(* ===== verification/JP_Main.thy ===== *)
theory JP_Main
  imports JP_ApiSafety JP_Audit JP_Config JP_Transport
begin

text \<open>
  The server program, \<^verbatim>\<open>cmd/jurispath/main.go\<close>: \<open>runServer\<close> up to the point where the listener is
  handed the handler, with every failure that ends the process as a value, and the life of a
  deployment, in which the process is started, serves, crashes and is started again over the same
  disk.
\<close>

section \<open>What one start of the process meets\<close>

text \<open>
  The environment variables, the files and the outcome of every call of the operating system and of
  the SCION libraries.  \<open>w_scionNetwork\<close> is \<open>NewSCIONNetwork\<close> and \<open>w_listen\<close> is \<open>network.Listen\<close>,
  of which the code uses only the success.
\<close>

record ('io, 'ia, 'as, 'a) World =
  w_getenv :: "string \<Rightarrow> string"
  w_stat :: "string \<Rightarrow> bool"
  w_readDir :: "string \<Rightarrow> 'io + DirEntry list"
  w_readFile :: "string \<Rightarrow> 'io + bytes"
  w_join :: "string \<Rightarrow> string \<Rightarrow> string"
  w_yamlPolicy :: "bytes \<Rightarrow> 'io + Policy"
  w_yamlValidators :: "bytes \<Rightarrow> 'io + ValidatorConfig list"
  w_globTRC :: "string \<Rightarrow> 'io + string list"
  w_decodeTRC :: "bytes \<Rightarrow> 'io + 'as SignedTRC"
  w_asOf :: "'ia \<Rightarrow> 'as"
  w_iaString :: "'ia \<Rightarrow> string"
  w_parseIA :: "string \<Rightarrow> 'ia option"
  w_keyFaults :: os_faults
  w_genKey :: "(bytes \<times> bytes) option"
  w_tmp :: string
  w_thresholdKeys :: "nat \<Rightarrow> (bytes \<times> bytes) option"
  w_udp :: "('a, 'ia) udpAddrOps"
  w_scionNetwork :: "string \<Rightarrow> bool"
  w_listen :: "string \<Rightarrow> bool"
  w_mkdir :: bool
  w_openReceipts :: bool
  w_openViolations :: bool
  w_openAudit :: bool
  w_decodeHops :: "bytes \<Rightarrow> ASHop list option"
  w_now :: time

datatype 'io StartError =
    ConfigInvalid ConfigError
  | LoadingPolicies "'io LoadError"
  | CreatingGenerator KeyError
  | LoadingTRCs "'io TRCError"
  | InitThreshold ThresholdError
  | LoadingValidators "'io ValidatorsError"
  | ValidatorIDRequired
  | InitSCIONNetwork
  | ParsingLocalAddr LocalAddrError
  | ListeningSCION string
  | ParsingPeers string
  | CreatingDataDir
  | OpeningReceiptStore StoreError
  | SeedingChain StoreError
  | OpeningViolationStore string
  | OpeningAuditLog BoltFault

text \<open>What survives the process: the key file and the three databases, each with the auxiliary history of its appends.\<close>

record 'b Disk =
  dk_keyfs :: fsys
  dk_receipts :: "'b boltDB \<times> ComplianceReceipt list"
  dk_violations :: "'b boltDB \<times> Violation list"
  dk_audit :: "'b boltDB \<times> AuditEntry list"

record 'b Codecs =
  cd_receipt :: "ComplianceReceipt jsonCodec"
  cd_violation :: "Violation jsonCodec"
  cd_audit :: "AuditEntry jsonCodec"
  cd_bolt :: "'b boltOps"

section \<open>runServer\<close>

definition selectPathExtractor :: "(bytes \<Rightarrow> ASHop list option) \<Rightarrow> Config \<Rightarrow> PathExtractor" where
  "selectPathExtractor decode c =
     (if cfg_SCIONMode c then NewRejectingPathExtractor '''' else MockPathExtractor decode)"

text \<open>The proof provider and the threshold signer, when configured.\<close>

definition configureGenerator ::
  "prims \<Rightarrow> ('io, 'ia, 'as, 'a) World \<Rightarrow> Config \<Rightarrow> Generator \<Rightarrow> 'io StartError + Generator" where
  "configureGenerator P W c g =
     (case (if cfg_TRCDir c \<noteq> '''' then
              (case NewTRCProofProvider (w_globTRC W) (w_readFile W) (w_decodeTRC W) (cfg_TRCDir c) of
                 Inl e \<Rightarrow> Inl (LoadingTRCs e)
               | Inr trcs \<Rightarrow>
                   Inr (WithProofProvider (Some (\<lambda>hop.
                      case (TRC_BuildProof (w_asOf W) (w_iaString W) (w_parseIA W) trcs hop :: 'io TRCError + ISDProof) of
                        Inl e \<Rightarrow> Inl ''trc'' | Inr pr \<Rightarrow> Inr pr)) g))
            else Inr g) of
        Inl e \<Rightarrow> Inl e
      | Inr g1 \<Rightarrow>
          if cfg_ThresholdK c > 0 \<or> cfg_ThresholdN c > 0 then
            (case NewThresholdOracle (w_thresholdKeys W) (cfg_ThresholdK c) (cfg_ThresholdN c) of
               Inl e \<Rightarrow> Inl (InitThreshold e)
             | Inr threshold \<Rightarrow> Inr (WithThresholdSigner (Some (SignThreshold P threshold)) g1))
          else Inr g1)"

definition validatorState :: "ValidatorConfig \<Rightarrow> ValidatorState" where
  "validatorState v = \<lparr>vs_ID = vc_ID v, vs_Address = vc_Address v, vs_Balance = vc_Balance v, vs_Nonce = 0\<rparr>"

text \<open>
  The consensus engine; in SCION mode with the set-up of the transport.  The engine's methods do not
  use the transport, so it is the same engine in both modes.
\<close>

definition setupConsensus :: "('io, 'ia, 'as, 'a) World \<Rightarrow> Config \<Rightarrow> ValidatorState list \<Rightarrow> 'io StartError + ConsensusEngine" where
  "setupConsensus W c validators =
     (if cfg_SCIONMode c then
        if cfg_ValidatorID c = '''' then Inl ValidatorIDRequired
        else if \<not> w_scionNetwork W (cfg_SCIONDaemon c) then Inl InitSCIONNetwork
        else case ParseSCIONLocalAddr (w_udp W) (cfg_ValidatorID c) validators of
               Inl e \<Rightarrow> Inl (ParsingLocalAddr e)
             | Inr localAddr \<Rightarrow>
                 if \<not> w_listen W localAddr then Inl (ListeningSCION localAddr)
                 else case ParseSCIONPeers (w_udp W) (cfg_ValidatorID c) validators of
                        Inl e \<Rightarrow> Inl (ParsingPeers e)
                      | Inr peers \<Rightarrow> Inr (NewConsensusEngine (NewLedger validators) validators)
      else Inr (NewConsensusEngine (NewLedger validators) validators))"

text \<open>The part before the databases: configuration, policies, key file, validators.\<close>

definition prepare ::
  "prims \<Rightarrow> (bytes \<Rightarrow> bytes) \<Rightarrow> ('io, 'ia, 'as, 'a) World \<Rightarrow> Config \<Rightarrow> fsys
   \<Rightarrow> ('io StartError + Policy list \<times> Generator \<times> ConsensusEngine) \<times> fsys" where
  "prepare P fromSeed W c fs =
     (case Validate_Config (w_stat W) c of
        Some e \<Rightarrow> (Inl (ConfigInvalid e), fs)
      | None \<Rightarrow>
         (case LoadAllFromDir (w_readDir W) (w_readFile W) (w_join W) (w_yamlPolicy W) (cfg_PolicyDir c) of
            Inl e \<Rightarrow> (Inl (LoadingPolicies e), fs)
          | Inr policies \<Rightarrow>
             (case NewGeneratorFromFile P fromSeed (w_keyFaults W) (w_genKey W) (w_tmp W) (cfg_OracleKeyPath c) fs of
                (Inl e, fs1) \<Rightarrow> (Inl (CreatingGenerator e), fs1)
              | (Inr gen, fs1) \<Rightarrow>
                 (case configureGenerator P W c gen of
                    Inl e \<Rightarrow> (Inl e, fs1)
                  | Inr gen1 \<Rightarrow>
                     (case LoadValidators (w_readFile W) (w_yamlValidators W) (cfg_ValidatorsFile c) of
                        Inl e \<Rightarrow> (Inl (LoadingValidators e), fs1)
                      | Inr configs \<Rightarrow>
                         (case setupConsensus W c (map validatorState configs) of
                            Inl e \<Rightarrow> (Inl e, fs1)
                          | Inr consensus \<Rightarrow> (Inr (policies, gen1, consensus), fs1)))))))"

definition runServer ::
  "prims \<Rightarrow> (bytes \<Rightarrow> bytes) \<Rightarrow> 'b Codecs \<Rightarrow> ('io, 'ia, 'as, 'a) World \<Rightarrow> 'b Disk
   \<Rightarrow> ('io StartError + ('b boltDB \<times> ComplianceReceipt list, 'b boltDB \<times> Violation list) Server) \<times> 'b Disk" where
  "runServer P fromSeed C W disk =
     (let c = Load (w_getenv W); B = cd_bolt C in
      case prepare P fromSeed W c (dk_keyfs disk) of
        (Inl e, fs) \<Rightarrow> (Inl e, disk\<lparr>dk_keyfs := fs\<rparr>)
      | (Inr (policies, gen, consensus), fs) \<Rightarrow>
          let d1 = disk\<lparr>dk_keyfs := fs\<rparr> in
          if \<not> w_mkdir W then (Inl CreatingDataDir, d1)
          else
           (case NewBoltStore B (cd_receipt C) (w_openReceipts W) (fst (dk_receipts d1)) of
              (err, rdb) \<Rightarrow>
                let rs = (rdb, snd (dk_receipts d1)); d2 = d1\<lparr>dk_receipts := rs\<rparr> in
                (case err of
                   Some e \<Rightarrow> (Inl (OpeningReceiptStore e), d2)
                 | None \<Rightarrow>
                    (case SeedChain P (BoltStoreOps B (cd_receipt C)) rs gen of
                       (Some e, _) \<Rightarrow> (Inl (SeedingChain e), d2)
                     | (None, gen1) \<Rightarrow>
                        (case NewBoltViolationStore B (w_openViolations W) (fst (dk_violations d2)) of
                           (err, vdb) \<Rightarrow>
                             let vs = (vdb, snd (dk_violations d2)); d3 = d2\<lparr>dk_violations := vs\<rparr> in
                             (case err of
                                Some e \<Rightarrow> (Inl (OpeningViolationStore e), d3)
                              | None \<Rightarrow>
                                 (case NewAuditLog B (w_openAudit W) (fst (dk_audit d3)) of
                                    (err, adb) \<Rightarrow>
                                      let d4 = d3\<lparr>dk_audit := (adb, snd (dk_audit d3))\<rparr> in
                                      (case err of
                                         Some e \<Rightarrow> (Inl (OpeningAuditLog e), d4)
                                       | None \<Rightarrow>
                                           (Inr (NewServer policies gen1 (selectPathExtractor (w_decodeHops W) c) consensus rs (NewDetector vs)
                                                   (w_now W) (cfg_APIToken c) (cfg_AdminToken c) (cfg_OracleKeyPath c) fs), d4)))))))))"

section \<open>The life of a deployment\<close>

definition boltDeps ::
  "prims \<Rightarrow> codec \<Rightarrow> (settlePayload \<Rightarrow> bytes option) \<Rightarrow> 'b Codecs \<Rightarrow> ('b boltDB \<times> ComplianceReceipt list, 'b boltDB \<times> Violation list) deps" where
  "boltDeps P J js C = \<lparr>dp_prims = P, dp_codec = J, dp_store = BoltStoreOps (cd_bolt C) (cd_receipt C),
     dp_vstore = BoltViolationOps (cd_bolt C) (cd_violation C), dp_jsSettle = js\<rparr>"

lemma boltDeps_simps [simp]:
  "dp_prims (boltDeps P J js C) = P" "dp_codec (boltDeps P J js C) = J"
  "dp_store (boltDeps P J js C) = BoltStoreOps (cd_bolt C) (cd_receipt C)"
  "dp_vstore (boltDeps P J js C) = BoltViolationOps (cd_bolt C) (cd_violation C)"
  by (simp_all add: boltDeps_def)

text \<open>The process is down, and only the disk is left, or up, with the audit log beside the server's own state.\<close>

datatype 'b Deployment =
    Down "'b Disk"
  | Up "('b boltDB \<times> ComplianceReceipt list, 'b boltDB \<times> Violation list) Server" "'b boltDB \<times> AuditEntry list"

definition remains :: "('b boltDB \<times> ComplianceReceipt list, 'b boltDB \<times> Violation list) Server \<Rightarrow> 'b boltDB \<times> AuditEntry list \<Rightarrow> 'b Disk" where
  "remains s l = \<lparr>dk_keyfs = sv_keyfs s, dk_receipts = sv_receipts s, dk_violations = det_store (sv_detector s), dk_audit = l\<rparr>"

fun stored :: "'b Deployment \<Rightarrow> 'b boltDB \<times> ComplianceReceipt list" where
  "stored (Down d) = dk_receipts d"
| "stored (Up s l) = sv_receipts s"

text \<open>
  What the operator answers for: every policy that loads is one of \<open>policies\<close>; keys are genuine and
  the auditors' validator \<open>rv\<close> trusts them; and the oracle is not restarted between a key rotation
  and the next receipt (the case in which the chain breaks).
\<close>

definition sound_start ::
  "prims \<Rightarrow> (bytes \<Rightarrow> bytes) \<Rightarrow> ReceiptValidator \<Rightarrow> Policy list \<Rightarrow> ('io, 'ia, 'as, 'a) World \<Rightarrow> 'b Disk \<Rightarrow> bool" where
  "sound_start P fromSeed rv policies W d \<longleftrightarrow>
     (\<forall>dir ps. LoadAllFromDir (w_readDir W) (w_readFile W) (w_join W) (w_yamlPolicy W) dir = Inr ps \<longrightarrow> set ps \<subseteq> set policies) \<and>
     (\<forall>kp. w_genKey W = Some kp \<longrightarrow> genuine_pair P fromSeed kp) \<and>
     genuine_keys P (w_thresholdKeys W) \<and>
     (\<forall>i pub priv. w_thresholdKeys W i = Some (pub, priv) \<longrightarrow> isTrustedThresholdKey rv pub) \<and>
     (\<forall>path g fs. NewGeneratorFromFile P fromSeed (w_keyFaults W) (w_genKey W) (w_tmp W) path (dk_keyfs d) = (Inr g, fs) \<longrightarrow>
        isTrustedKey rv (g_publicKey g) \<and>
        (snd (dk_receipts d) = [] \<or> rcpt_OraclePublicKey (last (snd (dk_receipts d))) = g_publicKey g)) \<and>
     length (snd (dk_receipts d)) < 2 ^ 64"

inductive deploy_step ::
  "prims \<Rightarrow> (bytes \<Rightarrow> bytes) \<Rightarrow> codec \<Rightarrow> (settlePayload \<Rightarrow> bytes option) \<Rightarrow> 'b Codecs \<Rightarrow> ReceiptValidator \<Rightarrow> Policy list
   \<Rightarrow> ('io, 'ia, 'as, 'a) World itself \<Rightarrow> 'b Deployment \<Rightarrow> 'b Deployment \<Rightarrow> bool"
  for P fromSeed J js C rv policies and wt :: "('io, 'ia, 'as, 'a) World itself" where
  dp_start: "sound_start P fromSeed rv policies (W :: ('io, 'ia, 'as, 'a) World) d \<Longrightarrow> runServer P fromSeed C W d = (Inr s, d') \<Longrightarrow>
    deploy_step P fromSeed J js C rv policies wt (Down d) (Up s (dk_audit d'))"
| dp_fail: "runServer P fromSeed C (W :: ('io, 'ia, 'as, 'a) World) d = (Inl e, d') \<Longrightarrow>
    deploy_step P fromSeed J js C rv policies wt (Down d) (Down d')"
| dp_request: "keys_ok P rv env \<Longrightarrow>
    deploy_step P fromSeed J js C rv policies wt (Up s l) (Up (snd (Handler (boltDeps P J js C) env req s)) l)"
| dp_subscribe: "deploy_step P fromSeed J js C rv policies wt (Up s l) (Up (s\<lparr>sv_detector := snd (Subscribe (sv_detector s))\<rparr>) l)"
| dp_unsubscribe: "deploy_step P fromSeed J js C rv policies wt (Up s l) (Up (s\<lparr>sv_detector := Unsubscribe c (sv_detector s)\<rparr>) l)"
| dp_audit: "auditWrite (auditSink (cd_bolt C) (cd_audit C)) s l = (s', l') \<Longrightarrow> deploy_step P fromSeed J js C rv policies wt (Up s l) (Up s' l')"
| dp_crash: "deploy_step P fromSeed J js C rv policies wt (Up s l) (Down (remains s l))"
| dp_stop: "Server_Close (auditSink (cd_bolt C) (cd_audit C)) s l = (s', l') \<Longrightarrow>
    deploy_step P fromSeed J js C rv policies wt (Up s l) (Down (remains s' l'))"

abbreviation deploy_reach where
  "deploy_reach P fromSeed J js C rv policies wt \<equiv> (deploy_step P fromSeed J js C rv policies wt)\<^sup>*\<^sup>*"

section \<open>The durable service keeps its invariant across restarts\<close>

definition receipts_ok ::
  "('b \<Rightarrow> (bytes \<rightharpoonup> bytes)) \<Rightarrow> 'b Codecs \<Rightarrow> prims \<Rightarrow> codec \<Rightarrow> ReceiptValidator \<Rightarrow> Policy list \<Rightarrow> 'b boltDB \<times> ComplianceReceipt list \<Rightarrow> bool" where
  "receipts_ok bmap C P J rv policies rs \<longleftrightarrow>
     (bolt_rep bmap (cd_receipt C) (fst rs) (snd rs) \<or> fst rs = Map.empty \<and> snd rs = []) \<and>
     chained P J (trusted_keys rv) (snd rs) \<and> list_all (attested P J rv) (snd rs) \<and> list_all (certified policies) (snd rs)"

lemma NewThresholdOracle_keys:
  assumes "NewThresholdOracle genKey k n = Inr to" "oi \<in> set (to_Oracles to)"
  shows "\<exists>i priv. genKey i = Some (orc_PublicKey oi, priv)"
proof -
  let ?f = "\<lambda>i. case genKey i of None \<Rightarrow> Inl (GeneratingKeyPair i)
    | Some (pub, priv) \<Rightarrow> Inr \<lparr>orc_ID = ''oracle-'' @ itoa i, orc_PrivateKey = priv, orc_PublicKey = pub\<rparr>"
  from assms(1) have "mapErr ?f [0..<nat n] = Inr (to_Oracles to)"
    by (auto simp: NewThresholdOracle_def split: if_splits sum.splits)
  then have l: "list_all2 (\<lambda>i oi. ?f i = Inr oi) [0..<nat n] (to_Oracles to)" unfolding mapErr_Inr_iff .
  from assms(2) obtain j where "j < length (to_Oracles to)" "to_Oracles to ! j = oi" by (auto simp: in_set_conv_nth)
  with list_all2_nthD2 [OF l, of j] obtain i where "?f i = Inr oi" by auto
  then have "genKey i = Some (orc_PublicKey oi, orc_PrivateKey oi)" by (auto split: option.splits)
  then show ?thesis by blast
qed

lemma configureGenerator_ok:
  assumes "configureGenerator P W c g = Inr g1" "oracle_ok P J rv g []" "ed25519_correct P" "genuine_keys P (w_thresholdKeys W)"
    and "\<forall>i pub priv. w_thresholdKeys W i = Some (pub, priv) \<longrightarrow> isTrustedThresholdKey rv pub"
  shows "oracle_ok P J rv g1 []" "g_publicKey g1 = g_publicKey g"
proof -
  have "sound_signer P rv (SignThreshold P to)" if t: "NewThresholdOracle (w_thresholdKeys W) k n = Inr to" for k n to
  proof (rule SignThreshold_sound_signer [OF _ assms(3)])
    show "oracle_group P to" using NewThresholdOracle_group [OF t assms(4)] by simp
    show "\<forall>oi\<in>set (to_Oracles to). isTrustedThresholdKey rv (orc_PublicKey oi)"
      using NewThresholdOracle_keys [OF t] assms(5) by blast
  qed
  with assms(1,2) show "oracle_ok P J rv g1 []"
    by (auto simp: configureGenerator_def oracle_ok_config split: if_splits sum.splits)
  from assms(1) show "g_publicKey g1 = g_publicKey g"
    by (auto simp: configureGenerator_def WithProofProvider_def WithThresholdSigner_def split: if_splits sum.splits)
qed

lemma prepare_Inr:
  assumes "prepare P fromSeed W c fs0 = (Inr (ps, gen, ce), fs)"
  obtains g0 configs where "Validate_Config (w_stat W) c = None"
    "LoadAllFromDir (w_readDir W) (w_readFile W) (w_join W) (w_yamlPolicy W) (cfg_PolicyDir c) = Inr ps"
    "NewGeneratorFromFile P fromSeed (w_keyFaults W) (w_genKey W) (w_tmp W) (cfg_OracleKeyPath c) fs0 = (Inr g0, fs)"
    "configureGenerator P W c g0 = Inr gen"
    "LoadValidators (w_readFile W) (w_yamlValidators W) (cfg_ValidatorsFile c) = Inr configs"
    "ce = NewConsensusEngine (NewLedger (map validatorState configs)) (map validatorState configs)"
proof -
  from assms obtain g0 configs where *: "Validate_Config (w_stat W) c = None"
    "LoadAllFromDir (w_readDir W) (w_readFile W) (w_join W) (w_yamlPolicy W) (cfg_PolicyDir c) = Inr ps"
    "NewGeneratorFromFile P fromSeed (w_keyFaults W) (w_genKey W) (w_tmp W) (cfg_OracleKeyPath c) fs0 = (Inr g0, fs)"
    "configureGenerator P W c g0 = Inr gen"
    "LoadValidators (w_readFile W) (w_yamlValidators W) (cfg_ValidatorsFile c) = Inr configs"
    "setupConsensus W c (map validatorState configs) = Inr ce"
    by (auto simp: prepare_def split: option.splits sum.splits prod.splits)
  from *(6) have "ce = NewConsensusEngine (NewLedger (map validatorState configs)) (map validatorState configs)"
    by (auto simp: setupConsensus_def split: if_splits sum.splits)
  with * that show thesis by blast
qed

lemma runServer_Inr:
  assumes "runServer P fromSeed C W d = (Inr s, d')"
  obtains ps gen ce fs rdb gen1 vdb adb where
    "prepare P fromSeed W (Load (w_getenv W)) (dk_keyfs d) = (Inr (ps, gen, ce), fs)"
    "NewBoltStore (cd_bolt C) (cd_receipt C) (w_openReceipts W) (fst (dk_receipts d)) = (None, rdb)"
    "SeedChain P (BoltStoreOps (cd_bolt C) (cd_receipt C)) (rdb, snd (dk_receipts d)) gen = (None, gen1)"
    "NewBoltViolationStore (cd_bolt C) (w_openViolations W) (fst (dk_violations d)) = (None, vdb)"
    "NewAuditLog (cd_bolt C) (w_openAudit W) (fst (dk_audit d)) = (None, adb)"
    "d' = \<lparr>dk_keyfs = fs, dk_receipts = (rdb, snd (dk_receipts d)), dk_violations = (vdb, snd (dk_violations d)), dk_audit = (adb, snd (dk_audit d))\<rparr>"
    "s = NewServer ps gen1 (selectPathExtractor (w_decodeHops W) (Load (w_getenv W))) ce (rdb, snd (dk_receipts d))
       (NewDetector (vdb, snd (dk_violations d))) (w_now W) (cfg_APIToken (Load (w_getenv W))) (cfg_AdminToken (Load (w_getenv W)))
       (cfg_OracleKeyPath (Load (w_getenv W))) fs"
proof -
  let ?c = "Load (w_getenv W)"
  obtain x fs where p: "prepare P fromSeed W ?c (dk_keyfs d) = (x, fs)" by fastforce
  obtain re rdb where r: "NewBoltStore (cd_bolt C) (cd_receipt C) (w_openReceipts W) (fst (dk_receipts d)) = (re, rdb)" by fastforce
  obtain ve vdb where v: "NewBoltViolationStore (cd_bolt C) (w_openViolations W) (fst (dk_violations d)) = (ve, vdb)" by fastforce
  obtain ae adb where a: "NewAuditLog (cd_bolt C) (w_openAudit W) (fst (dk_audit d)) = (ae, adb)" by fastforce
  from assms p obtain ps gen ce where x: "x = Inr (ps, gen, ce)" by (auto simp: runServer_def Let_def split: sum.splits)
  obtain se gen1 where q: "SeedChain P (BoltStoreOps (cd_bolt C) (cd_receipt C)) (rdb, snd (dk_receipts d)) gen = (se, gen1)" by fastforce
  from assms p r v a x q have e: "re = None" "se = None" "ve = None" "ae = None"
    by (auto simp: runServer_def Let_def split: if_splits option.splits)
  from assms p r v a x q e show thesis
    by (intro that [of ps gen ce fs rdb gen1 vdb adb]) (auto simp: runServer_def Let_def split: if_splits)
qed

lemma runServer_receipts:
  assumes "runServer P fromSeed C W d = (x, d')"
  shows "snd (dk_receipts d') = snd (dk_receipts d)"
    and "fst (dk_receipts d') = fst (dk_receipts d) \<or>
      (\<exists>e. NewBoltStore (cd_bolt C) (cd_receipt C) (w_openReceipts W) (fst (dk_receipts d)) = (e, fst (dk_receipts d')))"
proof -
  obtain y fs where p: "prepare P fromSeed W (Load (w_getenv W)) (dk_keyfs d) = (y, fs)" by fastforce
  obtain re rdb where r: "NewBoltStore (cd_bolt C) (cd_receipt C) (w_openReceipts W) (fst (dk_receipts d)) = (re, rdb)" by fastforce
  have "dk_receipts d' = dk_receipts d \<or> dk_receipts d' = (rdb, snd (dk_receipts d))"
  proof (cases y)
    case (Inl e)
    with assms p show ?thesis by (simp add: runServer_def) (metis Disk.ext_inject Disk.surjective Disk.update_convs(1))
  next
    case (Inr z)
    obtain ps gen ce where z: "z = (ps, gen, ce)" by (metis prod.collapse)
    show ?thesis
    proof (cases "w_mkdir W \<and> re = None")
      case False
      with assms p r Inr z show ?thesis by (cases "w_mkdir W"; cases re) (auto simp: runServer_def Let_def)
    next
      case True
      obtain se gen1 where q: "SeedChain P (BoltStoreOps (cd_bolt C) (cd_receipt C)) (rdb, snd (dk_receipts d)) gen = (se, gen1)" by fastforce
      obtain ve vdb where v: "NewBoltViolationStore (cd_bolt C) (w_openViolations W) (fst (dk_violations d)) = (ve, vdb)" by fastforce
      obtain ae adb where a: "NewAuditLog (cd_bolt C) (w_openAudit W) (fst (dk_audit d)) = (ae, adb)" by fastforce
      from assms p r Inr z True q v a show ?thesis
        by (cases se; cases ve; cases ae) (auto simp: runServer_def Let_def)
    qed
  qed
  with r show "snd (dk_receipts d') = snd (dk_receipts d)"
    "fst (dk_receipts d') = fst (dk_receipts d) \<or>
      (\<exists>e. NewBoltStore (cd_bolt C) (cd_receipt C) (w_openReceipts W) (fst (dk_receipts d)) = (e, fst (dk_receipts d')))" by auto
qed

locale bolt_service = bolt_receipts "cd_bolt C" bmap bseq "cd_receipt C" + bolt_violations "cd_bolt C" bmap bseq "cd_violation C"
  for C :: "'b Codecs" and bmap and bseq +
  fixes P :: prims and J :: codec and js :: "settlePayload \<Rightarrow> bytes option"

sublocale bolt_service \<subseteq> svc: compliance_service "BoltStoreOps (cd_bolt C) (cd_receipt C)"
    "\<lambda>s. bolt_rep bmap (cd_receipt C) (fst s) (snd s)" snd "BoltViolationOps (cd_bolt C) (cd_violation C)" snd "boltDeps P J js C"
  by unfold_locales simp_all

context bolt_service
begin

abbreviation up_ok where
  "up_ok rv policies \<equiv> service_inv (\<lambda>s. bolt_rep bmap (cd_receipt C) (fst s) (snd s)) snd (boltDeps P J js C) rv policies"

lemma up_ok_receipts: "up_ok rv policies s \<Longrightarrow> receipts_ok bmap C P J rv policies (sv_receipts s)"
  by (simp add: service_inv_def service_ok_def oracle_ok_def receipts_ok_def)

lemma reopen_ok:
  assumes "receipts_ok bmap C P J rv policies (db, h)" "NewBoltStore (cd_bolt C) (cd_receipt C) opens db = (e, db')"
  shows "receipts_ok bmap C P J rv policies (db', h)" "e = None \<Longrightarrow> bolt_rep bmap (cd_receipt C) db' h"
proof -
  from assms(1) consider "bolt_rep bmap (cd_receipt C) db h" | "db = Map.empty" "h = []" by (auto simp: receipts_ok_def)
  then have "(bolt_rep bmap (cd_receipt C) db' h \<or> db' = Map.empty \<and> h = []) \<and> (e = None \<longrightarrow> bolt_rep bmap (cd_receipt C) db' h)"
  proof cases
    case 1
    with rep_reopen [OF 1 assms(2)] show ?thesis by simp
  next
    case 2
    with rep_open_any [of opens e db'] rep_open_fresh [of opens db'] assms(2) show ?thesis by auto
  qed
  with assms(1) show "receipts_ok bmap C P J rv policies (db', h)" "e = None \<Longrightarrow> bolt_rep bmap (cd_receipt C) db' h"
    by (simp_all add: receipts_ok_def)
qed

lemma start_ok:
  assumes ok: "receipts_ok bmap C P J rv policies (dk_receipts d)" and st: "sound_start P fromSeed rv policies W d"
    and run: "runServer P fromSeed C W d = (Inr s, d')" and ed: "ed25519_correct P"
  shows "up_ok rv policies s \<and> snd (sv_receipts s) = snd (dk_receipts d)"
proof (rule runServer_Inr [OF run])
  let ?h = "snd (dk_receipts d)"
  fix ps gen ce fs rdb gen1 vdb adb
  assume *: "prepare P fromSeed W (Load (w_getenv W)) (dk_keyfs d) = (Inr (ps, gen, ce), fs)"
    "NewBoltStore (cd_bolt C) (cd_receipt C) (w_openReceipts W) (fst (dk_receipts d)) = (None, rdb)"
    "SeedChain P (BoltStoreOps (cd_bolt C) (cd_receipt C)) (rdb, ?h) gen = (None, gen1)"
    and s: "s = NewServer ps gen1 (selectPathExtractor (w_decodeHops W) (Load (w_getenv W))) ce (rdb, ?h)
       (NewDetector (vdb, snd (dk_violations d))) (w_now W) (cfg_APIToken (Load (w_getenv W))) (cfg_AdminToken (Load (w_getenv W)))
       (cfg_OracleKeyPath (Load (w_getenv W))) fs"
  have sh: "snd (sv_receipts s) = ?h" by (simp add: s NewServer_def)
  from reopen_ok [of rv policies "fst (dk_receipts d)" ?h] ok *(2)
  have rep: "bolt_rep bmap (cd_receipt C) rdb ?h" and rok: "receipts_ok bmap C P J rv policies (rdb, ?h)" by auto
  have "up_ok rv policies s"
  proof (rule prepare_Inr [OF *(1)])
    fix g0 configs
    assume p: "LoadAllFromDir (w_readDir W) (w_readFile W) (w_join W) (w_yamlPolicy W) (cfg_PolicyDir (Load (w_getenv W))) = Inr ps"
      "NewGeneratorFromFile P fromSeed (w_keyFaults W) (w_genKey W) (w_tmp W) (cfg_OracleKeyPath (Load (w_getenv W))) (dk_keyfs d) = (Inr g0, fs)"
      "configureGenerator P W (Load (w_getenv W)) g0 = Inr gen"
      "LoadValidators (w_readFile W) (w_yamlValidators W) (cfg_ValidatorsFile (Load (w_getenv W))) = Inr configs"
      "ce = NewConsensusEngine (NewLedger (map validatorState configs)) (map validatorState configs)"
    from st p(1,2) have sub: "set ps \<subseteq> set policies" and tr: "isTrustedKey rv (g_publicKey g0)"
      and lst: "?h = [] \<or> rcpt_OraclePublicKey (last ?h) = g_publicKey g0" and len: "length ?h < 2 ^ 64"
      and gk: "genuine_keys P (w_thresholdKeys W)" "\<forall>i pub priv. w_thresholdKeys W i = Some (pub, priv) \<longrightarrow> isTrustedThresholdKey rv pub"
      and gp: "\<And>kp. w_genKey W = Some kp \<Longrightarrow> genuine_pair P fromSeed kp" unfolding sound_start_def by blast+
    from NewGeneratorFromFile_keys [OF p(2) gp] obtain priv where g0: "g0 = NewGeneratorWithKeys priv (ed_public P priv)" by blast
    with tr have "isTrustedKey rv (ed_public P priv)" by (simp add: NewGeneratorWithKeys_def)
    from oracle_ok_New [OF this] g0 have "oracle_ok P J rv g0 []" by simp
    note g = configureGenerator_ok [OF p(3) this ed gk]
    from *(3) obtain l where l: "st_Last (BoltStoreOps (cd_bolt C) (cd_receipt C)) (rdb, ?h) = Inr l"
      by (auto simp: SeedChain_def split: sum.splits)
    from rok have ch: "chained P J (trusted_keys rv) ?h" "list_all (attested P J rv) ?h" "list_all (certified policies) ?h"
      by (simp_all add: receipts_ok_def)
    from durable.last [of "(rdb, ?h)", OF _ _ l] rep chained_sorted [OF ch(1) len]
    have "l = (if ?h = [] then None else Some (last ?h))" by simp
    with lst g(2) have "case l of None \<Rightarrow> True | Some r \<Rightarrow> rcpt_OraclePublicKey r = g_publicKey gen" by auto
    from durable.oracle_ok_seeded [of "(rdb, ?h)" P J rv gen l gen1] rep ch(1,2) g(1) l this len *(3)
    have oo: "oracle_ok P J rv gen1 ?h" by simp
    from p(4) have "map validatorState configs \<noteq> []" by (simp add: LoadValidators_Inr_iff)
    with started_service_inv [where rs = "(rdb, ?h)" and D = "boltDeps P J js C" and rcpts = snd and g = gen1 and policies = policies,
        OF _ _ _ _ s [unfolded p(5)] sub] oo rep ch(3)
    show ?thesis by simp
  qed
  with sh show "up_ok rv policies s \<and> snd (sv_receipts s) = ?h" by simp
qed

fun deploy_ok :: "ReceiptValidator \<Rightarrow> Policy list \<Rightarrow> 'b Deployment \<Rightarrow> bool" where
  "deploy_ok rv policies (Down d) = receipts_ok bmap C P J rv policies (dk_receipts d)"
| "deploy_ok rv policies (Up s l) = up_ok rv policies s"

lemma deploy_ok_receipts: "deploy_ok rv policies x \<Longrightarrow> receipts_ok bmap C P J rv policies (stored x)"
  by (cases x) (simp_all add: up_ok_receipts)

lemma same_service_trans: "same_service a b \<Longrightarrow> same_service b c \<Longrightarrow> same_service a c"
  by (cases a; cases b; cases c) (simp add: same_service_def)

lemma auditWrite_service: "auditWrite app s l = (s', l') \<Longrightarrow> same_service s s'"
  by (auto simp: auditWrite_def auditWriter_def same_service_def split: list.splits prod.splits if_splits)

lemma Server_Close_service: "Server_Close app s l = (s', l') \<Longrightarrow> same_service s s'"
  using Server_Close_invariant [of "\<lambda>s1 _. same_service s s1" app s l s' l'] auditWrite_service same_service_trans by (metis same_service_simps(1))

lemma step_ok:
  assumes step: "deploy_step P fromSeed J js C rv policies wt x y" and ok: "deploy_ok rv policies x"
    and prim: "ed25519_correct P" "hashes_sized P"
  shows "deploy_ok rv policies y \<and> (\<exists>new. snd (stored y) = snd (stored x) @ new)"
  using step ok
proof (cases rule: deploy_step.cases)
  case (dp_start W d s d')
  with start_ok [of rv policies d fromSeed W s d'] ok prim(1) show ?thesis by simp
next
  case (dp_fail W d e d')
  note r = runServer_receipts [OF dp_fail(3)]
  from ok dp_fail have o: "receipts_ok bmap C P J rv policies (fst (dk_receipts d), snd (dk_receipts d))" by simp
  from r reopen_ok(1) [OF o] o have "receipts_ok bmap C P J rv policies (dk_receipts d')" by (metis prod.collapse)
  with r(1) dp_fail show ?thesis by simp
next
  case (dp_request env s l req)
  with svc.service_step_good [OF request [of "boltDeps P J js C" rv env], of policies s req] ok prim show ?thesis
    by (simp add: good_def advances_def)
next
  case (dp_subscribe s l)
  with svc.service_step_good [OF subscribed [of "boltDeps P J js C" rv s], of policies] ok prim show ?thesis
    by (simp add: good_def advances_def)
next
  case (dp_unsubscribe s l c)
  with svc.service_step_good [OF unsubscribed [of "boltDeps P J js C" rv s], of policies c] ok prim show ?thesis
    by (simp add: good_def advances_def)
next
  case (dp_audit s l s' l')
  with ok service_inv_same [OF auditWrite_service [OF dp_audit(3)]] same_serviceD(1) [OF auditWrite_service [OF dp_audit(3)]]
  show ?thesis by simp
next
  case (dp_crash s l)
  with ok up_ok_receipts show ?thesis by (simp add: remains_def)
next
  case (dp_stop s l s' l')
  from ok dp_stop up_ok_receipts same_serviceD(1) [OF Server_Close_service [OF dp_stop(3)]] show ?thesis by (simp add: remains_def)
qed

lemma reach_ok:
  assumes "deploy_reach P fromSeed J js C rv policies wt x y" and "deploy_ok rv policies x" "ed25519_correct P" "hashes_sized P"
  shows "deploy_ok rv policies y \<and> (\<exists>new. snd (stored y) = snd (stored x) @ new)"
  using assms(1)
proof (induction rule: rtranclp_induct)
  case (step y z)
  then obtain new new' where "snd (stored z) = snd (stored y) @ new'" "snd (stored y) = snd (stored x) @ new" "deploy_ok rv policies z"
    using step_ok [OF step.hyps(2) _ assms(3,4)] by blast
  then show ?case by simp
qed (use assms(2) in simp)

end

section \<open>A deployment on the reference database\<close>

definition refCodecs :: "ComplianceReceipt list \<Rightarrow> ((bytes, bytes) rbt \<times> uint64) Codecs" where
  "refCodecs rs = \<lparr>cd_receipt = listCodec rs, cd_violation = listCodec [], cd_audit = listCodec [], cd_bolt = refBolt\<rparr>"

lemma refCodecs_simps [simp]:
  "cd_receipt (refCodecs rs) = listCodec rs" "cd_violation (refCodecs rs) = listCodec []" "cd_bolt (refCodecs rs) = refBolt"
  by (simp_all add: refCodecs_def)

interpretation refsvc: bolt_service "refCodecs rs" refMap snd P J js for rs P J js
  by unfold_locales (simp_all add: refbolt.get refbolt.put refbolt.walk_sorted refbolt.walk_map refbolt.keyN refbolt.newBucket
      refbolt.sequence listCodec_roundtrip)

definition demo_world :: "(string, unit, unit, unit) World" where
  "demo_world =
     \<lparr>w_getenv = (\<lambda>k. if k = ''JURISPATH_INSECURE'' \<or> k = ''JURISPATH_UNAUTHENTICATED_API'' then ''true'' else ''''),
      w_stat = (\<lambda>_. True), w_readDir = (\<lambda>_. Inr [\<lparr>de_Name = ''eu.yaml'', de_IsDir = False\<rparr>]), w_readFile = (\<lambda>_. Inr []), w_join = (@),
      w_yamlPolicy = (\<lambda>_. Inr eu_policy),
      w_yamlValidators = (\<lambda>_. Inr [\<lparr>vc_ID = ''a'', vc_Address = ''x'', vc_Balance = [''CHF'' \<mapsto> 100]\<rparr>]),
      w_globTRC = (\<lambda>_. Inl ''''), w_decodeTRC = (\<lambda>_. Inl ''''), w_asOf = id, w_iaString = (\<lambda>_. ''''), w_parseIA = (\<lambda>_. None),
      w_keyFaults = no_faults, w_genKey = Some (toy_pair 1), w_tmp = ''tmp'', w_thresholdKeys = (\<lambda>_. None),
      w_udp = \<lparr>ua_String = (\<lambda>_. ''''), ua_RawPath = (\<lambda>_. None), ua_IA = id, ua_Parse = (\<lambda>_. None), ua_Host = (\<lambda>_. '''')\<rparr>,
      w_scionNetwork = (\<lambda>_. False), w_listen = (\<lambda>_. False), w_mkdir = True, w_openReceipts = True, w_openViolations = True,
      w_openAudit = True, w_decodeHops = (\<lambda>raw. Some [ch_hop]), w_now = 0\<rparr>"

definition blank_disk :: "((bytes, bytes) rbt \<times> uint64) Disk" where
  "blank_disk = \<lparr>dk_keyfs = Map.empty, dk_receipts = (Map.empty, []), dk_violations = (Map.empty, []), dk_audit = (Map.empty, [])\<rparr>"

lemma demo_key:
  "NewGeneratorFromFile svc_prims toy_fromSeed no_faults (Some (toy_pair 1)) ''tmp'' path Map.empty =
     (Inr (NewGeneratorWithKeys (toy_priv 1) (ed_public svc_prims (toy_priv 1))), [path \<mapsto> keyMagic @ take SeedSize (toy_priv 1)])"
  by (simp add: NewGeneratorFromFile_def no_faults_def toy_pair_def writeKeyFile_def writeTempKeyFile_def osRename_def svc_prims_def)

lemma demo_pair_genuine: "genuine_pair svc_prims toy_fromSeed (toy_pair 1)"
  using toy_pair_genuine [of 1] by (simp add: genuine_pair_def svc_prims_def split: prod.splits)

lemma demo_sound: "sound_start svc_prims toy_fromSeed (NewReceiptValidator 0) [eu_policy] demo_world blank_disk"
proof -
  have "set ps \<subseteq> {eu_policy}" if "LoadAllFromDir (\<lambda>_. Inr [\<lparr>de_Name = ''eu.yaml'', de_IsDir = False\<rparr>]) (\<lambda>_. Inr []) (@) (\<lambda>_. Inr eu_policy :: string + Policy) dir = Inr ps"
    for dir ps
    using that by (auto simp: LoadAllFromDir_def LoadFromFile_def eu_policy_def Let_def split: sum.splits option.splits if_splits)
  then show ?thesis
    using demo_pair_genuine demo_key
    by (auto simp: sound_start_def demo_world_def blank_disk_def genuine_keys_def isTrustedKey_def isTrustedThresholdKey_def NewReceiptValidator_def)
qed

lemma demo_opens:
  "\<exists>db. NewBoltStore refBolt J True Map.empty = (None, db) \<and> Bolt_Last refBolt J db = Inr None"
  "\<exists>db. NewBoltViolationStore refBolt True Map.empty = (None, db)" "\<exists>db. NewAuditLog refBolt True Map.empty = (None, db)"
proof -
  have r: "bo_walk refBolt (RBT.empty, q) = []" "bo_newBucket refBolt = (RBT.empty, 0)" "bo_begin refBolt d" "bo_commit refBolt d d'" for q d d'
    by (simp_all add: refbolt.walk_empty) (simp_all add: refBolt_def)
  then show "\<exists>db. NewBoltStore refBolt J True Map.empty = (None, db) \<and> Bolt_Last refBolt J db = Inr None"
    by (simp add: NewBoltStore_def OpenAndInit_def backfillSeqBucket_def db_Update_def refbolt.keyN Bolt_Last_def db_View_def)
  from r show "\<exists>db. NewBoltViolationStore refBolt True Map.empty = (None, db)" "\<exists>db. NewAuditLog refBolt True Map.empty = (None, db)"
    by (simp_all add: NewBoltViolationStore_def OpenAndInit_def NewAuditLog_def db_Update_def)
qed

lemma demo_starts: "\<exists>s d. runServer svc_prims toy_fromSeed (refCodecs rs) demo_world blank_disk = (Inr s, d)"
proof -
  have "\<exists>gen ce fs. prepare svc_prims toy_fromSeed demo_world (Load (w_getenv demo_world)) Map.empty = (Inr ([eu_policy], gen, ce), fs)"
    by (simp add: prepare_def demo_world_def demo_key Load_def envOr_def envIntOrInvalid_def Validate_Config_def TLSEnabled_def
        LoadAllFromDir_def LoadFromFile_def hasSuffix_def Validate_Policy_def eu_policy_def demo_policy_def
        configureGenerator_def LoadValidators_def setupConsensus_def)
  then obtain gen ce fs where p: "prepare svc_prims toy_fromSeed demo_world (Load (w_getenv demo_world)) Map.empty = (Inr ([eu_policy], gen, ce), fs)"
    by blast
  have w: "w_mkdir demo_world" "w_openReceipts demo_world" "w_openViolations demo_world" "w_openAudit demo_world" by (simp_all add: demo_world_def)
  obtain rdb vdb adb where o: "NewBoltStore refBolt (listCodec rs) True Map.empty = (None, rdb)" "Bolt_Last refBolt (listCodec rs) rdb = Inr None"
    "NewBoltViolationStore refBolt True Map.empty = (None, vdb)" "NewAuditLog refBolt True Map.empty = (None, adb)"
    using demo_opens by metis
  from o(2) have "SeedChain svc_prims (BoltStoreOps refBolt (listCodec rs)) (rdb, []) gen = (None, gen)" by (simp add: SeedChain_def BoltStoreOps_def)
  with p w o show ?thesis by (simp add: runServer_def blank_disk_def Let_def)
qed

section \<open>Properties of the program\<close>


definition demo_env :: reqEnv where
  "demo_env = \<lparr>e_uuid = (\<lambda>i. ''id'' @ itoa i), e_clk = (\<lambda>_. 5), e_pick = 0, e_faults = no_faults, e_genKey = None, e_tmp = ''tmp'', e_stamp = ''0''\<rparr>"

definition demo_check :: Request where
  "demo_check = \<lparr>rq_Path = ''/api/check'', rq_Authorization = '''', rq_AdminToken = '''',
     rq_Call = PostCheck (Some \<lparr>creq_TransactionID = ''t1'', creq_PolicyID = pol_ID eu_policy, creq_RawPath = [1]\<rparr>)\<rparr>"

definition demo_path :: SCIONPath where
  "demo_path = \<lparr>path_Raw = [1], path_Hops = [ch_hop], path_Fingerprint = FingerprintHops svc_prims [ch_hop],
     path_EvidenceClass = EvidenceClassExplicitDemo, path_ProofStatus = ProofStatusUnverified\<rparr>"

definition demo_receipt :: ComplianceReceipt where
  "demo_receipt = fst (projr (fst (buildReceiptLocked svc_prims toy_codec ''id1'' 5 ''t1'' (pol_ID eu_policy) demo_path
     (NewGeneratorWithKeys (toy_priv 1) (ed_public svc_prims (toy_priv 1))))))"

lemma demo_built:
  "\<exists>h. buildReceiptLocked svc_prims toy_codec ''id1'' 5 ''t1'' (pol_ID eu_policy) demo_path
     (NewGeneratorWithKeys (toy_priv 1) (ed_public svc_prims (toy_priv 1))) =
     (Inr (demo_receipt, h), NewGeneratorWithKeys (toy_priv 1) (ed_public svc_prims (toy_priv 1)))"
  by (simp add: demo_receipt_def buildReceiptLocked_def NewGeneratorWithKeys_def defaultProofs_def demo_path_def
        PlaceholderProofProvider_def toy_codec_def marshalForSigning_def PrivateKeySize_def toy_priv_def Let_def)

lemma demo_prepared:
  "\<exists>ce fs. prepare svc_prims toy_fromSeed demo_world (Load (w_getenv demo_world)) Map.empty =
     (Inr ([eu_policy], NewGeneratorWithKeys (toy_priv 1) (ed_public svc_prims (toy_priv 1)), ce), fs) \<and> GetTransaction ''t1'' (ce_ledger ce) = None"
    by (simp add: prepare_def demo_world_def demo_key Load_def envOr_def envIntOrInvalid_def Validate_Config_def TLSEnabled_def
        LoadAllFromDir_def LoadFromFile_def hasSuffix_def Validate_Policy_def eu_policy_def demo_policy_def
        configureGenerator_def LoadValidators_def setupConsensus_def NewConsensusEngine_def NewLedger_def GetTransaction_def)

lemma demo_compliant:
  "BuildSCIONPath svc_prims (MockPathExtractor (\<lambda>raw. Some [ch_hop])) [1] = Inr demo_path"
  "\<exists>res. Checker_Check demo_path 5 5 5 (NewChecker eu_policy) = (Inr res, NewChecker eu_policy) \<and> cr_Compliant res"
proof -
  show "BuildSCIONPath svc_prims (MockPathExtractor (\<lambda>raw. Some [ch_hop])) [1] = Inr demo_path"
    by (simp add: BuildSCIONPath_def MockPathExtractor_def demo_path_def NormalizeEvidenceClass_def NormalizeProofStatus_def
        EvidenceClassExplicitDemo_def ProofStatusUnverified_def)
  show "\<exists>res. Checker_Check demo_path 5 5 5 (NewChecker eu_policy) = (Inr res, NewChecker eu_policy) \<and> cr_Compliant res"
    by (simp add: Checker_Check_def NewChecker_def demo_path_def eu_policy_def demo_policy_def CheckHopsCompliant_def ch_hop_def ModeStrict_def Let_def)
qed

abbreviation demo_codecs :: "((bytes, bytes) rbt \<times> uint64) Codecs" where
  "demo_codecs \<equiv> refCodecs [demo_receipt]"

lemma demo_receipt_ids: "rcpt_ID demo_receipt = ''id1''" "rcpt_TransactionID demo_receipt = ''t1''"
proof -
  from demo_built obtain h where b: "buildReceiptLocked svc_prims toy_codec ''id1'' 5 ''t1'' (pol_ID eu_policy) demo_path
     (NewGeneratorWithKeys (toy_priv 1) (ed_public svc_prims (toy_priv 1))) =
     (Inr (demo_receipt, h), NewGeneratorWithKeys (toy_priv 1) (ed_public svc_prims (toy_priv 1)))" by blast
  from buildReceiptLocked_Inr [OF b] show "rcpt_ID demo_receipt = ''id1''" "rcpt_TransactionID demo_receipt = ''t1''"
    by (simp_all add: issued_by_def)
qed

lemma demo_append:
  assumes "bolt_rep refMap (listCodec [demo_receipt]) db []"
  shows "\<exists>db'. Bolt_Append refBolt (listCodec [demo_receipt]) demo_receipt db = (None, db')"
proof -
  obtain e db' where a: "Bolt_Append refBolt (listCodec [demo_receipt]) demo_receipt db = (e, db')" by fastforce
  have "js_Marshal (listCodec [demo_receipt]) demo_receipt \<noteq> None" by (simp add: listCodec_def upt_rec)
  from refBolt_no_fault [OF assms this] a have "e \<noteq> Some (storeFault f)" for f by (simp add: demo_receipt_ids)
  with refstore.rep_append_exact [OF assms] a have "e = None" by (cases e) auto
  with a show ?thesis by simp
qed

lemma demo_check_stores:
  "\<exists>s d rdb. runServer svc_prims toy_fromSeed demo_codecs demo_world blank_disk = (Inr s, d) \<and>
     sv_receipts (snd (Handler (boltDeps svc_prims toy_codec (\<lambda>_. None) demo_codecs) demo_env demo_check s)) = (rdb, [demo_receipt])"
proof -
  let ?g = "NewGeneratorWithKeys (toy_priv 1) (ed_public svc_prims (toy_priv 1))"
  let ?J = "listCodec [demo_receipt]"
  obtain ce fs where p: "prepare svc_prims toy_fromSeed demo_world (Load (w_getenv demo_world)) Map.empty = (Inr ([eu_policy], ?g, ce), fs)"
    and tx: "GetTransaction ''t1'' (ce_ledger ce) = None" using demo_prepared by blast
  have w: "w_mkdir demo_world" "w_openReceipts demo_world" "w_openViolations demo_world" "w_openAudit demo_world" by (simp_all add: demo_world_def)
  obtain rdb vdb adb where o: "NewBoltStore refBolt ?J True Map.empty = (None, rdb)" "Bolt_Last refBolt ?J rdb = Inr None"
    "NewBoltViolationStore refBolt True Map.empty = (None, vdb)" "NewAuditLog refBolt True Map.empty = (None, adb)"
    using demo_opens by metis
  from o(2) have "SeedChain svc_prims (BoltStoreOps refBolt ?J) (rdb, []) ?g = (None, ?g)" by (simp add: SeedChain_def BoltStoreOps_def)
  with p w o have r: "runServer svc_prims toy_fromSeed demo_codecs demo_world blank_disk =
      (Inr (NewServer [eu_policy] ?g (selectPathExtractor (w_decodeHops demo_world) (Load (w_getenv demo_world))) ce (rdb, []) (NewDetector (vdb, []))
        (w_now demo_world) (cfg_APIToken (Load (w_getenv demo_world))) (cfg_AdminToken (Load (w_getenv demo_world)))
        (cfg_OracleKeyPath (Load (w_getenv demo_world))) fs),
       \<lparr>dk_keyfs = fs, dk_receipts = (rdb, []), dk_violations = (vdb, []), dk_audit = (adb, [])\<rparr>)"
    (is "_ = (Inr ?s, _)") by (simp add: runServer_def blank_disk_def Let_def)
  obtain db' where a: "Bolt_Append refBolt ?J demo_receipt rdb = (None, db')"
    using demo_append [OF refstore.rep_open_fresh [OF o(1)]] by blast
  obtain h where b: "buildReceiptLocked svc_prims toy_codec ''id1'' 5 ''t1'' (pol_ID eu_policy) demo_path ?g = (Inr (demo_receipt, h), ?g)"
    using demo_built by blast
  have i: "IssueAndAppend svc_prims toy_codec (BoltStoreOps refBolt ?J) ''id1'' 5 ''t1'' (pol_ID eu_policy) demo_path (?g, (rdb, [])) =
      (Inr demo_receipt, ?g\<lparr>g_seqNo := rcpt_SeqNo demo_receipt, g_lastHash := Some h\<rparr>, (db', [demo_receipt]))"
    using a by (simp add: IssueAndAppend_def b BoltStoreOps_def)
  have e: "cfg_APIToken (Load (w_getenv demo_world)) = ''''"
    "selectPathExtractor (w_decodeHops demo_world) (Load (w_getenv demo_world)) = MockPathExtractor (\<lambda>raw. Some [ch_hop])"
    by (simp_all add: Load_def demo_world_def selectPathExtractor_def envOr_def)
  have id1: "itoa (Suc 0) = ''1''" by code_simp
  have "sv_receipts (snd (Handler (boltDeps svc_prims toy_codec (\<lambda>_. None) demo_codecs) demo_env demo_check ?s)) = (db', [demo_receipt])"
    using demo_compliant i tx by (auto simp: id1 callPath_def Handler_def recoveryMiddleware_def bearerAuthMiddleware_def demo_check_def routes_def handleCheck_def NewServer_def e
        demo_env_def issueReceipt_def audit_def auditCapacity_def Let_def)
  with r show ?thesis by blast
qed


lemma SeedChain_threshold: "SeedChain P S st g = (e, g') \<Longrightarrow> g_threshold g' = g_threshold g"
  by (auto simp: SeedChain_def Let_def split: sum.splits option.splits if_splits)

lemma configureGenerator_threshold:
  assumes "configureGenerator P W c g = Inr g'" "g_threshold g = None" "g_threshold g' \<noteq> None"
  shows "1 \<le> cfg_ThresholdK c \<and> cfg_ThresholdK c \<le> cfg_ThresholdN c"
  using assms
  by (auto simp: configureGenerator_def WithProofProvider_def NewThresholdOracle_def split: if_splits sum.splits)

lemma NewGeneratorFromFile_threshold:
  "NewGeneratorFromFile P fromSeed F genKey tmp path fs = (Inr g, fs') \<Longrightarrow> g_threshold g = None"
  by (auto simp: NewGeneratorFromFile_def NewGeneratorWithKeys_def Let_def split: if_splits option.splits prod.splits)

text \<open>
  C13. A server never runs open by accident.  If \<open>runServer\<close> reaches the point of serving, then the
  configuration was complete: requests to the API need the configured bearer token unless the
  operator opted out by name, TLS has both files unless plain HTTP was allowed by name, the
  threshold group is well-formed, every policy in force is a strict one with an identifier and a
  non-empty corridor, and there is at least one validator, all with distinct identifiers and
  addresses.  In SCION mode every path a client supplies is rejected.
\<close>

theorem runServer_fails_closed:
  assumes "runServer P fromSeed C W d = (Inr s, d')"
  shows "let c = Load (w_getenv W) in
    (sv_apiToken s \<noteq> '''' \<or> w_getenv W ''JURISPATH_UNAUTHENTICATED_API'' = ''true'') \<and>
    (TLSEnabled c \<and> w_stat W (cfg_TLSCert c) \<and> w_stat W (cfg_TLSKey c) \<or>
      cfg_TLSCert c = '''' \<and> cfg_TLSKey c = '''' \<and> w_getenv W ''JURISPATH_INSECURE'' = ''true'') \<and>
    (g_threshold (sv_generator s) \<noteq> None \<longrightarrow> 1 \<le> cfg_ThresholdK c \<and> cfg_ThresholdK c \<le> cfg_ThresholdN c) \<and>
    (\<forall>p\<in>set (sv_policies s). pol_ID p \<noteq> '''' \<and> pol_AllowedISDs p \<noteq> [] \<and> pol_Mode p = ModeStrict) \<and>
    ce_validators (sv_engine s) \<noteq> [] \<and> distinct (map vs_ID (ce_validators (sv_engine s))) \<and>
    (\<forall>v\<in>set (ce_validators (sv_engine s)). vs_ID v \<noteq> '''' \<and> vs_Address v \<noteq> '''') \<and>
    (cfg_SCIONMode c \<longrightarrow> (\<forall>raw. \<exists>e. BuildSCIONPath P (sv_extractor s) raw = Inl e))"
proof (rule runServer_Inr [OF assms])
  let ?c = "Load (w_getenv W)"
  fix ps gen ce fs rdb gen1 vdb adb
  assume p: "prepare P fromSeed W ?c (dk_keyfs d) = (Inr (ps, gen, ce), fs)"
    and seed: "SeedChain P (BoltStoreOps (cd_bolt C) (cd_receipt C)) (rdb, snd (dk_receipts d)) gen = (None, gen1)"
    and s: "s = NewServer ps gen1 (selectPathExtractor (w_decodeHops W) ?c) ce (rdb, snd (dk_receipts d))
       (NewDetector (vdb, snd (dk_violations d))) (w_now W) (cfg_APIToken ?c) (cfg_AdminToken ?c) (cfg_OracleKeyPath ?c) fs"
  have f: "sv_apiToken s = cfg_APIToken ?c" "sv_generator s = gen1" "sv_policies s = ps" "sv_engine s = ce"
    "sv_extractor s = selectPathExtractor (w_decodeHops W) ?c" by (simp_all add: s NewServer_def)
  obtain g0 configs where v: "Validate_Config (w_stat W) ?c = None"
    and ps: "LoadAllFromDir (w_readDir W) (w_readFile W) (w_join W) (w_yamlPolicy W) (cfg_PolicyDir ?c) = Inr ps"
    and g0: "NewGeneratorFromFile P fromSeed (w_keyFaults W) (w_genKey W) (w_tmp W) (cfg_OracleKeyPath ?c) (dk_keyfs d) = (Inr g0, fs)"
    and g: "configureGenerator P W ?c g0 = Inr gen"
    and vc: "LoadValidators (w_readFile W) (w_yamlValidators W) (cfg_ValidatorsFile ?c) = Inr configs"
    and ce: "ce = NewConsensusEngine (NewLedger (map validatorState configs)) (map validatorState configs)"
    by (rule prepare_Inr [OF p])
  have opt: "cfg_AllowUnauthAPI ?c \<longleftrightarrow> w_getenv W ''JURISPATH_UNAUTHENTICATED_API'' = ''true''"
    "cfg_AllowInsecure ?c \<longleftrightarrow> w_getenv W ''JURISPATH_INSECURE'' = ''true''" by (simp_all add: Load_def)
  from v have tok: "sv_apiToken s \<noteq> '''' \<or> w_getenv W ''JURISPATH_UNAUTHENTICATED_API'' = ''true''"
    and tls: "TLSEnabled ?c \<and> w_stat W (cfg_TLSCert ?c) \<and> w_stat W (cfg_TLSKey ?c) \<or>
      cfg_TLSCert ?c = '''' \<and> cfg_TLSKey ?c = '''' \<and> w_getenv W ''JURISPATH_INSECURE'' = ''true''"
    by (auto simp: Validate_Config_None_iff f(1) opt TLSEnabled_def split: if_splits)
  have thr: "1 \<le> cfg_ThresholdK ?c \<and> cfg_ThresholdK ?c \<le> cfg_ThresholdN ?c" if "g_threshold (sv_generator s) \<noteq> None"
    using configureGenerator_threshold [OF g NewGeneratorFromFile_threshold [OF g0]] SeedChain_threshold [OF seed] that f(2) by simp
  have pol: "\<forall>p\<in>set (sv_policies s). pol_ID p \<noteq> '''' \<and> pol_AllowedISDs p \<noteq> [] \<and> pol_Mode p = ModeStrict"
    using LoadAllFromDir_policies [OF ps] by (simp add: f(3) valid_policy_def)
  from vc have "ce_validators ce \<noteq> []" "distinct (map vs_ID (ce_validators ce))"
    "\<forall>v\<in>set (ce_validators ce). vs_ID v \<noteq> '''' \<and> vs_Address v \<noteq> ''''"
    by (auto simp: LoadValidators_Inr_iff ce NewConsensusEngine_def validatorState_def comp_def)
  moreover have "\<exists>e. BuildSCIONPath P (sv_extractor s) raw = Inl e" if "cfg_SCIONMode ?c" for raw
    using that by (simp add: f(5) selectPathExtractor_def BuildSCIONPath_def NewRejectingPathExtractor_def Let_def)
  ultimately show ?thesis using tok tls thr pol by (simp add: Let_def f(4))
qed

theorem runServer_fails_closed_witness:
  "\<exists>s d. runServer svc_prims toy_fromSeed (refCodecs []) demo_world blank_disk = (Inr s, d) \<and>
     ce_validators (sv_engine s) \<noteq> [] \<and> (\<forall>p\<in>set (sv_policies s). pol_Mode p = ModeStrict)"
proof -
  obtain s d where r: "runServer svc_prims toy_fromSeed (refCodecs []) demo_world blank_disk = (Inr s, d)" using demo_starts by blast
  from runServer_fails_closed [OF r] r show ?thesis by (auto simp: Let_def)
qed

end
