(* ===== verification/JP_Process.thy ===== *)
theory JP_Process
  imports JP_Main
begin

text \<open>
  The rest of \<^verbatim>\<open>cmd/jurispath/main.go\<close>: the log level, and what \<open>runServer\<close> does once the listener
  runs, up to the exit code of the process and the state it leaves on disk.
\<close>

section \<open>The log level\<close>

datatype LogLevel = LevelDebug | LevelInfo | LevelWarn | LevelError

text \<open>
  \<open>strings.ToLower\<close> as far as a comparison with an ASCII word can tell: besides the ASCII capitals
  only U+0130 and the Kelvin sign U+212A have an ASCII letter as their lower case.
\<close>

definition lowerChar :: "char \<Rightarrow> char" where
  "lowerChar c = (if (65 :: nat) \<le> of_char c \<and> of_char c \<le> (90 :: nat) then char_of (of_char c + 32 :: nat) else c)"

fun ToLower :: "string \<Rightarrow> string" where
  "ToLower (c # d # e # s) =
     (if [c, d] = [CHR 0xC4, CHR 0xB0] then CHR ''i'' # ToLower (e # s)
      else if [c, d, e] = [CHR 0xE2, CHR 0x84, CHR 0xAA] then CHR ''k'' # ToLower s
      else lowerChar c # ToLower (d # e # s))"
| "ToLower [c, d] = (if [c, d] = [CHR 0xC4, CHR 0xB0] then [CHR ''i''] else [lowerChar c, lowerChar d])"
| "ToLower [c] = [lowerChar c]"
| "ToLower [] = []"

definition logLevel :: "Config \<Rightarrow> LogLevel" where
  "logLevel c =
     (let l = ToLower (cfg_LogLevel c) in
      if l = ''debug'' then LevelDebug
      else if l = ''warn'' \<or> l = ''warning'' then LevelWarn
      else if l = ''error'' then LevelError
      else LevelInfo)"

section \<open>The listener\<close>

text \<open>
  From \<^verbatim>\<open>internal/api/server.go\<close>: the outermost wrapper, which sets one header before the handler
  runs (the other headers of a response are not modelled), and the configuration of the listener.
\<close>

definition contentSecurityPolicy :: string where
  "contentSecurityPolicy =
     ''default-src 'self'; connect-src 'self'; style-src 'self' 'unsafe-inline'; script-src 'self'; object-src 'none'; base-uri 'none'; frame-ancestors 'none'' @ [CHR 0x27]"

definition securityHeadersMiddleware ::
  "('q \<Rightarrow> 's \<Rightarrow> 'r \<times> 's) \<Rightarrow> 'q \<Rightarrow> 's \<Rightarrow> ((string \<times> string) list \<times> 'r) \<times> 's" where
  "securityHeadersMiddleware handler req s =
     (case handler req s of (r, s') \<Rightarrow> (([(''Content-Security-Policy'', contentSecurityPolicy)], r), s'))"

record 'h HTTPServer =
  hs_Addr :: string
  hs_Handler :: 'h
  hs_ReadHeaderTimeout :: duration
  hs_ReadTimeout :: duration
  hs_WriteTimeout :: duration
  hs_IdleTimeout :: duration
  hs_MaxHeaderBytes :: nat

definition NewHTTPServer :: "string \<Rightarrow> 'h \<Rightarrow> 'h HTTPServer" where
  "NewHTTPServer addr handler =
     \<lparr>hs_Addr = addr, hs_Handler = handler, hs_ReadHeaderTimeout = 5 * second, hs_ReadTimeout = 30 * second,
      hs_WriteTimeout = 30 * second, hs_IdleTimeout = 120 * second, hs_MaxHeaderBytes = 2 ^ 20\<rparr>"

text \<open>What \<open>runServer\<close> starts: a listener with or without TLS.\<close>

datatype 'h Listener = ListenTLS "'h HTTPServer" string string | ListenPlain "'h HTTPServer"

definition startListener :: "Config \<Rightarrow> 'h \<Rightarrow> 'h Listener" where
  "startListener c handler =
     (let httpServer = NewHTTPServer (cfg_ListenAddr c) handler in
      if TLSEnabled c then ListenTLS httpServer (cfg_TLSCert c) (cfg_TLSKey c) else ListenPlain httpServer)"

text \<open>A process that came up listens without TLS only when its operator asked for it.\<close>

lemma plain_listener_opt_in:
  assumes "runServer P fromSeed C W d = (Inr s, d')" "startListener (Load (w_getenv W)) h = ListenPlain hs"
  shows "cfg_AllowInsecure (Load (w_getenv W))"
proof (rule runServer_Inr [OF assms(1)])
  fix ps gen ce fs
  assume "prepare P fromSeed W (Load (w_getenv W)) (dk_keyfs d) = (Inr (ps, gen, ce), fs)"
  then have "Validate_Config (w_stat W) (Load (w_getenv W)) = None" by (rule prepare_Inr)
  with assms(2) show ?thesis by (auto simp: Validate_Config_None_iff startListener_def TLSEnabled_def Let_def split: if_splits)
qed

section \<open>Serving and stopping\<close>

text \<open>
  What ends the wait: the listener returns, or a signal arrives; in the second case the outcome of
  \<open>Shutdown\<close> and then the error the listener returns.  \<open>ErrServerClosed\<close> is the error of a listener
  that was shut down.
\<close>

datatype ListenError = ErrServerClosed | ListenFailed string

datatype Wait =
    ListenerEnded "ListenError option"
  | Signalled "string option" "ListenError option"

definition isFatal :: "ListenError option \<Rightarrow> bool" where
  "isFatal e \<longleftrightarrow> (case e of None \<Rightarrow> False | Some ErrServerClosed \<Rightarrow> False | Some (ListenFailed _) \<Rightarrow> True)"

definition awaitExit :: "Wait \<Rightarrow> int" where
  "awaitExit w =
     (case w of
        ListenerEnded e \<Rightarrow> if isFatal e then 1 else 0
      | Signalled shutdownErr e \<Rightarrow>
          if shutdownErr \<noteq> None then 1 else if isFatal e then 1 else 0)"

text \<open>
  The whole run: a failed start exits with 1; otherwise requests, subscriptions and audit writes
  happen (\<open>life\<close>) until the wait ends, and the deferred \<open>Close\<close> of the server drains the audit
  channel into the log, whatever the exit code.
\<close>

definition serverProcess ::
  "prims \<Rightarrow> (bytes \<Rightarrow> bytes) \<Rightarrow> 'b Codecs \<Rightarrow> ('io, 'ia, 'as, 'a) World
   \<Rightarrow> (('b boltDB \<times> ComplianceReceipt list, 'b boltDB \<times> Violation list) Server \<Rightarrow> 'b boltDB \<times> AuditEntry list
       \<Rightarrow> ('b boltDB \<times> ComplianceReceipt list, 'b boltDB \<times> Violation list) Server \<times> ('b boltDB \<times> AuditEntry list))
   \<Rightarrow> Wait \<Rightarrow> 'b Disk \<Rightarrow> int \<times> 'b Disk" where
  "serverProcess P fromSeed C W life wait disk =
     (case runServer P fromSeed C W disk of
        (Inl e, d) \<Rightarrow> (1, d)
      | (Inr s, d) \<Rightarrow>
          (case life s (dk_audit d) of
             (s1, l1) \<Rightarrow>
               (case Server_Close (auditSink (cd_bolt C) (cd_audit C)) s1 l1 of
                  (s2, l2) \<Rightarrow> (awaitExit wait, remains s2 l2))))"

lemma awaitExit_zero_iff:
  "awaitExit w = 0 \<longleftrightarrow> (\<exists>e. \<not> isFatal e \<and> (w = ListenerEnded e \<or> w = Signalled None e))"
  by (cases w) (auto simp: awaitExit_def)

lemma serverProcess_exit: "fst (serverProcess P fromSeed C W life wait disk) \<in> {0, 1}"
  by (auto simp: serverProcess_def awaitExit_def split: prod.split sum.split Wait.split)

text \<open>A run is a run of the deployment: what it leaves on disk is reached by deployment steps.\<close>

lemma serverProcess_reach:
  assumes "runServer P fromSeed C W d = (Inr s, d1) \<Longrightarrow> sound_start P fromSeed rv policies W d"
    and "\<forall>s l. deploy_reach P fromSeed J js C rv policies TYPE(('io, 'ia, 'as, 'a) World) (Up s l) (Up (fst (life s l)) (snd (life s l)))"
    and "serverProcess P fromSeed C (W :: ('io, 'ia, 'as, 'a) World) life wait d = (code, d')"
    and "runServer P fromSeed C W d = (Inr s, d1) \<or> (\<exists>e. runServer P fromSeed C W d = (Inl e, d1))"
  shows "deploy_reach P fromSeed J js C rv policies TYPE(('io, 'ia, 'as, 'a) World) (Down d) (Down d')"
  using assms(4)
proof
  assume r: "runServer P fromSeed C W d = (Inr s, d1)"
  obtain s1 l1 where l: "life s (dk_audit d1) = (s1, l1)" by (rule prod.exhaust)
  obtain s2 l2 where c: "Server_Close (auditSink (cd_bolt C) (cd_audit C)) s1 l1 = (s2, l2)" by (rule prod.exhaust)
  from assms(3) r l c have d': "d' = remains s2 l2" by (simp add: serverProcess_def)
  have "deploy_step P fromSeed J js C rv policies TYPE(('io, 'ia, 'as, 'a) World) (Down d) (Up s (dk_audit d1))"
    by (rule dp_start [OF assms(1) [OF r] r])
  moreover have "deploy_reach P fromSeed J js C rv policies TYPE(('io, 'ia, 'as, 'a) World) (Up s (dk_audit d1)) (Up s1 l1)"
    using assms(2) l by (metis fst_conv snd_conv)
  moreover have "deploy_step P fromSeed J js C rv policies TYPE(('io, 'ia, 'as, 'a) World) (Up s1 l1) (Down d')"
    unfolding d' by (rule dp_stop [OF c])
  ultimately show ?thesis by (meson converse_rtranclp_into_rtranclp rtranclp.rtrancl_into_rtrancl)
next
  assume "\<exists>e. runServer P fromSeed C W d = (Inl e, d1)"
  then obtain e where r: "runServer P fromSeed C W d = (Inl e, d1)" by blast
  with assms(3) have "d' = d1" by (simp add: serverProcess_def)
  with dp_fail [OF r] show ?thesis by (simp add: r_into_rtranclp)
qed

end
