(* ===== verification/JP_Events.thy ===== *)
theory JP_Events
  imports JP_Violation "HOL-Library.Sublist"
begin

text \<open>
  The event stream \<open>GET /api/events\<close>, \<open>handleSSE\<close> of \<^verbatim>\<open>internal/api/server.go\<close>: a client subscribes
  to the violation detector, every violation taken from its channel becomes one event, and the
  channel is given up when the client leaves.  The loop is a step, \<open>sseNext\<close>; the disconnection is
  \<open>sseClose\<close>.  \<open>marshal\<close> is the JSON encoder.
\<close>

section \<open>handleSSE\<close>

text \<open>A response writer that cannot flush is refused before anything is subscribed.\<close>

definition sseOpen :: "bool \<Rightarrow> 'v Detector \<Rightarrow> nat option \<times> 'v Detector" where
  "sseOpen flushable d =
     (if \<not> flushable then (None, d) else case Subscribe d of (c, d') \<Rightarrow> (Some c, d'))"

definition sseFrame :: "string \<Rightarrow> string" where
  "sseFrame data = ''event: violation'' @ [CHR 0x0A] @ ''data: '' @ data @ [CHR 0x0A, CHR 0x0A]"

text \<open>One turn of the loop: \<open>None\<close> blocks; a closed channel yields the nil pointer, encoded as null.\<close>

definition sseNext :: "(Violation \<Rightarrow> string) \<Rightarrow> nat \<Rightarrow> 'v Detector \<Rightarrow> (string \<times> 'v Detector) option" where
  "sseNext marshal c d =
     (case ch_buf (det_chans d c) of
        v # vs \<Rightarrow> Some (sseFrame (marshal v), d\<lparr>det_chans := (det_chans d)(c := (det_chans d c)\<lparr>ch_buf := vs\<rparr>)\<rparr>)
      | [] \<Rightarrow> if ch_closed (det_chans d c) then Some (sseFrame ''null'', d) else None)"

definition sseClose :: "nat \<Rightarrow> 'v Detector \<Rightarrow> 'v Detector" where
  "sseClose c d = Unsubscribe c d"

section \<open>The life of a stream\<close>

text \<open>
  What can happen while one client is connected on channel \<open>c\<close>: violations are recorded (\<open>evs\<close>),
  events are written to the client (\<open>out\<close>), and other clients come, read and go.  \<open>lost\<close> says
  whether a violation was recorded while the client's buffer was full.
\<close>

inductive sse_life ::
  "'v ViolationStore \<Rightarrow> (Violation \<Rightarrow> string) \<Rightarrow> nat \<Rightarrow> Violation list \<Rightarrow> string list \<Rightarrow> bool \<Rightarrow> 'v Detector \<Rightarrow> bool"
  for V marshal c where
  connect: "det_inv d0 \<Longrightarrow> sseOpen True d0 = (Some c, d) \<Longrightarrow> sse_life V marshal c [] [] False d"
| recorded: "sse_life V marshal c evs out lost d \<Longrightarrow> Record V uid now tx pol clause path off d = Some (v, d') \<Longrightarrow>
    sse_life V marshal c (evs @ [v]) out (lost \<or> length (ch_buf (det_chans d c)) \<ge> chanCapacity) d'"
| deliver: "sse_life V marshal c evs out lost d \<Longrightarrow> sseNext marshal c d = Some (f, d') \<Longrightarrow> sse_life V marshal c evs (out @ [f]) lost d'"
| join: "sse_life V marshal c evs out lost d \<Longrightarrow> sseOpen True d = (x, d') \<Longrightarrow> sse_life V marshal c evs out lost d'"
| other: "sse_life V marshal c evs out lost d \<Longrightarrow> c' \<noteq> c \<Longrightarrow> sseNext marshal c' d = Some (f, d') \<Longrightarrow> sse_life V marshal c evs out lost d'"
| leave: "sse_life V marshal c evs out lost d \<Longrightarrow> c' \<noteq> c \<Longrightarrow> sse_life V marshal c evs out lost (sseClose c' d)"

inductive_cases sse_lifeE: "sse_life V marshal c evs out lost d"

definition stream_ok :: "(Violation \<Rightarrow> string) \<Rightarrow> nat \<Rightarrow> Violation list \<Rightarrow> string list \<Rightarrow> bool \<Rightarrow> 'v Detector \<Rightarrow> bool" where
  "stream_ok marshal c evs out lost d \<longleftrightarrow> det_inv d \<and> c \<in> set (det_listeners d) \<and>
     (\<exists>seen. out = map (\<lambda>v. sseFrame (marshal v)) seen \<and> subseq (seen @ ch_buf (det_chans d c)) evs \<and>
        (\<not> lost \<longrightarrow> seen @ ch_buf (det_chans d c) = evs))"

lemma det_inv_sseNext: "det_inv d \<Longrightarrow> sseNext marshal x d = Some (f, d') \<Longrightarrow> det_inv d'"
  by (fastforce simp: det_inv_def sseNext_def split: list.splits if_splits)

lemma sseNext_frame: "sseNext marshal x d = Some (f, d') \<Longrightarrow> det_listeners d' = det_listeners d \<and> (\<forall>y. y \<noteq> x \<longrightarrow> det_chans d' y = det_chans d y)"
  by (auto simp: sseNext_def split: list.splits if_splits)

lemma stream_recorded:
  assumes "stream_ok marshal c evs out lost d" "Record V uid now tx pol clause path off d = Some (v, d')"
  shows "stream_ok marshal c (evs @ [v]) out (lost \<or> length (ch_buf (det_chans d c)) \<ge> chanCapacity) d'"
proof -
  from assms(1) obtain seen where i: "det_inv d" "c \<in> set (det_listeners d)" "out = map (\<lambda>v. sseFrame (marshal v)) seen"
    "subseq (seen @ ch_buf (det_chans d c)) evs" "\<not> lost \<longrightarrow> seen @ ch_buf (det_chans d c) = evs" by (auto simp: stream_ok_def)
  show ?thesis
  proof (rule Record_ok [OF i(1), of V uid now tx pol clause path off])
    fix v0 d0
    assume "Record V uid now tx pol clause path off d = Some (v0, d0)" and d: "det_inv d0" "det_listeners d0 = det_listeners d"
      "\<And>c. det_chans d0 c = (if c \<in> set (det_listeners d) \<and> length (ch_buf (det_chans d c)) < chanCapacity
                           then (det_chans d c)\<lparr>ch_buf := ch_buf (det_chans d c) @ [v0]\<rparr> else det_chans d c)"
    with assms(2) have e: "v0 = v" "d0 = d'" by simp_all
    have "subseq ((seen @ ch_buf (det_chans d c)) @ [v]) (evs @ [v])" using i(4) by (intro list_emb_append_mono) simp_all
    moreover have "subseq (seen @ ch_buf (det_chans d c)) (evs @ [v])" using i(4) by (rule list_emb_prefix)
    ultimately show ?thesis using i d e by (auto simp: stream_ok_def intro!: exI [of _ seen])
  qed
qed

lemma stream_deliver:
  assumes "stream_ok marshal c evs out lost d" "sseNext marshal c d = Some (f, d')"
  shows "stream_ok marshal c evs (out @ [f]) lost d'"
proof -
  from assms(1) obtain seen where i: "det_inv d" "c \<in> set (det_listeners d)" "out = map (\<lambda>v. sseFrame (marshal v)) seen"
    "subseq (seen @ ch_buf (det_chans d c)) evs" "\<not> lost \<longrightarrow> seen @ ch_buf (det_chans d c) = evs" by (auto simp: stream_ok_def)
  from i(1,2) have "\<not> ch_closed (det_chans d c)" by (simp add: det_inv_def)
  with assms(2) obtain v vs where b: "ch_buf (det_chans d c) = v # vs" "f = sseFrame (marshal v)"
    "d' = d\<lparr>det_chans := (det_chans d)(c := (det_chans d c)\<lparr>ch_buf := vs\<rparr>)\<rparr>"
    by (auto simp: sseNext_def split: list.splits)
  with i det_inv_sseNext [OF i(1) assms(2)] show ?thesis by (auto simp: stream_ok_def intro!: exI [of _ "seen @ [v]"])
qed

lemma stream_life: "sse_life V marshal c evs out lost d \<Longrightarrow> stream_ok marshal c evs out lost d"
proof (induction rule: sse_life.induct)
  case (connect d0 d)
  then show ?case
    using det_inv_Subscribe [OF connect(1)] by (auto simp: stream_ok_def sseOpen_def Subscribe_def)
next
  case (join evs out lost d x d')
  then have "det_inv d" "c \<in> set (det_listeners d)" by (simp_all add: stream_ok_def)
  moreover from this have "c \<noteq> det_next d" by (auto simp: det_inv_def)
  ultimately show ?case
    using join det_inv_Subscribe [of d] by (auto simp: stream_ok_def sseOpen_def Subscribe_def)
next
  case (other evs out lost d c' f d')
  with sseNext_frame [OF other(3)] det_inv_sseNext [of d marshal c' f d'] show ?case by (auto simp: stream_ok_def)
next
  case (leave evs out lost d c')
  then show ?case
    using det_inv_Unsubscribe [of d c'] by (auto simp: stream_ok_def sseClose_def Unsubscribe_def)
qed (simp_all add: stream_recorded stream_deliver)



end
