(* ===== verification/JP_Conn.thy ===== *)
theory JP_Conn
  imports JP_Scion
begin

text \<open>
  Talking to the SCION daemon: \<^verbatim>\<open>internal/scion/conn.go\<close> and the path query of
  \<^verbatim>\<open>internal/scion/querier.go\<close>.  The daemon client and the network stack are libraries: a record of
  their calls over the state \<open>'w\<close> of the world, connections being values of \<open>'c\<close>.
\<close>

section \<open>conn.go\<close>

record ('ia, 'c, 'ap, 'w) Daemon =
  dm_Connect :: "string \<Rightarrow> 'w \<Rightarrow> (string + 'c) \<times> 'w"
  dm_LocalIA :: "'c \<Rightarrow> 'w \<Rightarrow> (string + 'ia) \<times> 'w"
  dm_PortRange :: "'c \<Rightarrow> 'w \<Rightarrow> (string + (uint16 \<times> uint16)) \<times> 'w"
  dm_Interfaces :: "'c \<Rightarrow> 'w \<Rightarrow> (string + (uint16 \<rightharpoonup> 'ap)) \<times> 'w"
  dm_Paths :: "'c \<Rightarrow> 'ia \<Rightarrow> 'ia \<Rightarrow> 'w \<Rightarrow> (string + 'ia SnetPath list) \<times> 'w"
  dm_Close :: "'c \<Rightarrow> 'w \<Rightarrow> 'w"

text \<open>The topology of an \<open>snet.SCIONNetwork\<close>.\<close>

record ('ia, 'ap) SCIONNetwork =
  sn_LocalIA :: 'ia
  sn_PortRange :: "uint16 \<times> uint16"
  sn_Interface :: "uint16 \<rightharpoonup> 'ap"

datatype ConnError =
    ConnectingToDaemon string string
  | QueryingLocalIA string
  | QueryingPortRange string
  | QueryingInterfaces string
  | SCIONDial string
  | SCIONListen string

definition NewSCIONNetwork ::
  "('ia, 'c, 'ap, 'w) Daemon \<Rightarrow> string \<Rightarrow> 'w \<Rightarrow> (ConnError + ('ia, 'ap) SCIONNetwork \<times> 'ia) \<times> 'w" where
  "NewSCIONNetwork D daemonAddr w0 =
     (case dm_Connect D daemonAddr w0 of
        (Inl e, w1) \<Rightarrow> (Inl (ConnectingToDaemon daemonAddr e), w1)
      | (Inr conn, w1) \<Rightarrow>
         (case dm_LocalIA D conn w1 of
            (Inl e, w2) \<Rightarrow> (Inl (QueryingLocalIA e), dm_Close D conn w2)
          | (Inr localIA, w2) \<Rightarrow>
             (case dm_PortRange D conn w2 of
                (Inl e, w3) \<Rightarrow> (Inl (QueryingPortRange e), dm_Close D conn w3)
              | (Inr portRange, w3) \<Rightarrow>
                 (case dm_Interfaces D conn w3 of
                    (Inl e, w4) \<Rightarrow> (Inl (QueryingInterfaces e), dm_Close D conn w4)
                  | (Inr interfaces, w4) \<Rightarrow>
                      (Inr (\<lparr>sn_LocalIA = localIA, sn_PortRange = portRange, sn_Interface = interfaces\<rparr>, localIA),
                       dm_Close D conn w4)))))"

text \<open>The socket calls of the network, which the two wrappers only relabel.\<close>

record ('net, 'u, 'r, 's, 'w) Sockets =
  sk_Dial :: "'net \<Rightarrow> 'u \<Rightarrow> 'r \<Rightarrow> 'w \<Rightarrow> (string + 's) \<times> 'w"
  sk_Listen :: "'net \<Rightarrow> 'u \<Rightarrow> 'w \<Rightarrow> (string + 's) \<times> 'w"

definition Dial :: "('net, 'u, 'r, 's, 'w) Sockets \<Rightarrow> 'net \<Rightarrow> 'u \<Rightarrow> 'r \<Rightarrow> 'w \<Rightarrow> (ConnError + 's) \<times> 'w" where
  "Dial S network localAddr remoteAddr w =
     (case sk_Dial S network localAddr remoteAddr w of
        (Inl e, w') \<Rightarrow> (Inl (SCIONDial e), w')
      | (Inr conn, w') \<Rightarrow> (Inr conn, w'))"

definition Listen :: "('net, 'u, 'r, 's, 'w) Sockets \<Rightarrow> 'net \<Rightarrow> 'u \<Rightarrow> 'w \<Rightarrow> (ConnError + 's) \<times> 'w" where
  "Listen S network localAddr w =
     (case sk_Listen S network localAddr w of
        (Inl e, w') \<Rightarrow> (Inl (SCIONListen e), w')
      | (Inr conn, w') \<Rightarrow> (Inr conn, w'))"

section \<open>querier.go: path queries\<close>

record 'c PathQuerier =
  pq_Conn :: 'c

definition NewPathQuerier :: "'c \<Rightarrow> 'c PathQuerier" where
  "NewPathQuerier conn = \<lparr>pq_Conn = conn\<rparr>"

definition QueryPaths ::
  "('ia, 'c, 'ap, 'w) Daemon \<Rightarrow> 'c PathQuerier \<Rightarrow> 'ia \<Rightarrow> 'ia \<Rightarrow> 'w \<Rightarrow> (string + 'ia SnetPath list) \<times> 'w" where
  "QueryPaths D q dst src w =
     (case dm_Paths D (pq_Conn q) dst src w of
        (Inl e, w') \<Rightarrow> (Inl e, w')
      | (Inr paths, w') \<Rightarrow> (Inr paths, w'))"

section \<open>No connection is left open\<close>

text \<open>
  A daemon client as far as its connections go: connecting opens a fresh one or none, queries open
  and close nothing, and \<open>Close\<close> closes the one it is given.
\<close>

definition tracks_connections :: "('w \<Rightarrow> 'c set) \<Rightarrow> ('ia, 'c, 'ap, 'w) Daemon \<Rightarrow> bool" where
  "tracks_connections conns D \<longleftrightarrow>
     (\<forall>a w e w'. dm_Connect D a w = (Inl e, w') \<longrightarrow> conns w' = conns w) \<and>
     (\<forall>a w c w'. dm_Connect D a w = (Inr c, w') \<longrightarrow> c \<notin> conns w \<and> conns w' = insert c (conns w)) \<and>
     (\<forall>c w. conns (snd (dm_LocalIA D c w)) = conns w \<and> conns (snd (dm_PortRange D c w)) = conns w \<and>
            conns (snd (dm_Interfaces D c w)) = conns w \<and> conns (dm_Close D c w) = conns w - {c})"

lemma NewSCIONNetwork_closes:
  assumes "tracks_connections conns D" "NewSCIONNetwork D daemonAddr w = (res, w')"
  shows "conns w' = conns w"
proof -
  from assms(1) have q: "conns (snd (dm_LocalIA D c w)) = conns w" "conns (snd (dm_PortRange D c w)) = conns w"
    "conns (snd (dm_Interfaces D c w)) = conns w" "conns (dm_Close D c w) = conns w - {c}" for c w
    by (simp_all add: tracks_connections_def)
  obtain r w1 where c: "dm_Connect D daemonAddr w = (r, w1)" by (rule prod.exhaust)
  show ?thesis
  proof (cases r)
    case (Inl e)
    with assms c show ?thesis by (auto simp: NewSCIONNetwork_def tracks_connections_def)
  next
    case (Inr conn)
    with assms(1) c have "conn \<notin> conns w" "conns w1 = insert conn (conns w)" by (auto simp: tracks_connections_def)
    moreover define w2 w3 w4 where "w2 = snd (dm_LocalIA D conn w1)" and "w3 = snd (dm_PortRange D conn w2)"
      and "w4 = snd (dm_Interfaces D conn w3)"
    moreover from this assms(2) c Inr have "w' \<in> {dm_Close D conn w2, dm_Close D conn w3, dm_Close D conn w4}"
      by (auto simp: NewSCIONNetwork_def split: prod.splits sum.splits)
    ultimately show ?thesis using q by auto
  qed
qed

text \<open>What a query returns after filtering is compliant with the policy it was filtered for.\<close>

lemma QueryPaths_filtered:
  assumes "QueryPaths D q dst src w = (Inr paths, w')" "p \<in> set (FilterCompliant A paths isds)"
  shows "\<exists>ifs. dm_Paths D (pq_Conn q) dst src w = (Inr paths, w') \<and> p \<in> set paths \<and> sp_Interfaces p = Some ifs \<and>
    (\<forall>ia\<in>set ifs. ia_ISD A ia \<in> set isds)"
  using assms by (auto simp: QueryPaths_def FilterCompliant_eq split: prod.splits sum.splits option.splits)

end
