(* ===== verification/JP_CliSpec.thy ===== *)
theory JP_CliSpec
  imports JP_Scion
begin

text \<open>
  The path specifications of the command line client (\<^verbatim>\<open>cmd/jurispath/cli.go\<close>): a comma-separated
  list of ISD-AS addresses for \<open>--path\<close>, semicolon-separated lists of them for \<open>--paths\<close>, with the
  functions of Go's \<open>strings\<close> package they are parsed with.
\<close>

section \<open>Functions of the strings package\<close>

text \<open>
  The UTF-8 encodings of the code points \<open>unicode.IsSpace\<close> accepts.  \<open>TrimSpace\<close> removes them from
  both ends.  The first byte of an encoding is never a continuation byte, so a string that ends in
  the bytes of one ends in that code point.
\<close>

definition spaceRunes :: "string list" where
  "spaceRunes =
     [[CHR 0x09], [CHR 0x0A], [CHR 0x0B], [CHR 0x0C], [CHR 0x0D], [CHR 0x20],
      [CHR 0xC2, CHR 0x85], [CHR 0xC2, CHR 0xA0], [CHR 0xE1, CHR 0x9A, CHR 0x80]]
     @ map (\<lambda>i. [CHR 0xE2, CHR 0x80, char_of (128 + i)]) [0..<11]
     @ [[CHR 0xE2, CHR 0x80, CHR 0xA8], [CHR 0xE2, CHR 0x80, CHR 0xA9], [CHR 0xE2, CHR 0x80, CHR 0xAF],
        [CHR 0xE2, CHR 0x81, CHR 0x9F], [CHR 0xE3, CHR 0x80, CHR 0x80]]"

lemma hasPrefix_shorter: "p \<noteq> [] \<Longrightarrow> hasPrefix s p \<Longrightarrow> length (drop (length p) s) < length s"
  by (auto simp: hasPrefix_iff)

function trimLeft :: "string list \<Rightarrow> string \<Rightarrow> string" where
  "trimLeft ps s =
     (case find (\<lambda>p. p \<noteq> [] \<and> hasPrefix s p) ps of None \<Rightarrow> s | Some p \<Rightarrow> trimLeft ps (drop (length p) s))"
  by pat_completeness auto

termination trimLeft
  by (relation "measure (\<lambda>(ps, s). length s)") (use hasPrefix_shorter in \<open>auto simp: find_Some_iff\<close>)

declare trimLeft.simps [simp del]

lemma trimLeft_step:
  "find (\<lambda>p. p \<noteq> [] \<and> hasPrefix s p) ps = None \<Longrightarrow> trimLeft ps s = s"
  "find (\<lambda>p. p \<noteq> [] \<and> hasPrefix s p) ps = Some p \<Longrightarrow> trimLeft ps s = trimLeft ps (drop (length p) s)"
  by (simp_all add: trimLeft.simps [of ps s])

definition TrimSpace :: "string \<Rightarrow> string" where
  "TrimSpace s = rev (trimLeft (map rev spaceRunes) (rev (trimLeft spaceRunes s)))"

text \<open>\<open>strings.Split\<close> and \<open>strings.Join\<close> with a separator of one byte, and \<open>strings.Cut\<close>.\<close>

fun Split :: "char \<Rightarrow> string \<Rightarrow> string list" where
  "Split c [] = [[]]"
| "Split c (x # xs) = (if x = c then [] # Split c xs else (x # hd (Split c xs)) # tl (Split c xs))"

fun Join :: "char \<Rightarrow> string list \<Rightarrow> string" where
  "Join c [] = []"
| "Join c [s] = s"
| "Join c (s # t # ss) = s @ c # Join c (t # ss)"

definition Cut :: "string \<Rightarrow> char \<Rightarrow> string \<times> string \<times> bool" where
  "Cut s c = (if c \<in> set s then (takeWhile (\<lambda>x. x \<noteq> c) s, tl (dropWhile (\<lambda>x. x \<noteq> c) s), True) else (s, [], False))"

text \<open>The \<open>%d\<close> verb.\<close>

definition int_text :: "int \<Rightarrow> string" where
  "int_text n = (if n < 0 then ''-'' @ itoa (nat (- n)) else itoa (nat n))"

lemma Split_nonempty [simp]: "Split c s \<noteq> []"
  by (cases s) auto

lemma Split_append: "c \<notin> set s \<Longrightarrow> Split c (s @ c # t) = s # Split c t"
  by (induction s) auto

lemma Split_plain: "c \<notin> set s \<Longrightarrow> Split c s = [s]"
  by (induction s) auto

lemma Split_Join: "ss \<noteq> [] \<Longrightarrow> list_all (\<lambda>s. c \<notin> set s) ss \<Longrightarrow> Split c (Join c ss) = ss"
  by (induction c ss rule: Join.induct) (auto simp: Split_append Split_plain)

lemma Join_Split: "Join c (Split c s) = s"
proof (induction s)
  case (Cons x s)
  obtain y ys where "Split c s = y # ys" by (cases "Split c s") auto
  with Cons show ?case by (cases ys) auto
qed simp

lemma Split_pieces: "\<forall>p\<in>set (Split c s). c \<notin> set p"
proof (induction s)
  case (Cons x s)
  obtain y ys where "Split c s = y # ys" by (cases "Split c s") auto
  with Cons show ?case by auto
qed simp

lemma Cut_append: "c \<notin> set s \<Longrightarrow> Cut (s @ c # t) c = (s, t, True)"
  by (auto simp: Cut_def takeWhile_append dropWhile_append)

lemma Cut_True_iff: "Cut s c = (b, a, True) \<longleftrightarrow> s = b @ c # a \<and> c \<notin> set b"
proof
  assume l: "Cut s c = (b, a, True)"
  then have "c \<in> set s" by (simp add: Cut_def split: if_splits)
  then obtain xs ys where "s = xs @ c # ys" "c \<notin> set xs" by (meson split_list_first)
  with l Cut_append [of c xs ys] show "s = b @ c # a \<and> c \<notin> set b" by simp
qed (simp add: Cut_append)

lemma Cut_cases:
  obtains (found) b a where "Cut s c = (b, a, True)" "s = b @ c # a" "c \<notin> set b" | (absent) "Cut s c = (s, [], False)" "c \<notin> set s"
proof (cases "c \<in> set s")
  case True
  then obtain xs ys where "s = xs @ c # ys" "c \<notin> set xs" by (meson split_list_first)
  with Cut_append [of c xs ys] that(1) show thesis by auto
next
  case False
  with that(2) show thesis by (simp add: Cut_def)
qed

text \<open>A string that neither starts nor ends with white space is left alone.\<close>

definition trimmed :: "string \<Rightarrow> bool" where
  "trimmed s \<longleftrightarrow> list_all (\<lambda>p. \<not> hasPrefix s p \<and> \<not> hasPrefix (rev s) (rev p)) spaceRunes"

lemma trimLeft_id: "list_all (\<lambda>p. \<not> hasPrefix s p) ps \<Longrightarrow> trimLeft ps s = s"
proof -
  assume "list_all (\<lambda>p. \<not> hasPrefix s p) ps"
  then have "find (\<lambda>p. p \<noteq> [] \<and> hasPrefix s p) ps = None" by (auto simp: find_None_iff list_all_iff)
  then show ?thesis by (simp add: trimLeft.simps)
qed

lemma TrimSpace_trimmed: "trimmed s \<Longrightarrow> TrimSpace s = s"
proof -
  assume t: "trimmed s"
  then have "trimLeft spaceRunes s = s" by (intro trimLeft_id) (auto simp: trimmed_def list_all_iff)
  moreover from t have "trimLeft (map rev spaceRunes) (rev s) = rev s" by (intro trimLeft_id) (auto simp: trimmed_def list_all_iff)
  ultimately show ?thesis by (simp add: TrimSpace_def)
qed

lemma trimLeft_stops: "list_all (\<lambda>p. p \<noteq> [] \<longrightarrow> \<not> hasPrefix (trimLeft ps s) p) ps"
proof (induction ps s rule: trimLeft.induct)
  case (1 ps s)
  show ?case
  proof (cases "find (\<lambda>p. p \<noteq> [] \<and> hasPrefix s p) ps")
    case None
    then show ?thesis by (auto simp: trimLeft_step find_None_iff list_all_iff)
  next
    case (Some p)
    with 1 show ?thesis by (simp add: trimLeft_step(2) [OF Some])
  qed
qed

lemma trimLeft_suffix: "\<exists>l. s = l @ trimLeft ps s"
proof (induction ps s rule: trimLeft.induct)
  case (1 ps s)
  show ?case
  proof (cases "find (\<lambda>p. p \<noteq> [] \<and> hasPrefix s p) ps")
    case None
    then show ?thesis by (simp add: trimLeft_step)
  next
    case (Some p)
    then have "s = p @ drop (length p) s" by (auto simp: find_Some_iff hasPrefix_iff)
    moreover from 1 [OF Some] obtain l where "drop (length p) s = l @ trimLeft ps (drop (length p) s)" by blast
    ultimately have "s = (p @ l) @ trimLeft ps s" by (simp add: trimLeft_step(2) [OF Some])
    then show ?thesis by blast
  qed
qed

text \<open>Trimming keeps a part of the string, so it introduces no separator.\<close>

lemma set_trimLeft: "set (trimLeft ps s) \<subseteq> set s"
  by (metis trimLeft_suffix set_append Un_upper2)

lemma set_TrimSpace: "set (TrimSpace s) \<subseteq> set s"
  using set_trimLeft [of "map rev spaceRunes" "rev (trimLeft spaceRunes s)"] set_trimLeft [of spaceRunes s]
  by (auto simp: TrimSpace_def)

section \<open>rawPathFromSpec\<close>

datatype SpecError =
    PathRequired
  | PathWithoutIA
  | HopNotIA string
  | HopInvalidISD string
  | BuildMockPath
  | PathsRequired
  | BuildingPath BuildError

text \<open>\<open>NewMockPath\<close> encodes the hops as JSON; the encoder is the argument \<open>marshalHops\<close>.\<close>

definition NewMockPath :: "(ASHop list \<Rightarrow> bytes option) \<Rightarrow> ASHop list \<Rightarrow> bytes option" where
  "NewMockPath marshalHops hops = marshalHops hops"

definition specHop :: "string \<Rightarrow> SpecError + ASHop" where
  "specHop ia =
     (case Cut ia (CHR ''-'') of
        (isdPart, _, ok) \<Rightarrow>
          if \<not> ok then Inl (HopNotIA ia)
          else case parseUint 16 isdPart of
                 None \<Rightarrow> Inl (HopInvalidISD ia)
               | Some isd \<Rightarrow> Inr \<lparr>hop_IA = ia, hop_ISD = word_of_nat isd, hop_AS = fst (cutPrefix ia (isdPart @ ''-'')), hop_HopMAC = []\<rparr>)"

fun specHops :: "string list \<Rightarrow> SpecError + ASHop list" where
  "specHops [] = Inr []"
| "specHops (part # parts) =
     (let ia = TrimSpace part in
      if ia = '''' then specHops parts
      else case specHop ia of
             Inl e \<Rightarrow> Inl e
           | Inr hop \<Rightarrow> (case specHops parts of Inl e \<Rightarrow> Inl e | Inr hops \<Rightarrow> Inr (hop # hops)))"

definition rawPathFromSpec :: "(ASHop list \<Rightarrow> bytes option) \<Rightarrow> string \<Rightarrow> SpecError + bytes" where
  "rawPathFromSpec marshalHops spec =
     (if TrimSpace spec = '''' then Inl PathRequired
      else case specHops (Split (CHR '','') spec) of
             Inl e \<Rightarrow> Inl e
           | Inr hops \<Rightarrow>
               if length hops = 0 then Inl PathWithoutIA
               else case NewMockPath marshalHops hops of None \<Rightarrow> Inl BuildMockPath | Some raw \<Rightarrow> Inr raw)"

fun specPaths ::
  "prims \<Rightarrow> (ASHop list \<Rightarrow> bytes option) \<Rightarrow> (bytes \<Rightarrow> ASHop list option) \<Rightarrow> string list \<Rightarrow> SpecError + SCIONPath list" where
  "specPaths P marshalHops unmarshalHops [] = Inr []"
| "specPaths P marshalHops unmarshalHops (part # parts) =
     (let part = TrimSpace part in
      if part = '''' then specPaths P marshalHops unmarshalHops parts
      else case rawPathFromSpec marshalHops part of
             Inl e \<Rightarrow> Inl e
           | Inr raw \<Rightarrow>
              (case BuildSCIONPath P (MockPathExtractor unmarshalHops) raw of
                 Inl e \<Rightarrow> Inl (BuildingPath e)
               | Inr path \<Rightarrow>
                  (case specPaths P marshalHops unmarshalHops parts of Inl e \<Rightarrow> Inl e | Inr paths \<Rightarrow> Inr (path # paths))))"

definition pathsFromSpecs ::
  "prims \<Rightarrow> (ASHop list \<Rightarrow> bytes option) \<Rightarrow> (bytes \<Rightarrow> ASHop list option) \<Rightarrow> string \<Rightarrow> SpecError + SCIONPath list" where
  "pathsFromSpecs P marshalHops unmarshalHops specs =
     (if TrimSpace specs = '''' then Inl PathsRequired
      else case specPaths P marshalHops unmarshalHops (Split (CHR '';'') specs) of
             Inl e \<Rightarrow> Inl e
           | Inr paths \<Rightarrow> if length paths = 0 then Inl PathsRequired else Inr paths)"

section \<open>What a specification means\<close>

definition graphic :: "char \<Rightarrow> bool" where
  "graphic c \<longleftrightarrow> (33 :: nat) \<le> of_char c \<and> of_char c \<le> (126 :: nat)"

lemma spaceRunes_ends: "list_all (\<lambda>p. p \<noteq> [] \<and> \<not> graphic (hd p) \<and> \<not> graphic (last p) \<and> CHR '','' \<notin> set p \<and> CHR '';'' \<notin> set p) spaceRunes"
  unfolding spaceRunes_def graphic_def by (simp add: upt_conv_Cons char_of_def)

lemma graphic_trimmed:
  assumes "s \<noteq> []" "graphic (hd s)" "graphic (last s)"
  shows "trimmed s"
proof -
  have "\<not> hasPrefix s p \<and> \<not> hasPrefix (rev s) (rev p)" if "p \<in> set spaceRunes" for p
  proof -
    from that spaceRunes_ends have p: "p \<noteq> []" "\<not> graphic (hd p)" "\<not> graphic (last p)" by (auto simp: list_all_iff)
    have "hd s = hd p" if "hasPrefix s p" using that p(1) by (auto simp: hasPrefix_iff)
    moreover have "hd (rev s) = hd (rev p)" if "hasPrefix (rev s) (rev p)" using that p(1) by (auto simp: hasPrefix_iff)
    ultimately show ?thesis using p assms by (auto simp: hd_rev)
  qed
  then show ?thesis by (simp add: trimmed_def list_all_iff)
qed

lemma trimLeft_removes: "set s \<subseteq> set (trimLeft ps s) \<union> \<Union> (set ` set ps)"
proof (induction ps s rule: trimLeft.induct)
  case (1 ps s)
  show ?case
  proof (cases "find (\<lambda>p. p \<noteq> [] \<and> hasPrefix s p) ps")
    case None
    then show ?thesis by (auto simp: trimLeft_step)
  next
    case (Some p)
    then have p: "p \<in> set ps" and s: "s = p @ drop (length p) s" by (auto simp: find_Some_iff hasPrefix_iff)
    have "set s = set p \<union> set (drop (length p) s)" by (subst s) (simp only: set_append)
    with 1 [OF Some] p show ?thesis by (auto simp: trimLeft_step(2) [OF Some])
  qed
qed

lemma blank_no_separator: "TrimSpace s = '''' \<Longrightarrow> CHR '','' \<notin> set s \<and> CHR '';'' \<notin> set s"
proof -
  assume "TrimSpace s = ''''"
  then have "set s \<subseteq> \<Union> (set ` set spaceRunes)"
    using trimLeft_removes [of s spaceRunes] trimLeft_removes [of "rev (trimLeft spaceRunes s)" "map rev spaceRunes"]
    by (auto simp: TrimSpace_def)
  with spaceRunes_ends show ?thesis by (auto simp: list_all_iff)
qed

text \<open>The entries of a list of addresses, blank ones dropped.\<close>

definition specEntries :: "char \<Rightarrow> string \<Rightarrow> string list" where
  "specEntries c spec = filter (\<lambda>s. s \<noteq> '''') (map TrimSpace (Split c spec))"

lemma specEntries_blank: "TrimSpace spec = '''' \<Longrightarrow> specEntries (CHR '','') spec = [] \<and> specEntries (CHR '';'') spec = []"
  using blank_no_separator [of spec] by (simp add: specEntries_def Split_plain)

definition hop_written :: "string \<Rightarrow> ASHop \<Rightarrow> bool" where
  "hop_written ia h \<longleftrightarrow>
     (\<exists>isdPart as n. ia = isdPart @ ''-'' @ as \<and> parseUint 16 isdPart = Some n \<and>
        h = \<lparr>hop_IA = ia, hop_ISD = word_of_nat n, hop_AS = as, hop_HopMAC = []\<rparr>)"

lemma digits_no_dash: "list_all is_digit s \<Longrightarrow> CHR ''-'' \<notin> set s"
  by (auto simp: list_all_iff is_digit_def)

lemma specHop_Inr_iff: "specHop ia = Inr h \<longleftrightarrow> hop_written ia h"
proof
  assume r: "specHop ia = Inr h"
  show "hop_written ia h"
  proof (cases ia "CHR ''-''" rule: Cut_cases)
    case (found b a)
    with r obtain n where n: "parseUint 16 b = Some n" "h = \<lparr>hop_IA = ia, hop_ISD = word_of_nat n, hop_AS = fst (cutPrefix ia (b @ ''-'')), hop_HopMAC = []\<rparr>"
      by (auto simp: specHop_def split: option.splits)
    from found(2) have "fst (cutPrefix ia (b @ ''-'')) = a" using cutPrefix_iff [of ia "b @ ''-''" a] by simp
    with n found(2) show ?thesis by (auto simp: hop_written_def)
  next
    case absent
    with r show ?thesis by (simp add: specHop_def)
  qed
next
  assume "hop_written ia h"
  then obtain b a n where i: "ia = b @ ''-'' @ a" "parseUint 16 b = Some n"
    "h = \<lparr>hop_IA = ia, hop_ISD = word_of_nat n, hop_AS = a, hop_HopMAC = []\<rparr>" by (auto simp: hop_written_def)
  from i(2) have "CHR ''-'' \<notin> set b" by (intro digits_no_dash) (simp add: parseUint_def split: if_splits)
  then have "Cut ia (CHR ''-'') = (b, a, True)" using i(1) Cut_append by simp
  moreover have "fst (cutPrefix ia (b @ ''-'')) = a" using i(1) cutPrefix_iff [of ia "b @ ''-''" a] by simp
  ultimately show "specHop ia = Inr h" using i(2,3) by (simp add: specHop_def)
qed

lemma specHops_Inr_iff:
  "specHops parts = Inr hops \<longleftrightarrow> list_all2 hop_written (filter (\<lambda>s. s \<noteq> '''') (map TrimSpace parts)) hops"
proof (induction parts arbitrary: hops)
  case (Cons part parts)
  show ?case
    by (cases "specHop (TrimSpace part)")
      (auto simp: Let_def list_all2_Cons1 specHop_Inr_iff [symmetric] Cons.IH [symmetric, unfolded specHop_Inr_iff [symmetric, abs_def]] split: sum.splits)
qed auto

lemma hop_written_functional: "hop_written ia h \<Longrightarrow> hop_written ia h' \<Longrightarrow> h = h'"
  by (metis specHop_Inr_iff sum.inject(2))

lemma rawPathFromSpec_Inr_iff:
  "rawPathFromSpec marshalHops spec = Inr raw \<longleftrightarrow>
     (\<exists>hops. list_all2 hop_written (specEntries (CHR '','') spec) hops \<and> hops \<noteq> [] \<and> marshalHops hops = Some raw)"
proof (cases "TrimSpace spec = ''''")
  case True
  then show ?thesis by (simp add: rawPathFromSpec_def specEntries_blank)
next
  case False
  then show ?thesis
    by (auto simp: rawPathFromSpec_def NewMockPath_def specEntries_def specHops_Inr_iff [symmetric] split: sum.splits option.splits)
qed

lemma hop_written_itoa:
  "hop_written (itoa (unat isd) @ ''-'' @ as) \<lparr>hop_IA = itoa (unat isd) @ ''-'' @ as, hop_ISD = isd, hop_AS = as, hop_HopMAC = []\<rparr>"
proof -
  have "unat isd < 2 ^ 16" for isd :: uint16 using unsigned_less [of isd, where ?'a = nat] by simp
  then have "parseUint 16 (itoa (unat isd)) = Some (unat isd)" by (simp add: parseUint_itoa)
  then show ?thesis unfolding hop_written_def by (intro exI [of _ "itoa (unat isd)"] exI [of _ as] exI [of _ "unat isd"]) simp
qed

lemma specPaths_Inr_iff:
  "specPaths P marshalHops unmarshalHops parts = Inr paths \<longleftrightarrow>
     list_all2 (\<lambda>part path. \<exists>raw. rawPathFromSpec marshalHops part = Inr raw \<and> BuildSCIONPath P (MockPathExtractor unmarshalHops) raw = Inr path)
       (filter (\<lambda>s. s \<noteq> '''') (map TrimSpace parts)) paths"
proof (induction parts arbitrary: paths)
  case (Cons part parts)
  show ?case
    by (cases "rawPathFromSpec marshalHops (TrimSpace part)")
      (auto simp: Let_def list_all2_Cons1 Cons.IH [symmetric] split: sum.splits)
qed auto

lemma pathsFromSpecs_Inr_iff:
  "pathsFromSpecs P marshalHops unmarshalHops specs = Inr paths \<longleftrightarrow>
     paths \<noteq> [] \<and> list_all2 (\<lambda>part path. \<exists>raw. rawPathFromSpec marshalHops part = Inr raw \<and> BuildSCIONPath P (MockPathExtractor unmarshalHops) raw = Inr path)
       (specEntries (CHR '';'') specs) paths"
proof (cases "TrimSpace specs = ''''")
  case True
  then have "specEntries (CHR '';'') specs = []" by (simp add: specEntries_blank)
  with True show ?thesis by (simp add: pathsFromSpecs_def)
next
  case False
  then show ?thesis by (auto simp: pathsFromSpecs_def specEntries_def specPaths_Inr_iff [symmetric] split: sum.splits)
qed

lemma rawPathFromSpec_Join:
  assumes "hops \<noteq> []"
    and "list_all (\<lambda>h. hop_IA h = itoa (unat (hop_ISD h)) @ ''-'' @ hop_AS h \<and> list_all graphic (hop_AS h) \<and> CHR '','' \<notin> set (hop_AS h) \<and> hop_HopMAC h = []) hops"
    and "marshalHops hops = Some raw"
  shows "rawPathFromSpec marshalHops (Join (CHR '','') (map hop_IA hops)) = Inr raw"
proof -
  have w: "TrimSpace (hop_IA h) = hop_IA h \<and> hop_IA h \<noteq> '''' \<and> CHR '','' \<notin> set (hop_IA h) \<and> hop_written (hop_IA h) h" if "h \<in> set hops" for h
  proof -
    from that assms(2) have h: "hop_IA h = itoa (unat (hop_ISD h)) @ ''-'' @ hop_AS h" "list_all graphic (hop_AS h)"
      "CHR '','' \<notin> set (hop_AS h)" "hop_HopMAC h = []" by (auto simp: list_all_iff)
    have d: "list_all is_digit (itoa (unat (hop_ISD h)))" by (rule itoa_digits)
    then have g: "list_all graphic (itoa (unat (hop_ISD h)))" and c: "CHR '','' \<notin> set (itoa (unat (hop_ISD h)))"
      by (auto simp: list_all_iff is_digit_def graphic_def)
    from g h(1,2) have "list_all graphic (hop_IA h)" by (simp add: graphic_def)
    then have "trimmed (hop_IA h)" using h(1) by (intro graphic_trimmed) (auto simp: list_all_iff)
    moreover have "h = \<lparr>hop_IA = hop_IA h, hop_ISD = hop_ISD h, hop_AS = hop_AS h, hop_HopMAC = []\<rparr>" using h(4) by simp
    then have "hop_written (hop_IA h) h" using hop_written_itoa [of "hop_ISD h" "hop_AS h"] h(1) by metis
    ultimately show ?thesis using h c by (auto simp: TrimSpace_trimmed)
  qed
  have "Split (CHR '','') (Join (CHR '','') (map hop_IA hops)) = map hop_IA hops"
    by (rule Split_Join) (use assms(1) w in \<open>auto simp: list_all_iff\<close>)
  moreover have "filter (\<lambda>s. s \<noteq> '''') (map TrimSpace (map hop_IA hops)) = map hop_IA hops"
    using w by (induction hops) auto
  ultimately have "specEntries (CHR '','') (Join (CHR '','') (map hop_IA hops)) = map hop_IA hops" by (simp add: specEntries_def)
  moreover have "list_all2 hop_written (map hop_IA hops) hops" using w by (auto simp: list_all2_conv_all_nth)
  ultimately show ?thesis
    using assms(1,3) by (auto simp: rawPathFromSpec_Inr_iff)
qed

definition help_hops :: "ASHop list" where
  "help_hops = [\<lparr>hop_IA = ''1-ff00:0:110'', hop_ISD = 1, hop_AS = ''ff00:0:110'', hop_HopMAC = []\<rparr>,
     \<lparr>hop_IA = ''2-ff00:0:210'', hop_ISD = 2, hop_AS = ''ff00:0:210'', hop_HopMAC = []\<rparr>]"

lemma help_hops_written:
  "list_all (\<lambda>h. hop_IA h = itoa (unat (hop_ISD h)) @ ''-'' @ hop_AS h \<and> list_all graphic (hop_AS h) \<and> CHR '','' \<notin> set (hop_AS h) \<and> hop_HopMAC h = []) help_hops"
  by (simp add: help_hops_def itoa.simps digit_char_def graphic_def) (simp add: char_of_def bit_iff_odd)

section \<open>Properties of path specifications\<close>

text \<open>
  A path specification is accepted exactly when every entry between its commas that is not blank
  is an address whose part before the first dash is a decimal number of at most 16 bits, and there
  is at least one; the raw path then encodes, in order, one hop per entry with that number as its
  ISD, the rest as its AS and the trimmed entry as its address.  A list of specifications is
  accepted exactly when each entry between its semicolons that is not blank is, and yields one path
  per entry.
\<close>

theorem path_specs_exact:
  "(rawPathFromSpec marshalHops spec = Inr raw \<longleftrightarrow>
      (\<exists>hops. list_all2 (\<lambda>ia h. \<exists>isdPart as. ia = isdPart @ ''-'' @ as \<and> isdPart \<noteq> '''' \<and> list_all is_digit isdPart \<and> decimal isdPart < 2 ^ 16 \<and>
            h = \<lparr>hop_IA = ia, hop_ISD = word_of_nat (decimal isdPart), hop_AS = as, hop_HopMAC = []\<rparr>)
           (specEntries (CHR '','') spec) hops \<and> hops \<noteq> [] \<and> marshalHops hops = Some raw)) \<and>
   (pathsFromSpecs P marshalHops unmarshalHops spec = Inr paths \<longleftrightarrow>
      paths \<noteq> [] \<and> list_all2 (\<lambda>part path. \<exists>raw. rawPathFromSpec marshalHops part = Inr raw \<and>
         BuildSCIONPath P (MockPathExtractor unmarshalHops) raw = Inr path) (specEntries (CHR '';'') spec) paths)"
proof -
  have w: "hop_written = (\<lambda>ia h. \<exists>isdPart as. ia = isdPart @ ''-'' @ as \<and> isdPart \<noteq> '''' \<and> list_all is_digit isdPart \<and> decimal isdPart < 2 ^ 16 \<and>
            h = \<lparr>hop_IA = ia, hop_ISD = word_of_nat (decimal isdPart), hop_AS = as, hop_HopMAC = []\<rparr>)" (is "_ = ?w")
    unfolding hop_written_def parseUint_def by (intro ext) (auto split: if_splits)
  show ?thesis by (rule conjI [OF rawPathFromSpec_Inr_iff [unfolded w] pathsFromSpecs_Inr_iff])
qed

text \<open>
  C30. The client and the server agree on the path.  A list of addresses written as the client's help
  shows it, each a decimal ISD, a dash and an AS of printable characters, joined by commas, is parsed back
  into exactly these hops, and a server with the demonstration extractor extracts the same hops,
  under their fingerprint and labelled as demonstration evidence, from the bytes the client sends.
\<close>

theorem path_spec_roundtrip:
  assumes "hops \<noteq> []"
    and "list_all (\<lambda>h. hop_IA h = itoa (unat (hop_ISD h)) @ ''-'' @ hop_AS h \<and> list_all graphic (hop_AS h) \<and> CHR '','' \<notin> set (hop_AS h) \<and> hop_HopMAC h = []) hops"
    and "marshalHops hops = Some raw" and "unmarshalHops raw = Some hops"
  shows "rawPathFromSpec marshalHops (Join (CHR '','') (map hop_IA hops)) = Inr raw \<and>
    BuildSCIONPath P (MockPathExtractor unmarshalHops) raw =
      Inr \<lparr>path_Raw = raw, path_Hops = hops, path_Fingerprint = FingerprintHops P hops,
           path_EvidenceClass = EvidenceClassExplicitDemo, path_ProofStatus = ProofStatusUnverified\<rparr>"
proof
  show "rawPathFromSpec marshalHops (Join (CHR '','') (map hop_IA hops)) = Inr raw" by (rule rawPathFromSpec_Join) (fact assms(1-3))+
  show "BuildSCIONPath P (MockPathExtractor unmarshalHops) raw =
      Inr \<lparr>path_Raw = raw, path_Hops = hops, path_Fingerprint = FingerprintHops P hops,
           path_EvidenceClass = EvidenceClassExplicitDemo, path_ProofStatus = ProofStatusUnverified\<rparr>"
    using assms(1,4) by (simp add: BuildSCIONPath_def MockPathExtractor_def NormalizeEvidenceClass_def NormalizeProofStatus_def
        EvidenceClassExplicitDemo_def ProofStatusUnverified_def)
qed

theorem path_spec_roundtrip_witness:
  "rawPathFromSpec (\<lambda>hops. if hops = help_hops then Some [7] else None) ''1-ff00:0:110,2-ff00:0:210'' = Inr [7] \<and>
   (\<exists>path. BuildSCIONPath toy_prims (MockPathExtractor (\<lambda>raw. if raw = [7] then Some help_hops else None)) [7] = Inr path \<and> path_Hops path = help_hops)"
proof -
  from path_spec_roundtrip [OF _ help_hops_written, of "\<lambda>hops. if hops = help_hops then Some [7] else None" "[7]" "\<lambda>raw. if raw = [7] then Some help_hops else None"]
  show ?thesis by (simp add: help_hops_def)
qed

end
