(* ===== verification/JP_Cli.thy ===== *)
theory JP_Cli
  imports JP_CliSpec JP_Main
begin

text \<open>
  The command line client, \<^verbatim>\<open>cmd/jurispath/cli.go\<close>: its commands with what they send, print and
  return, and the exit code of the process.  The argument parser (cobra), \<open>net/url\<close>, \<open>net/http\<close>
  and the JSON encoder are parameters: \<open>'j\<close> is the type of JSON documents, \<open>'w\<close> the state of the
  world behind the network, of which a request is one step.  Writing to the terminal does not fail.
\<close>

section \<open>Options, output and errors\<close>

record 'w cliOptions =
  opt_baseURL :: string
  opt_token :: string
  opt_insecureTLS :: bool
  opt_output :: string
  opt_server :: "('w \<Rightarrow> int \<times> 'w) option"

text \<open>A printed line: text, the cells of a table row, or a line on the error stream.\<close>

datatype OutLine = OText string | ORow "string list" | OErr string

datatype CliError =
    CobraError string
  | CommandExit int
  | MissingCommand
  | OutputFormat
  | AmountNotPositive
  | SpecInvalid SpecError
  | UnsupportedShell string
  | MarshalRequest string
  | ParseBaseURL string
  | CreatingRequest string
  | RequestFailed string
  | DecodeResponse string
  | FormatResponse string
  | ServerReturned nat
  | HealthReturned nat
  | PoliciesReturned nat
  | SettlementFailed nat
  | SettlementNotConfirmed
  | ResponseWithoutReceipt
  | FilterPathsFailed nat

definition defaultCLIBaseURL :: string where
  "defaultCLIBaseURL = ''http://localhost:8080''"

definition defaultCLIOptions :: "(string \<Rightarrow> string) \<Rightarrow> ('w \<Rightarrow> int \<times> 'w) \<Rightarrow> 'w cliOptions" where
  "defaultCLIOptions getenv server =
     (let baseURL = getenv ''JURISPATH_CLI_BASE_URL''; token = getenv ''JURISPATH_CLI_API_TOKEN'' in
      \<lparr>opt_baseURL = (if baseURL = '''' then defaultCLIBaseURL else baseURL),
       opt_token = (if token = '''' then getenv ''JURISPATH_API_TOKEN'' else token),
       opt_insecureTLS = (getenv ''JURISPATH_CLI_INSECURE_TLS'' = ''true''),
       opt_output = ''table'', opt_server = Some server\<rparr>)"

text \<open>
  The error texts.  \<open>quote\<close> is the \<open>%q\<close> verb; errors of other packages carry their text, and those
  of the path builder are given by \<open>buildText\<close>.
\<close>

definition specErrorText :: "(string \<Rightarrow> string) \<Rightarrow> (SpecError \<Rightarrow> string) \<Rightarrow> SpecError \<Rightarrow> string" where
  "specErrorText quote inner e =
     (case e of
        PathRequired \<Rightarrow> ''--path is required''
      | PathWithoutIA \<Rightarrow> ''--path must contain at least one IA''
      | HopNotIA ia \<Rightarrow> ''path hop '' @ quote ia @ '' must be an IA like 1-ff00:0:110''
      | HopInvalidISD ia \<Rightarrow> ''path hop '' @ quote ia @ '' has invalid ISD: '' @ inner e
      | BuildMockPath \<Rightarrow> ''build mock path: '' @ inner e
      | PathsRequired \<Rightarrow> ''--paths is required''
      | BuildingPath _ \<Rightarrow> ''build path: '' @ inner e)"

definition errorText :: "(string \<Rightarrow> string) \<Rightarrow> (SpecError \<Rightarrow> string) \<Rightarrow> CliError \<Rightarrow> string" where
  "errorText quote inner e =
     (case e of
        CobraError m \<Rightarrow> m
      | CommandExit code \<Rightarrow> ''command exited with code '' @ int_text code
      | MissingCommand \<Rightarrow> ''missing command''
      | OutputFormat \<Rightarrow> ''--output must be table or json''
      | AmountNotPositive \<Rightarrow> ''--amount must be greater than 0''
      | SpecInvalid s \<Rightarrow> specErrorText quote inner s
      | UnsupportedShell sh \<Rightarrow> ''unsupported shell: '' @ sh
      | MarshalRequest m \<Rightarrow> ''marshal request: '' @ m
      | ParseBaseURL m \<Rightarrow> ''parse base URL: '' @ m
      | CreatingRequest m \<Rightarrow> m
      | RequestFailed m \<Rightarrow> m
      | DecodeResponse m \<Rightarrow> ''decode response: '' @ m
      | FormatResponse m \<Rightarrow> ''format response: '' @ m
      | ServerReturned c \<Rightarrow> ''server returned HTTP '' @ itoa c
      | HealthReturned c \<Rightarrow> ''health returned HTTP '' @ itoa c
      | PoliciesReturned c \<Rightarrow> ''policies returned HTTP '' @ itoa c
      | SettlementFailed c \<Rightarrow> ''settlement failed with HTTP '' @ itoa c
      | SettlementNotConfirmed \<Rightarrow> ''settlement was not confirmed''
      | ResponseWithoutReceipt \<Rightarrow> ''settlement response missing path-policy receipt''
      | FilterPathsFailed c \<Rightarrow> ''filter-paths failed with HTTP '' @ itoa c)"

fun contains :: "string \<Rightarrow> string \<Rightarrow> bool" where
  "contains [] p = (p = [])"
| "contains (c # s) p = (hasPrefix (c # s) p \<or> contains s p)"

definition isUsageError :: "string \<Rightarrow> bool" where
  "isUsageError msg \<longleftrightarrow>
     contains msg ''unknown command'' \<or> contains msg ''accepts '' \<or> contains msg ''required flag'' \<or> contains msg ''unknown flag''"

section \<open>The HTTP client\<close>

record 'j HttpRequest =
  hq_Method :: string
  hq_Path :: string
  hq_Query :: "(string \<times> string) list"
  hq_Authorization :: string
  hq_ContentType :: string
  hq_Body :: "'j option"

text \<open>
  The network: parsing the base URL, of which a reference with an absolute path keeps only the
  origin \<open>'o\<close>; whether \<open>http.NewRequest\<close> accepts it; and a round trip of the client, with or without
  verification of certificates, which fails or returns a status code and a body.
\<close>

record ('o, 'j, 'w) Net =
  nt_parseBase :: "string \<Rightarrow> string + 'o"
  nt_newRequest :: "'o \<Rightarrow> string option"
  nt_Do :: "bool \<Rightarrow> 'o \<Rightarrow> 'j HttpRequest \<Rightarrow> 'w \<Rightarrow> (string + nat \<times> 'j) \<times> 'w"

text \<open>A value of type \<open>any\<close> as the client handles it: a string or number of its own, or a decoded one.\<close>

datatype 'j Any = AnyString string | AnyNat nat | AnyJson 'j

datatype 'j Doc =
    DAny 'j
  | DMap "string \<rightharpoonup> 'j Any"
  | DPolicies "Policy list"
  | DReceipts "ComplianceReceipt list"
  | DViolations "Violation list"
  | DChain VerifyChainResponse

text \<open>
  The JSON encoder and decoder at the types the client uses.  \<open>cj_Indent\<close> is \<open>MarshalIndent\<close>;
  \<open>cj_format\<close> is the \<open>%v\<close> verb on a decoded value and \<open>cj_rfc3339\<close> the format of a time stamp.
\<close>

record 'j ClientJson =
  cj_check :: "CheckRequest \<Rightarrow> string + 'j"
  cj_settle :: "SettleRequest \<Rightarrow> string + 'j"
  cj_filter :: "FilterPathsRequest \<Rightarrow> string + 'j"
  cj_decodeAny :: "'j \<Rightarrow> string + 'j"
  cj_decodeMap :: "'j \<Rightarrow> string + (string \<rightharpoonup> 'j)"
  cj_decodePolicies :: "'j \<Rightarrow> string + Policy list"
  cj_decodeReceipts :: "'j \<Rightarrow> string + ComplianceReceipt list"
  cj_decodeViolations :: "'j \<Rightarrow> string + Violation list"
  cj_decodeChain :: "'j \<Rightarrow> string + VerifyChainResponse"
  cj_decodeSettle :: "'j \<Rightarrow> string + SettleResponse"
  cj_decodeFilter :: "'j \<Rightarrow> string + FilterResult"
  cj_Indent :: "'j Doc \<Rightarrow> string + string"
  cj_format :: "'j \<Rightarrow> string"
  cj_rfc3339 :: "time \<Rightarrow> string"
  cj_clause :: "Clause \<Rightarrow> string"
  cj_marshalHops :: "ASHop list \<Rightarrow> bytes option"
  cj_unmarshalHops :: "bytes \<Rightarrow> ASHop list option"
  cj_prims :: prims

definition newRequest ::
  "('o, 'j, 'w) Net \<Rightarrow> 'w cliOptions \<Rightarrow> string \<Rightarrow> string \<Rightarrow> (string \<times> string) list \<Rightarrow> 'j option \<Rightarrow> CliError + 'o \<times> 'j HttpRequest" where
  "newRequest net opts method path query body =
     (case nt_parseBase net (opt_baseURL opts) of
        Inl m \<Rightarrow> Inl (ParseBaseURL m)
      | Inr origin \<Rightarrow>
          (case nt_newRequest net origin of
             Some m \<Rightarrow> Inl (CreatingRequest m)
           | None \<Rightarrow>
               Inr (origin, \<lparr>hq_Method = method, hq_Path = path, hq_Query = query,
                 hq_Authorization = (if opt_token opts \<noteq> '''' then ''Bearer '' @ opt_token opts else ''''),
                 hq_ContentType = '''', hq_Body = body\<rparr>)))"

text \<open>The client is built anew for every request; only the verification of certificates differs.\<close>

definition getDecode ::
  "('o, 'j, 'w) Net \<Rightarrow> ('j \<Rightarrow> string + 'r) \<Rightarrow> 'w cliOptions \<Rightarrow> string \<Rightarrow> (string \<times> string) list \<Rightarrow> 'w \<Rightarrow> (CliError + nat \<times> 'r) \<times> 'w" where
  "getDecode net decode opts path query w =
     (case newRequest net opts ''GET'' path query None of
        Inl e \<Rightarrow> (Inl e, w)
      | Inr (origin, req) \<Rightarrow>
          (case nt_Do net (opt_insecureTLS opts) origin req w of
             (Inl m, w') \<Rightarrow> (Inl (RequestFailed m), w')
           | (Inr (status, body), w') \<Rightarrow>
               (case decode body of Inl m \<Rightarrow> (Inl (DecodeResponse m), w') | Inr result \<Rightarrow> (Inr (status, result), w'))))"

definition postDecode ::
  "('o, 'j, 'w) Net \<Rightarrow> ('j \<Rightarrow> string + 'r) \<Rightarrow> 'w cliOptions \<Rightarrow> string \<Rightarrow> string + 'j \<Rightarrow> 'w \<Rightarrow> (CliError + nat \<times> 'r) \<times> 'w" where
  "postDecode net decode opts path payload w =
     (case payload of
        Inl m \<Rightarrow> (Inl (MarshalRequest m), w)
      | Inr body \<Rightarrow>
         (case newRequest net opts ''POST'' path [] (Some body) of
            Inl e \<Rightarrow> (Inl e, w)
          | Inr (origin, req) \<Rightarrow>
              (case nt_Do net (opt_insecureTLS opts) origin (req\<lparr>hq_ContentType := ''application/json''\<rparr>) w of
                 (Inl m, w') \<Rightarrow> (Inl (RequestFailed m), w')
               | (Inr (status, body), w') \<Rightarrow>
                   (case decode body of Inl m \<Rightarrow> (Inl (DecodeResponse m), w') | Inr result \<Rightarrow> (Inr (status, result), w')))))"

definition statusError :: "nat \<Rightarrow> CliError option" where
  "statusError status = (if status < 200 \<or> status \<ge> 300 then Some (ServerReturned status) else None)"

text \<open>What a command leaves: an error, the lines it printed, the world.\<close>

type_synonym 'w outcome = "CliError option \<times> OutLine list \<times> 'w"

definition printJSON :: "'j ClientJson \<Rightarrow> 'j Doc \<Rightarrow> CliError option \<times> OutLine list" where
  "printJSON J doc = (case cj_Indent J doc of Inl m \<Rightarrow> (Some (FormatResponse m), []) | Inr encoded \<Rightarrow> (None, [OText encoded]))"

definition do_request :: "('o, 'j, 'w) Net \<Rightarrow> 'j ClientJson \<Rightarrow> 'w cliOptions \<Rightarrow> 'o \<Rightarrow> 'j HttpRequest \<Rightarrow> 'w \<Rightarrow> 'w outcome" where
  "do_request net J opts origin req w =
     (case nt_Do net (opt_insecureTLS opts) origin req w of
        (Inl m, w') \<Rightarrow> (Some (RequestFailed m), [], w')
      | (Inr (status, body), w') \<Rightarrow>
          (case cj_decodeAny J body of
             Inl m \<Rightarrow> (Some (DecodeResponse m), [], w')
           | Inr result \<Rightarrow>
               (case cj_Indent J (DAny result) of
                  Inl m \<Rightarrow> (Some (FormatResponse m), [], w')
                | Inr encoded \<Rightarrow>
                    (if status < 200 \<or> status \<ge> 300 then Some (ServerReturned status) else None, [OText encoded], w'))))"

definition postJSON :: "('o, 'j, 'w) Net \<Rightarrow> 'j ClientJson \<Rightarrow> 'w cliOptions \<Rightarrow> string \<Rightarrow> string + 'j \<Rightarrow> 'w \<Rightarrow> 'w outcome" where
  "postJSON net J opts path payload w =
     (case payload of
        Inl m \<Rightarrow> (Some (MarshalRequest m), [], w)
      | Inr body \<Rightarrow>
         (case newRequest net opts ''POST'' path [] (Some body) of
            Inl e \<Rightarrow> (Some e, [], w)
          | Inr (origin, req) \<Rightarrow> do_request net J opts origin (req\<lparr>hq_ContentType := ''application/json''\<rparr>) w))"

section \<open>Tables\<close>

definition anyText :: "'j ClientJson \<Rightarrow> 'j Any option \<Rightarrow> string" where
  "anyText J v = (case v of None \<Rightarrow> ''<nil>'' | Some (AnyString s) \<Rightarrow> s | Some (AnyNat n) \<Rightarrow> itoa n | Some (AnyJson j) \<Rightarrow> cj_format J j)"

definition valueOr :: "(string \<rightharpoonup> 'j Any) \<Rightarrow> string \<Rightarrow> 'j Any \<Rightarrow> 'j Any" where
  "valueOr values key fallback = (case values key of Some value \<Rightarrow> value | None \<Rightarrow> fallback)"

definition printStatus :: "'j ClientJson \<Rightarrow> 'w cliOptions \<Rightarrow> (string \<rightharpoonup> 'j Any) \<Rightarrow> OutLine list" where
  "printStatus J opts values =
     [OText (''Base URL:       '' @ anyText J (Some (valueOr values ''base_url'' (AnyString (opt_baseURL opts))))),
      OText (''Audit healthy:  '' @ anyText J (values ''audit_healthy'')),
      OText (''Audit failures: '' @ anyText J (values ''audit_failures'')),
      OText (''Receipts:       '' @ anyText J (values ''receipt_count''))]
     @ (if values ''policy_count'' \<noteq> None then [OText (''Policies:       '' @ anyText J (values ''policy_count''))] else [])
     @ [OText (''Uptime:         '' @ anyText J (values ''uptime_seconds'') @ ''s'')]"

text \<open>The \<open>%v\<close> verb on a slice of numbers.\<close>

definition isdsText :: "uint16 list \<Rightarrow> string" where
  "isdsText isds = ''['' @ Join (CHR '' '') (map (\<lambda>i. itoa (unat i)) isds) @ '']''"

definition printPolicies :: "Policy list \<Rightarrow> OutLine list" where
  "printPolicies policies =
     ORow [''ID'', ''MODE'', ''VERSION'', ''ALLOWED_ISDS'']
     # map (\<lambda>p. ORow [pol_ID p, pol_Mode p, int_text (pol_Version p), isdsText (pol_AllowedISDs p)]) policies"

definition printReceipts :: "ComplianceReceipt list \<Rightarrow> OutLine list" where
  "printReceipts receipts =
     ORow [''SEQ'', ''ID'', ''TX'', ''POLICY'', ''HOPS'']
     # map (\<lambda>r. ORow [itoa (unat (rcpt_SeqNo r)), rcpt_ID r, rcpt_TransactionID r, rcpt_PolicyID r,
                       itoa (length (path_Hops (rcpt_Path r)))]) receipts"

definition printViolations :: "'j ClientJson \<Rightarrow> Violation list \<Rightarrow> OutLine list" where
  "printViolations J violations =
     ORow [''TIME'', ''TX'', ''POLICY'', ''SEVERITY'', ''OFFENDING_HOPS'']
     # map (\<lambda>v. ORow [cj_rfc3339 J (viol_Timestamp v), viol_TransactionID v, viol_PolicyID v, viol_Severity v,
                       itoa (length (viol_OffendingHops v))]) violations"

definition printVerifyChain :: "VerifyChainResponse \<Rightarrow> OutLine list" where
  "printVerifyChain chain =
     [OText (''Chain length: '' @ itoa (vc_ChainLength chain)),
      OText (''Oracle keys:  '' @ itoa (length (vc_OraclePublicKeys chain))),
      ORow [''SEQ'', ''ID'', ''TX'', ''POLICY'']]
     @ map (\<lambda>r. ORow [itoa (unat (rcpt_SeqNo r)), rcpt_ID r, rcpt_TransactionID r, rcpt_PolicyID r]) (vc_Receipts chain)"

section \<open>Reading commands\<close>

text \<open>The shape the five reading commands share: decode, print in the chosen format, then the status.\<close>

definition getAndPrint ::
  "('o, 'j, 'w) Net \<Rightarrow> 'j ClientJson \<Rightarrow> 'w cliOptions \<Rightarrow> ('j \<Rightarrow> string + 'r) \<Rightarrow> ('r \<Rightarrow> 'j Doc) \<Rightarrow> ('r \<Rightarrow> OutLine list)
   \<Rightarrow> string \<Rightarrow> (string \<times> string) list \<Rightarrow> 'w \<Rightarrow> 'w outcome" where
  "getAndPrint net J opts decode doc table path query w =
     (case getDecode net decode opts path query w of
        (Inl e, w') \<Rightarrow> (Some e, [], w')
      | (Inr (status, result), w') \<Rightarrow>
          (case (if opt_output opts = ''json'' then printJSON J (doc result) else (None, table result)) of
             (Some e, lines) \<Rightarrow> (Some e, lines, w')
           | (None, lines) \<Rightarrow> (statusError status, lines, w')))"

definition getHealth :: "('o, 'j, 'w) Net \<Rightarrow> 'j ClientJson \<Rightarrow> 'w cliOptions \<Rightarrow> 'w \<Rightarrow> 'w outcome" where
  "getHealth net J opts w =
     getAndPrint net J opts (cj_decodeMap J) (\<lambda>m. DMap (\<lambda>k. map_option AnyJson (m k)))
       (\<lambda>m. printStatus J opts (\<lambda>k. map_option AnyJson (m k))) ''/api/health'' [] w"

definition getPolicies :: "('o, 'j, 'w) Net \<Rightarrow> 'j ClientJson \<Rightarrow> 'w cliOptions \<Rightarrow> 'w \<Rightarrow> 'w outcome" where
  "getPolicies net J opts w = getAndPrint net J opts (cj_decodePolicies J) DPolicies printPolicies ''/api/policies'' [] w"

definition getReceipts :: "('o, 'j, 'w) Net \<Rightarrow> 'j ClientJson \<Rightarrow> 'w cliOptions \<Rightarrow> 'w \<Rightarrow> 'w outcome" where
  "getReceipts net J opts w = getAndPrint net J opts (cj_decodeReceipts J) DReceipts printReceipts ''/api/receipts'' [] w"

definition getViolations :: "('o, 'j, 'w) Net \<Rightarrow> 'j ClientJson \<Rightarrow> 'w cliOptions \<Rightarrow> 'w \<Rightarrow> 'w outcome" where
  "getViolations net J opts w = getAndPrint net J opts (cj_decodeViolations J) DViolations (printViolations J) ''/api/violations'' [] w"

definition getVerifyChain :: "('o, 'j, 'w) Net \<Rightarrow> 'j ClientJson \<Rightarrow> 'w cliOptions \<Rightarrow> (string \<times> string) list \<Rightarrow> 'w \<Rightarrow> 'w outcome" where
  "getVerifyChain net J opts query w = getAndPrint net J opts (cj_decodeChain J) DChain printVerifyChain ''/api/verify-chain'' query w"

text \<open>The query of \<open>verify-chain\<close>: a bound that is zero is left out.\<close>

definition verifyChainQuery :: "uint64 \<Rightarrow> uint64 \<Rightarrow> (string \<times> string) list" where
  "verifyChainQuery fromSeq toSeq =
     (if fromSeq > 0 then [(''from_seq'', itoa (unat fromSeq))] else [])
     @ (if toSeq > 0 then [(''to_seq'', itoa (unat toSeq))] else [])"

definition statusCmd :: "('o, 'j, 'w) Net \<Rightarrow> 'j ClientJson \<Rightarrow> 'w cliOptions \<Rightarrow> 'w \<Rightarrow> 'w outcome" where
  "statusCmd net J opts w =
     (case getDecode net (cj_decodeMap J) opts ''/api/health'' [] w of
        (Inl e, w1) \<Rightarrow> (Some e, [], w1)
      | (Inr (status, health), w1) \<Rightarrow>
          if status \<noteq> 200 then (Some (HealthReturned status), [], w1)
          else
            (case getDecode net (cj_decodePolicies J) opts ''/api/policies'' [] w1 of
               (Inl e, w2) \<Rightarrow> (Some e, [], w2)
             | (Inr (status, policies), w2) \<Rightarrow>
                 if status \<noteq> 200 then (Some (PoliciesReturned status), [], w2)
                 else
                   let field = (\<lambda>k. map_option AnyJson (health k));
                       summary = (\<lambda>k. if k = ''base_url'' then Some (AnyString (opt_baseURL opts))
                                      else if k = ''policy_count'' then Some (AnyNat (length policies))
                                      else if k \<in> {''audit_healthy'', ''audit_failures'', ''receipt_count'', ''uptime_seconds''} then field k
                                      else None) in
                   if opt_output opts = ''json'' then (case printJSON J (DMap summary) of (e, lines) \<Rightarrow> (e, lines, w2))
                   else (None, printStatus J opts summary, w2)))"

section \<open>Writing commands\<close>

definition checkCmd :: "('o, 'j, 'w) Net \<Rightarrow> 'j ClientJson \<Rightarrow> 'w cliOptions \<Rightarrow> string \<Rightarrow> string \<Rightarrow> string \<Rightarrow> 'w \<Rightarrow> 'w outcome" where
  "checkCmd net J opts txID policyID pathSpec w =
     (case rawPathFromSpec (cj_marshalHops J) pathSpec of
        Inl e \<Rightarrow> (Some (SpecInvalid e), [], w)
      | Inr rawPath \<Rightarrow>
          postJSON net J opts ''/api/check''
            (cj_check J \<lparr>creq_TransactionID = txID, creq_PolicyID = policyID, creq_RawPath = rawPath\<rparr>) w)"

definition settleCmd ::
  "('o, 'j, 'w) Net \<Rightarrow> 'j ClientJson \<Rightarrow> 'w cliOptions \<Rightarrow> string \<Rightarrow> string \<Rightarrow> string \<Rightarrow> int64 \<Rightarrow> string \<Rightarrow> string \<Rightarrow> string
   \<Rightarrow> 'w \<Rightarrow> 'w outcome" where
  "settleCmd net J opts txID from to amount currency policyID pathSpec w =
     (if amount \<le>s 0 then (Some AmountNotPositive, [], w)
      else
        (case rawPathFromSpec (cj_marshalHops J) pathSpec of
           Inl e \<Rightarrow> (Some (SpecInvalid e), [], w)
         | Inr rawPath \<Rightarrow>
             postJSON net J opts ''/api/settle''
               (cj_settle J \<lparr>sreq_TransactionID = txID, sreq_From = from, sreq_To = to, sreq_Amount = amount, sreq_Currency = currency,
                             sreq_PolicyID = policyID, sreq_RawPath = Some rawPath\<rparr>) w))"

definition filterPathsCmd :: "('o, 'j, 'w) Net \<Rightarrow> 'j ClientJson \<Rightarrow> 'w cliOptions \<Rightarrow> string \<Rightarrow> string \<Rightarrow> 'w \<Rightarrow> 'w outcome" where
  "filterPathsCmd net J opts policyID pathSpecs w =
     (case pathsFromSpecs (cj_prims J) (cj_marshalHops J) (cj_unmarshalHops J) pathSpecs of
        Inl e \<Rightarrow> (Some (SpecInvalid e), [], w)
      | Inr paths \<Rightarrow> postJSON net J opts ''/api/filter-paths'' (cj_filter J \<lparr>freq_PolicyID = policyID, freq_Paths = paths\<rparr>) w)"

section \<open>The demonstration\<close>

definition demoSettle ::
  "('o, 'j, 'w) Net \<Rightarrow> 'j ClientJson \<Rightarrow> 'w cliOptions \<Rightarrow> string \<Rightarrow> string \<Rightarrow> string \<Rightarrow> int64 \<Rightarrow> string \<Rightarrow> string \<Rightarrow> string
   \<Rightarrow> 'w \<Rightarrow> 'w outcome" where
  "demoSettle net J opts txID from to amount currency policyID pathSpec w =
     (case rawPathFromSpec (cj_marshalHops J) pathSpec of
        Inl e \<Rightarrow> (Some (SpecInvalid e), [], w)
      | Inr rawPath \<Rightarrow>
         (case postDecode net (cj_decodeSettle J) opts ''/api/settle''
                 (cj_settle J \<lparr>sreq_TransactionID = txID, sreq_From = from, sreq_To = to, sreq_Amount = amount, sreq_Currency = currency,
                               sreq_PolicyID = policyID, sreq_RawPath = Some rawPath\<rparr>) w of
            (Inl e, w') \<Rightarrow> (Some e, [], w')
          | (Inr (status, result), w') \<Rightarrow>
              (case (if status = 422 then Option.bind (sr_Compliance result) res_Violation else None) of
                 Some v \<Rightarrow>
                   (None,
                    [OText (''  SETTLEMENT BLOCKED - '' @ cj_clause J (viol_ViolatedClause v)),
                     OText (''  Severity: '' @ viol_Severity v @ '', offending hops: '' @ itoa (length (viol_OffendingHops v))),
                     OText (''  Evidence: '' @ viol_EvidenceClass v @ '', proof: '' @ viol_ProofStatus v)], w')
               | None \<Rightarrow>
                   if status \<noteq> 200 then (Some (SettlementFailed status), [], w')
                   else
                     (case sr_Consensus result of
                        None \<Rightarrow> (Some SettlementNotConfirmed, [], w')
                      | Some c \<Rightarrow>
                          if \<not> cres_Confirmed c then (Some SettlementNotConfirmed, [], w')
                          else
                            (case sr_Compliance result of
                               None \<Rightarrow> (Some ResponseWithoutReceipt, [], w')
                             | Some pr \<Rightarrow>
                                 (case (if res_Compliant pr then res_Receipt pr else None) of
                                    None \<Rightarrow> (Some ResponseWithoutReceipt, [], w')
                                  | Some r \<Rightarrow>
                                      (None,
                                       [OText (''  SETTLED - '' @ from @ '' -> '' @ to @ '' '' @ int_text (sint amount) @ '' '' @ currency),
                                        OText (''  Consensus confirmed in round '' @ itoa (unat (cres_Round c))),
                                        OText (''  Receipt ID: '' @ rcpt_ID r @ '', seq #'' @ itoa (unat (rcpt_SeqNo r))),
                                        OText (''  Evidence: '' @ rcpt_EvidenceClass r @ '', proof: '' @ rcpt_ProofStatus r),
                                        OText (''  Path fingerprint: '' @ path_Fingerprint (rcpt_Path r))]
                                       @ (if sr_ReceiptPersisted result = Some False
                                          then [OText (''  Persistence warning: '' @ sr_PersistenceWarning result)] else []), w')))))))"

definition demoFilterPaths :: "('o, 'j, 'w) Net \<Rightarrow> 'j ClientJson \<Rightarrow> 'w cliOptions \<Rightarrow> string \<Rightarrow> string \<Rightarrow> 'w \<Rightarrow> 'w outcome" where
  "demoFilterPaths net J opts policyID pathSpecs w =
     (case pathsFromSpecs (cj_prims J) (cj_marshalHops J) (cj_unmarshalHops J) pathSpecs of
        Inl e \<Rightarrow> (Some (SpecInvalid e), [], w)
      | Inr paths \<Rightarrow>
         (case postDecode net (cj_decodeFilter J) opts ''/api/filter-paths'' (cj_filter J \<lparr>freq_PolicyID = policyID, freq_Paths = paths\<rparr>) w of
            (Inl e, w') \<Rightarrow> (Some e, [], w')
          | (Inr (status, result), w') \<Rightarrow>
              if status \<noteq> 200 then (Some (FilterPathsFailed status), [], w')
              else
                let line = (\<lambda>tag p. OText (''    ['' @ tag @ ''] '' @ path_Fingerprint p @ '' ('' @ itoa (length (path_Hops p)) @ '' hops)'')) in
                (None,
                 [OText (''  Candidate paths: '' @ itoa (length paths)), OText (''  Compliant: '' @ itoa (length (fr_Compliant result)))]
                 @ map (line ''PASS'') (fr_Compliant result)
                 @ [OText (''  Non-compliant: '' @ itoa (length (fr_NonCompliant result)))]
                 @ map (line ''SKIP'') (fr_NonCompliant result), w')))"

text \<open>One step after another, ending at the first error; the output of all of them is kept.\<close>

definition andThen ::
  "'e option \<times> OutLine list \<times> 'w \<Rightarrow> ('w \<Rightarrow> 'e option \<times> OutLine list \<times> 'w) \<Rightarrow> 'e option \<times> OutLine list \<times> 'w" where
  "andThen x f = (case x of (Some e, lines, w) \<Rightarrow> (Some e, lines, w)
                          | (None, lines, w) \<Rightarrow> (case f w of (e, lines', w') \<Rightarrow> (e, lines @ lines', w')))"

definition demoCmd :: "('o, 'j, 'w) Net \<Rightarrow> 'j ClientJson \<Rightarrow> 'w cliOptions \<Rightarrow> 'w \<Rightarrow> 'w outcome" where
  "demoCmd net J opts w =
     andThen (None, [OText ''=== Scenario A: Compliant path (ISD-CH -> ISD-EU) ===''], w) (\<lambda>w.
     andThen (demoSettle net J opts ''tx-chf-eur-001'' ''CH'' ''EU'' 100 ''CHF'' ''chf-eur-settlement-v1''
                ''1-ff00:0:110,1-ff00:0:111,2-ff00:0:210,2-ff00:0:211'' w) (\<lambda>w.
     andThen (None, [OText '''', OText ''=== Scenario B: Non-compliant path (via ISD-X) ===''], w) (\<lambda>w.
     andThen (demoSettle net J opts ''tx-chf-eur-002'' ''CH'' ''EU'' 100 ''CHF'' ''chf-eur-settlement-v1''
                ''1-ff00:0:110,3-ff00:0:310,2-ff00:0:210'' w) (\<lambda>w.
     andThen (None, [OText '''', OText ''=== Scenario C: Swiss-only settlement ===''], w) (\<lambda>w.
     andThen (demoSettle net J opts ''tx-chf-chf-001'' ''CH'' ''CH'' 100 ''CHF'' ''swiss-dlt-act-v1'' ''1-ff00:0:110,1-ff00:0:111'' w) (\<lambda>w.
     andThen (None, [OText '''', OText ''=== Scenario D: Path Pre-filtering ===''], w) (\<lambda>w.
       demoFilterPaths net J opts ''chf-eur-settlement-v1''
         (Join (CHR '';'') [''1-ff00:0:110,1-ff00:0:111,2-ff00:0:210,2-ff00:0:211'',
            ''1-ff00:0:110,3-ff00:0:310,2-ff00:0:210'', ''1-ff00:0:110,3-ff00:0:310,2-ff00:0:210,3-ff00:0:311'']) w)))))))"

section \<open>Dispatch and exit code\<close>

text \<open>
  What the argument parser makes of a command line: an error of its own, help (whose text is cobra's), or a
  command to run, with the flags in the options and the command's arguments.
\<close>

datatype Command =
    RootCmd
  | ServeCmd
  | StatusCmd
  | HealthCmd
  | PoliciesCmd
  | ReceiptsCmd
  | ViolationsCmd
  | VerifyChainCmd uint64 uint64
  | CheckCmd string string string
  | SettleCmd string string string int64 string string string
  | FilterPathsCmd string string
  | DemoCmd
  | CompletionCmd string

datatype 'w Parsed = ParseFails string | HelpShown | Runs "'w cliOptions" Command

definition serveCmd :: "('w \<Rightarrow> int \<times> 'w) \<Rightarrow> 'w cliOptions \<Rightarrow> 'w \<Rightarrow> 'w outcome" where
  "serveCmd serverMain opts w =
     (case (case opt_server opts of None \<Rightarrow> serverMain | Some f \<Rightarrow> f) w of
        (code, w') \<Rightarrow> (if code \<noteq> 0 then Some (CommandExit code) else None, [], w'))"

text \<open>\<open>completion\<close> writes the script cobra generates, the parameter \<open>scripts\<close>.\<close>

definition completionCmd :: "(string \<Rightarrow> CliError option \<times> OutLine list) \<Rightarrow> string \<Rightarrow> 'w \<Rightarrow> 'w outcome" where
  "completionCmd scripts shell w =
     (if shell \<in> {''bash'', ''zsh'', ''fish''} then (case scripts shell of (e, lines) \<Rightarrow> (e, lines, w))
      else (Some (UnsupportedShell shell), [], w))"

definition runE ::
  "('o, 'j, 'w) Net \<Rightarrow> 'j ClientJson \<Rightarrow> ('w \<Rightarrow> int \<times> 'w) \<Rightarrow> (string \<Rightarrow> CliError option \<times> OutLine list) \<Rightarrow> 'w cliOptions \<Rightarrow> Command \<Rightarrow> 'w \<Rightarrow> 'w outcome" where
  "runE net J serverMain scripts opts cmd w =
     (case cmd of
        RootCmd \<Rightarrow> (Some MissingCommand, [], w)
      | ServeCmd \<Rightarrow> serveCmd serverMain opts w
      | StatusCmd \<Rightarrow> statusCmd net J opts w
      | HealthCmd \<Rightarrow> getHealth net J opts w
      | PoliciesCmd \<Rightarrow> getPolicies net J opts w
      | ReceiptsCmd \<Rightarrow> getReceipts net J opts w
      | ViolationsCmd \<Rightarrow> getViolations net J opts w
      | VerifyChainCmd fromSeq toSeq \<Rightarrow> getVerifyChain net J opts (verifyChainQuery fromSeq toSeq) w
      | CheckCmd txID policyID pathSpec \<Rightarrow> checkCmd net J opts txID policyID pathSpec w
      | SettleCmd txID from to amount currency policyID pathSpec \<Rightarrow> settleCmd net J opts txID from to amount currency policyID pathSpec w
      | FilterPathsCmd policyID pathSpecs \<Rightarrow> filterPathsCmd net J opts policyID pathSpecs w
      | DemoCmd \<Rightarrow> demoCmd net J opts w
      | CompletionCmd shell \<Rightarrow> completionCmd scripts shell w)"

definition cli_run ::
  "('w cliOptions \<Rightarrow> string list \<Rightarrow> 'w Parsed) \<Rightarrow> ('o, 'j, 'w) Net \<Rightarrow> 'j ClientJson \<Rightarrow> ('w \<Rightarrow> int \<times> 'w)
   \<Rightarrow> (string \<Rightarrow> CliError option \<times> OutLine list) \<Rightarrow> 'w cliOptions \<Rightarrow> string list \<Rightarrow> 'w \<Rightarrow> 'w outcome" where
  "cli_run cobra net J serverMain scripts opts args w =
     (case cobra (if opt_output opts = '''' then opts\<lparr>opt_output := ''table''\<rparr> else opts) args of
        ParseFails m \<Rightarrow> (Some (CobraError m), [], w)
      | HelpShown \<Rightarrow> (None, [], w)
      | Runs opts' cmd \<Rightarrow>
          if opt_output opts' \<noteq> ''table'' \<and> opt_output opts' \<noteq> ''json'' then (Some OutputFormat, [], w)
          else runE net J serverMain scripts opts' cmd w)"

definition exitCode :: "(CliError \<Rightarrow> string) \<Rightarrow> CliError option \<Rightarrow> int" where
  "exitCode text err =
     (case err of
        None \<Rightarrow> 0
      | Some (CommandExit code) \<Rightarrow> code
      | Some e \<Rightarrow> if isUsageError (text e) then 2 else 1)"

definition runCLICommand ::
  "(CliError \<Rightarrow> string) \<Rightarrow> (string \<Rightarrow> string) \<Rightarrow> ('w cliOptions \<Rightarrow> string list \<Rightarrow> 'w Parsed) \<Rightarrow> ('o, 'j, 'w) Net \<Rightarrow> 'j ClientJson \<Rightarrow> ('w \<Rightarrow> int \<times> 'w)
   \<Rightarrow> (string \<Rightarrow> CliError option \<times> OutLine list) \<Rightarrow> string list \<Rightarrow> 'w \<Rightarrow> int \<times> OutLine list \<times> 'w" where
  "runCLICommand text getenv cobra net J serverMain scripts args w =
     (case cli_run cobra net J serverMain scripts (defaultCLIOptions getenv serverMain) args w of
        (err, lines, w') \<Rightarrow>
          (exitCode text err,
           lines @ (case err of None \<Rightarrow> [] | Some (CommandExit _) \<Rightarrow> [] | Some e \<Rightarrow> [OErr (''error: '' @ text e)]), w'))"

text \<open>\<open>runWithArgs\<close> of \<^verbatim>\<open>main.go\<close>: without arguments the program is the server.\<close>

definition runWithArgs ::
  "(CliError \<Rightarrow> string) \<Rightarrow> (string \<Rightarrow> string) \<Rightarrow> ('w cliOptions \<Rightarrow> string list \<Rightarrow> 'w Parsed) \<Rightarrow> ('o, 'j, 'w) Net \<Rightarrow> 'j ClientJson \<Rightarrow> ('w \<Rightarrow> int \<times> 'w)
   \<Rightarrow> (string \<Rightarrow> CliError option \<times> OutLine list) \<Rightarrow> string list \<Rightarrow> 'w \<Rightarrow> int \<times> OutLine list \<times> 'w" where
  "runWithArgs text getenv cobra net J serverMain scripts args w =
     (if length args = 0 then (case serverMain w of (code, w') \<Rightarrow> (code, [], w'))
      else runCLICommand text getenv cobra net J serverMain scripts args w)"

section \<open>A JurisPath server behind the network\<close>

text \<open>
  The other end: the multiplexer's patterns for the endpoints the client calls, decoding of request
  bodies, and the status line and body of a response.  The world is the server with the number of
  requests it has answered; \<open>envs\<close> gives the clock, identifiers and choices of each.
\<close>

record 'j ServerJson =
  sj_check :: "'j \<Rightarrow> CheckRequest option"
  sj_settle :: "'j \<Rightarrow> SettleRequest option"
  sj_filter :: "'j \<Rightarrow> FilterPathsRequest option"
  sj_response :: "Response \<Rightarrow> 'j"
  sj_notRouted :: nat

definition statusOf :: "nat \<Rightarrow> Response \<Rightarrow> nat" where
  "statusOf other r = (case r of RError c _ \<Rightarrow> c | RSettle c _ \<Rightarrow> c | RPanic \<Rightarrow> 500 | RNotRouted \<Rightarrow> other | _ \<Rightarrow> 200)"

definition queryGet :: "(string \<times> string) list \<Rightarrow> string \<Rightarrow> string" where
  "queryGet q k = (case map_of q k of None \<Rightarrow> '''' | Some v \<Rightarrow> v)"

definition routeCall :: "'j ServerJson \<Rightarrow> 'j HttpRequest \<Rightarrow> Call option" where
  "routeCall W req =
     (let path = hq_Path req in
      if hq_Method req = ''POST'' then
        (if path = ''/api/check'' then Some (PostCheck (Option.bind (hq_Body req) (sj_check W)))
         else if path = ''/api/filter-paths'' then Some (PostFilterPaths (Option.bind (hq_Body req) (sj_filter W)))
         else if path = ''/api/settle'' then Some (PostSettle (Option.bind (hq_Body req) (sj_settle W)))
         else None)
      else if hq_Method req = ''GET'' then
        (if path = ''/api/receipts'' then Some GetReceipts
         else if path = ''/api/violations'' then Some GetViolations
         else if path = ''/api/policies'' then Some GetPolicies
         else if path = ''/api/verify-chain'' then Some (GetVerifyChain (queryGet (hq_Query req) ''from_seq'') (queryGet (hq_Query req) ''to_seq''))
         else if path = ''/api/health'' then Some GetHealth
         else None)
      else None)"

text \<open>A request without a route carries a call that its path does not match.\<close>

definition serverRequest :: "'j ServerJson \<Rightarrow> 'j HttpRequest \<Rightarrow> Request" where
  "serverRequest W req =
     \<lparr>rq_Path = hq_Path req, rq_Authorization = hq_Authorization req, rq_AdminToken = '''',
      rq_Call = (case routeCall W req of Some c \<Rightarrow> c | None \<Rightarrow> if hq_Path req = ''/api/health'' then GetReceipts else GetHealth)\<rparr>"

definition serveHTTP ::
  "('s, 'v) deps \<Rightarrow> 'j ServerJson \<Rightarrow> reqEnv \<Rightarrow> 'j HttpRequest \<Rightarrow> ('s, 'v) Server \<Rightarrow> (nat \<times> 'j) \<times> ('s, 'v) Server" where
  "serveHTTP D W env req s =
     (case Handler D env (serverRequest W req) s of (r, s') \<Rightarrow> ((statusOf (sj_notRouted W) r, sj_response W r), s'))"

definition jurispathNet ::
  "(string \<Rightarrow> string + 'o) \<Rightarrow> ('o \<Rightarrow> string option) \<Rightarrow> (bool \<Rightarrow> 'o \<Rightarrow> string option) \<Rightarrow> ('s, 'v) deps \<Rightarrow> 'j ServerJson \<Rightarrow> (nat \<Rightarrow> reqEnv)
   \<Rightarrow> ('o, 'j, nat \<times> ('s, 'v) Server) Net" where
  "jurispathNet parse accept dial D W envs =
     \<lparr>nt_parseBase = parse, nt_newRequest = accept,
      nt_Do = (\<lambda>insecure origin req (n, s).
        case dial insecure origin of
          Some m \<Rightarrow> (Inl m, (n, s))
        | None \<Rightarrow> (case serveHTTP D W (envs n) req s of (resp, s') \<Rightarrow> (Inr resp, (Suc n, s'))))\<rparr>"

text \<open>
  What the client relies on of JSON across the wire: every routed response is a JSON document; an
  error object decodes into a struct with other fields as its zero value.  \<open>clean\<close> holds of the
  responses whose texts are valid UTF-8, which JSON transports unchanged.
\<close>

definition zeroChain :: VerifyChainResponse where
  "zeroChain = \<lparr>vc_ChainLength = 0, vc_OraclePublicKey = [], vc_OraclePublicKeys = [], vc_Receipts = []\<rparr>"

locale json_api =
  fixes J :: "'j ClientJson" and W :: "'j ServerJson" and clean :: "Response \<Rightarrow> bool"
  assumes any: "r \<noteq> RNotRouted \<Longrightarrow> \<exists>j t. cj_decodeAny J (sj_response W r) = Inr j \<and> cj_Indent J (DAny j) = Inr t"
    and chain: "clean (RVerifyChain v) \<Longrightarrow> cj_decodeChain J (sj_response W (RVerifyChain v)) = Inr v"
    and chain_error: "cj_decodeChain J (sj_response W (RError c code)) = Inr zeroChain"
    and settle: "clean (RSettle c sr) \<Longrightarrow> \<exists>sr'. cj_decodeSettle J (sj_response W (RSettle c sr)) = Inr sr' \<and>
      sr_Consensus sr' = sr_Consensus sr \<and> sr_Compliance sr' = sr_Compliance sr"
    and settle_error: "cj_decodeSettle J (sj_response W (RError c code)) = Inr sr' \<Longrightarrow> sr_Consensus sr' = None \<and> sr_Compliance sr' = None"
begin

text \<open>A connected client sees the handler's response, and its state is the handler's.\<close>

lemma do_connected:
  assumes "dial (opt_insecureTLS opts) origin = None" "Handler D (envs n) (serverRequest W req) s = (r, s')" "r \<noteq> RNotRouted"
  shows "\<exists>t. do_request (jurispathNet parse accept dial D W envs) J opts origin req (n, s) =
     (statusError (statusOf (sj_notRouted W) r), [OText t], (Suc n, s'))"
proof -
  from any [OF assms(3)] obtain j t where "cj_decodeAny J (sj_response W r) = Inr j" "cj_Indent J (DAny j) = Inr t" by blast
  with assms(1,2) show ?thesis by (simp add: do_request_def jurispathNet_def serveHTTP_def statusError_def)
qed

end

text \<open>The typed documents themselves, as a wire format.\<close>

datatype Typed = TResponse Response | TCheck CheckRequest | TSettle SettleRequest | TFilter FilterPathsRequest

definition typedClient :: "(ASHop list \<Rightarrow> bytes option) \<Rightarrow> (bytes \<Rightarrow> ASHop list option) \<Rightarrow> prims \<Rightarrow> Typed ClientJson" where
  "typedClient enc dec P =
     \<lparr>cj_check = Inr \<circ> TCheck, cj_settle = Inr \<circ> TSettle, cj_filter = Inr \<circ> TFilter,
      cj_decodeAny = Inr, cj_decodeMap = (\<lambda>_. Inr Map.empty),
      cj_decodePolicies = (\<lambda>d. case d of TResponse (RPolicies ps) \<Rightarrow> Inr ps | _ \<Rightarrow> Inl ''type''),
      cj_decodeReceipts = (\<lambda>d. case d of TResponse (RReceipts rs) \<Rightarrow> Inr rs | _ \<Rightarrow> Inl ''type''),
      cj_decodeViolations = (\<lambda>d. case d of TResponse (RViolations vs) \<Rightarrow> Inr vs | _ \<Rightarrow> Inl ''type''),
      cj_decodeChain = (\<lambda>d. case d of TResponse (RVerifyChain v) \<Rightarrow> Inr v | _ \<Rightarrow> Inr zeroChain),
      cj_decodeSettle = (\<lambda>d. case d of TResponse (RSettle c sr) \<Rightarrow> Inr sr
        | _ \<Rightarrow> Inr \<lparr>sr_Consensus = None, sr_Compliance = None, sr_ReceiptPersisted = None, sr_PersistenceWarning = '''', sr_Idempotent = False,
                    sr_Code = '''', sr_Error = None\<rparr>),
      cj_decodeFilter = (\<lambda>d. case d of TResponse (RFilter f) \<Rightarrow> Inr f | _ \<Rightarrow> Inl ''type''),
      cj_Indent = (\<lambda>_. Inr ''{}''), cj_format = (\<lambda>_. ''value''), cj_rfc3339 = (\<lambda>_. ''time''), cj_clause = (\<lambda>_. ''clause''),
      cj_marshalHops = enc, cj_unmarshalHops = dec, cj_prims = P\<rparr>"

definition typedServer :: "Typed ServerJson" where
  "typedServer =
     \<lparr>sj_check = (\<lambda>d. case d of TCheck r \<Rightarrow> Some r | _ \<Rightarrow> None), sj_settle = (\<lambda>d. case d of TSettle r \<Rightarrow> Some r | _ \<Rightarrow> None),
      sj_filter = (\<lambda>d. case d of TFilter r \<Rightarrow> Some r | _ \<Rightarrow> None), sj_response = TResponse, sj_notRouted = 404\<rparr>"

interpretation typed: json_api "typedClient enc dec P" typedServer "\<lambda>_. True"
  by unfold_locales (auto simp: typedClient_def typedServer_def)

section \<open>Exit codes and single requests\<close>

lemma exitCode_zero_iff: "exitCode text err = 0 \<longleftrightarrow> err = None \<or> err = Some (CommandExit 0)"
  by (simp add: exitCode_def split: option.split CliError.split)

lemma statusError_None_iff: "statusError c = None \<longleftrightarrow> 200 \<le> c \<and> c < 300"
  by (auto simp: statusError_def)

lemma statusError_no_exit [simp]: "statusError c \<noteq> Some (CommandExit x)"
  by (simp add: statusError_def)

lemma runCLICommand_runs:
  assumes "cobra (defaultCLIOptions getenv serverMain) args = Runs opts cmd" "opt_output opts = ''table'' \<or> opt_output opts = ''json''"
    and "runE net J serverMain scripts opts cmd w = (err, lines, w')"
  shows "\<exists>more. runCLICommand text getenv cobra net J serverMain scripts args w = (exitCode text err, lines @ more, w')"
proof -
  have "opt_output (defaultCLIOptions getenv serverMain) = ''table''" by (simp add: defaultCLIOptions_def Let_def)
  with assms show ?thesis by (auto simp: runCLICommand_def cli_run_def)
qed

lemma postJSON_connected:
  assumes "parse (opt_baseURL opts) = Inr origin" "accept origin = None"
  shows "postJSON (jurispathNet parse accept dial D W envs) J opts path (Inr body) w =
    do_request (jurispathNet parse accept dial D W envs) J opts origin
      \<lparr>hq_Method = ''POST'', hq_Path = path, hq_Query = [], hq_Authorization = (if opt_token opts \<noteq> '''' then ''Bearer '' @ opt_token opts else ''''),
       hq_ContentType = ''application/json'', hq_Body = Some body\<rparr> w"
  using assms by (simp add: postJSON_def newRequest_def jurispathNet_def)

text \<open>The token the client sends passes the bearer check exactly when it is the server's.\<close>

definition authorised :: "'w cliOptions \<Rightarrow> ('s, 'v) Server \<Rightarrow> bool" where
  "authorised opts s \<longleftrightarrow> sv_apiToken s = '''' \<or> opt_token opts = sv_apiToken s"

lemma Handler_client:
  assumes "rq_Authorization req = (if opt_token opts \<noteq> '''' then ''Bearer '' @ opt_token opts else '''')" "hasPrefix (rq_Path req) ''/api/''"
  shows "Handler D env req s =
    (if authorised opts s then recoveryMiddleware (routes D env) req s else (RError 401 ''UNAUTHORIZED'', s))"
proof (cases "sv_apiToken s = ''''")
  case False
  have "cutPrefix (rq_Authorization req) ''Bearer '' = (opt_token opts, True)" if "opt_token opts \<noteq> ''''"
    using that assms(1) by (simp add: cutPrefix_iff)
  moreover have "cutPrefix (rq_Authorization req) ''Bearer '' = ('''', False)" if "opt_token opts = ''''"
    using that assms(1) by (simp add: cutPrefix_def hasPrefix_def)
  ultimately show ?thesis using False assms(2)
    by (cases "opt_token opts = ''''") (auto simp: Handler_def recoveryMiddleware_def bearerAuthMiddleware_def authorised_def)
qed (simp add: Handler_def recoveryMiddleware_def bearerAuthMiddleware_def authorised_def)

section \<open>What a successful settlement reply means\<close>

definition settle_reply :: "Response \<Rightarrow> bool" where
  "settle_reply r \<longleftrightarrow> r = RPanic \<or> (\<exists>c code. r = RError c code \<and> 400 \<le> c) \<or> (\<exists>c sr. r = RSettle c sr \<and> c \<in> {200, 422, 500})"

lemma settle_replyI [simp]:
  "settle_reply RPanic" "400 \<le> c \<Longrightarrow> settle_reply (RError c code)" "settle_reply (RSettle 200 sr)" "settle_reply (RSettle 422 sr)"
  "settle_reply (writeSettlementReceiptFailure i co cd e b)"
  by (auto simp: settle_reply_def writeSettlementReceiptFailure_def)

lemma existing_reply: "settle_reply (fst (handleExistingSettlement D env ex req d path s))"
  by (simp add: handleExistingSettlement_def Let_def split: sum.split prod.split TxStatus.split LegacyPathFault.split)

lemma compliant_reply: "settle_reply (fst (settleCompliant D env req i d path s))"
  by (simp add: settleCompliant_def Let_def existing_reply split: sum.split prod.split RoundOutcome.split)

lemma settle_replies: "settle_reply (fst (handleSettle D env body s))"
  by (simp add: handleSettle_def Let_def existing_reply compliant_reply split: option.split sum.split prod.split)

lemma settle_reply_success:
  "settle_reply r \<Longrightarrow> 200 \<le> statusOf n (if r = RPanic then RError 500 code else r) \<and> statusOf n (if r = RPanic then RError 500 code else r) < 300
     \<longleftrightarrow> (\<exists>sr. r = RSettle 200 sr)"
  by (auto simp: settle_reply_def statusOf_def)

text \<open>On a service in good order a reply of success means that the transaction is confirmed.\<close>

context compliance_service
begin

lemma refused_reply:
  assumes "service_inv store_inv receipts D rv policies s" "GetTransaction i (sv_ledger s) = None"
    and "\<not> acceptable (settleTransaction req i d path) (sv_ledger s)"
  shows "fst (settleCompliant D env req i d path s) \<noteq> RSettle c sr"
proof -
  let ?tx = "settleTransaction req i d path" and ?l = "sv_ledger s"
  let ?ce = "with_tx ?tx (sv_engine s)"
  from assms(1) have rdy: "engine_ready (sv_engine s)" and lk: "ledger_linked policies (receipts (sv_receipts s)) ?l"
    by (simp_all add: service_inv_def service_ok_def)
  from assms(2) lk have uns: "\<not> lg_seen ?l i" by (auto simp: ledger_linked_def GetTransaction_ready [OF rdy])
  have n: "lg_next ?l < lg_next (ce_ledger ?ce)" by (simp add: with_tx_def newTx_def)
  show ?thesis
  proof (rule SubmitAndRunRound_cases [OF engine_ready_with_tx [OF rdy, of ?tx] n, of "e_pick env" "e_clk env 5"])
    fix tx assume "lg_seen (ce_ledger ?ce) (tx_ID (lg_heap (ce_ledger ?ce) (lg_next ?l)))"
    with uns show ?thesis by (simp add: with_tx_def newTx_def) (simp add: settleTransaction_def)
  next
    fix e assume "SubmitAndRunRound (e_pick env) (e_clk env 5) (lg_next ?l) ?ce = (SubmitError e, ?ce)"
    then show ?thesis by (simp add: settleCompliant_def Let_def newTx_def with_tx_def)
  next
    assume "acceptable (lg_heap (ce_ledger ?ce) (lg_next ?l)) (ce_ledger ?ce)"
    with assms(3) show ?thesis by (auto simp: with_tx_def newTx_def acceptable_def GetBalance_def)
  qed
qed

lemma settle_200_moves:
  assumes "service_inv store_inv receipts D rv policies s" "handleSettle D env (Some req) s = (RSettle 200 sr, s')"
    and new: "GetTransaction (requestTxID env (sreq_TransactionID req)) (sv_ledger s) = None"
  shows "moves_money D env req s"
proof -
  let ?i = "requestTxID env (sreq_TransactionID req)"
  from assms(2) have "settle_complete D env req"
    by (auto simp: handleSettle_def settle_complete_def requestTxID_def Let_def split: if_splits option.splits)
  then obtain d raw where d: "canonicalSettleRequestDigest D req ?i = Some d" and raw: "sreq_RawPath req = Some raw"
    and wf: "\<not> (sreq_From req = '''' \<or> sreq_To req = '''' \<or> sreq_Amount req \<le>s 0 \<or> sreq_Currency req = '''')" "sreq_PolicyID req \<noteq> ''''"
    by (auto simp: settle_complete_def)
  note unf = handleSettle_def Let_def requestTxID_def [symmetric] d raw wf new
  from assms(2) obtain c path where c: "sv_checkers s (sreq_PolicyID req) = Some c"
    and p: "BuildSCIONPath (dp_prims D) (sv_extractor s) raw = Inr path"
    by (cases "sv_checkers s (sreq_PolicyID req)"; cases "BuildSCIONPath (dp_prims D) (sv_extractor s) raw") (auto simp: unf)
  obtain r c' where ck: "Checker_Check path (e_clk env 0) (e_clk env 1) (e_clk env 2) c = (r, c')" by fastforce
  from good_checker(2) [OF assms(1) c ck] have c': "c' = c" .
  with c have s1: "s\<lparr>sv_checkers := (sv_checkers s)(sreq_PolicyID req \<mapsto> c')\<rparr> = s" by (simp add: map_upd_triv)
  from assms(1) c have nd: "chk_replayDetector c = None" by (auto simp: service_inv_def service_ok_def checkers_ok_def)
  from assms(2) c p ck s1 obtain x where x: "r = Inr x" "cr_Compliant x" "settleCompliant D env req ?i d path s = (RSettle 200 sr, s')"
    by (cases r) (auto simp: unf split: if_splits option.splits)
  from Checker_Check_no_detector [OF nd, of path "e_clk env 0" "e_clk env 1" "e_clk env 2"] ck x
  have wi: "within_corridor (chk_policy c) path" by simp
  have "acceptable (settleTransaction req ?i d path) (sv_ledger s)"
  proof (rule ccontr)
    assume "\<not> acceptable (settleTransaction req ?i d path) (sv_ledger s)"
    from refused_reply [OF assms(1) new this, of env 200 sr] x(3) show False by simp
  qed
  with wi \<open>settle_complete D env req\<close> new c p raw d show ?thesis by (simp add: moves_money_def path_allowed_def acceptable_settle)
qed

lemma settle_200_confirmed:
  assumes "service_inv store_inv receipts D rv policies s" "ed25519_correct (dp_prims D)" "hashes_sized (dp_prims D)"
    and run: "handleSettle D env (Some req) s = (RSettle 200 sr, s')"
  shows "\<exists>tx. GetTransaction (requestTxID env (sreq_TransactionID req)) (sv_ledger s') = Some tx \<and> tx_Status tx = TxConfirmed"
proof -
  let ?i = "requestTxID env (sreq_TransactionID req)"
  note g = handleSettle_good [OF assms]
  from g have inv: "service_inv store_inv receipts D rv policies s'" by (simp add: good_def)
  then have lk: "ledger_linked policies (receipts (sv_receipts s')) (sv_ledger s')" by (simp add: service_inv_def service_ok_def)
  from assms(1) have rdy: "engine_ready (sv_engine s)" by (simp add: service_inv_def service_ok_def)
  have "\<exists>r. lg_confirmed (sv_ledger s') ?i = Some r"
  proof (cases "GetTransaction ?i (sv_ledger s)")
    case None
    with settle_200_moves [OF assms(1) run] g show ?thesis by auto
  next
    case (Some ex)
    then have "\<not> moves_money D env req s" by (simp add: moves_money_def)
    with g Some show ?thesis by (auto simp: GetTransaction_ready [OF rdy] split: option.splits)
  qed
  then obtain r where r: "lg_confirmed (sv_ledger s') ?i = Some r" by blast
  from ledger_linked_tx [OF lk r] r show ?thesis by (simp add: GetTransaction_def settled_tx_def)
qed

end

text \<open>A refusal for the path touches no account.\<close>

lemma not_422:
  "fst (handleExistingSettlement D env ex req d path s) \<noteq> RSettle 422 sr"
  "fst (settleCompliant D env req i d p s) \<noteq> RSettle 422 sr"
proof -
  show e: "fst (handleExistingSettlement D env ex req d path s) \<noteq> RSettle 422 sr" for ex d path s
    by (simp add: handleExistingSettlement_def writeSettlementReceiptFailure_def Let_def split: sum.split prod.split TxStatus.split LegacyPathFault.split)
  show "fst (settleCompliant D env req i d p s) \<noteq> RSettle 422 sr"
    by (simp add: settleCompliant_def Let_def e writeSettlementReceiptFailure_def split: sum.split prod.split RoundOutcome.split)
qed

lemma settle_422_engine: "handleSettle D env body s = (RSettle 422 sr, s') \<Longrightarrow> sv_engine s' = sv_engine s"
  using not_422 [of D env] by (auto simp: handleSettle_def Let_def dest: arg_cong [where f = fst] split: option.splits sum.splits prod.splits if_splits)

section \<open>The client against a server\<close>

lemma routed_settle:
  assumes "hq_Method q = ''POST''" "hq_Path q = ''/api/settle''" "hq_Body q = Some d" "sj_settle W d = Some req"
    and "hq_Authorization q = (if opt_token opts \<noteq> '''' then ''Bearer '' @ opt_token opts else '''')"
  shows "Handler D env (serverRequest W q) s =
    (if authorised opts s then (let (r, s') = handleSettle D env (Some req) s in (if r = RPanic then RError 500 ''INTERNAL_ERROR'' else r, s'))
     else (RError 401 ''UNAUTHORIZED'', s))"
proof -
  have "routeCall W q = Some (PostSettle (Some req))" using assms by (simp add: routeCall_def)
  then have "serverRequest W q = \<lparr>rq_Path = ''/api/settle'', rq_Authorization = hq_Authorization q, rq_AdminToken = '''', rq_Call = PostSettle (Some req)\<rparr>"
    using assms by (simp add: serverRequest_def)
  then show ?thesis using assms(5)
    by (subst Handler_client [where opts = opts])
      (simp_all add: hasPrefix_def recoveryMiddleware_def routes_def callPath_def Let_def split: prod.split)
qed

text \<open>A request the client can form and the server can read, over a connection that stands.\<close>

definition settle_request :: "string \<Rightarrow> string \<Rightarrow> string \<Rightarrow> int64 \<Rightarrow> string \<Rightarrow> string \<Rightarrow> bytes \<Rightarrow> SettleRequest" where
  "settle_request txID from to amount currency policyID raw =
     \<lparr>sreq_TransactionID = txID, sreq_From = from, sreq_To = to, sreq_Amount = amount, sreq_Currency = currency,
      sreq_PolicyID = policyID, sreq_RawPath = Some raw\<rparr>"

definition transported :: "('r \<Rightarrow> string + 'j) \<Rightarrow> ('j \<Rightarrow> 'r option) \<Rightarrow> 'r \<Rightarrow> bool" where
  "transported enc dec req \<longleftrightarrow> (\<exists>d. enc req = Inr d \<and> dec d = Some req)"

definition connected ::
  "(string \<Rightarrow> string + 'o) \<Rightarrow> ('o \<Rightarrow> string option) \<Rightarrow> (bool \<Rightarrow> 'o \<Rightarrow> string option) \<Rightarrow> 'w cliOptions \<Rightarrow> bool" where
  "connected parse accept dial opts \<longleftrightarrow>
     (\<exists>origin. parse (opt_baseURL opts) = Inr origin \<and> accept origin = None \<and> dial (opt_insecureTLS opts) origin = None)"

context json_api
begin

lemma settle_command:
  assumes "connected parse accept dial opts" "\<not> amount \<le>s 0" "rawPathFromSpec (cj_marshalHops J) spec = Inr raw"
    and "req = settle_request txID from to amount currency policyID raw" "transported (cj_settle J) (sj_settle W) req"
    and run: "handleSettle D (envs n) (Some req) s = (r, s')"
  shows "\<exists>err t. settleCmd (jurispathNet parse accept dial D W envs) J opts txID from to amount currency policyID spec (n, s) =
      (err, [OText t], (Suc n, if authorised opts s then s' else s)) \<and> err \<noteq> Some (CommandExit 0) \<and>
      (err = None \<longleftrightarrow> authorised opts s \<and> (\<exists>sr. r = RSettle 200 sr))"
proof -
  from assms(1) obtain origin where o: "parse (opt_baseURL opts) = Inr origin" "accept origin = None" "dial (opt_insecureTLS opts) origin = None"
    by (auto simp: connected_def)
  from assms(5) obtain d where d: "cj_settle J req = Inr d" "sj_settle W d = Some req" by (auto simp: transported_def)
  let ?q = "\<lparr>hq_Method = ''POST'', hq_Path = ''/api/settle'', hq_Query = [],
    hq_Authorization = (if opt_token opts \<noteq> '''' then ''Bearer '' @ opt_token opts else ''''), hq_ContentType = ''application/json'', hq_Body = Some d\<rparr>"
  define resp where "resp = (if authorised opts s then if r = RPanic then RError 500 ''INTERNAL_ERROR'' else r else RError 401 ''UNAUTHORIZED'')"
  have h: "Handler D (envs n) (serverRequest W ?q) s = (resp, if authorised opts s then s' else s)"
    using routed_settle [of ?q d W req opts D "envs n" s] d(2) run by (simp add: resp_def)
  have reply: "settle_reply r" using settle_replies [of D "envs n" "Some req" s] run by simp
  then have nr: "resp \<noteq> RNotRouted" by (auto simp: resp_def settle_reply_def)
  from do_connected [where dial = dial and opts = opts and envs = envs and n = n, OF o(3) h nr, of parse accept] obtain t where
    t: "do_request (jurispathNet parse accept dial D W envs) J opts origin ?q (n, s) =
      (statusError (statusOf (sj_notRouted W) resp), [OText t], (Suc n, if authorised opts s then s' else s))" by blast
  have "settleCmd (jurispathNet parse accept dial D W envs) J opts txID from to amount currency policyID spec (n, s) =
    (statusError (statusOf (sj_notRouted W) resp), [OText t], (Suc n, if authorised opts s then s' else s))"
    using assms(2-4) d(1) t by (simp add: settleCmd_def settle_request_def postJSON_connected [where parse = parse and opts = opts and accept = accept, OF o(1,2)])
  moreover have "statusError (statusOf (sj_notRouted W) resp) = None \<longleftrightarrow> authorised opts s \<and> (\<exists>sr. r = RSettle 200 sr)"
    using settle_reply_success [OF reply, of "sj_notRouted W" "''INTERNAL_ERROR''"]
    by (auto simp: resp_def statusError_None_iff statusOf_def)
  ultimately show ?thesis by simp
qed

text \<open>
  The demonstration reports a settlement only for a reply of success that names a confirmed
  transaction with its receipt, and a blocked one only for a reply that names a violation.
\<close>

lemma demo_command:
  assumes "connected parse accept dial opts" "rawPathFromSpec (cj_marshalHops J) spec = Inr raw"
    and "req = settle_request txID from to amount currency policyID raw" "transported (cj_settle J) (sj_settle W) req"
    and run: "handleSettle D (envs n) (Some req) s = (r, s')" and "clean r"
  shows "\<exists>err lines. demoSettle (jurispathNet parse accept dial D W envs) J opts txID from to amount currency policyID spec (n, s) =
      (err, lines, (Suc n, if authorised opts s then s' else s)) \<and> err \<noteq> Some (CommandExit 0) \<and>
      (err = None \<longleftrightarrow> authorised opts s \<and>
         ((\<exists>sr pr v. r = RSettle 422 sr \<and> sr_Compliance sr = Some pr \<and> res_Violation pr = Some v) \<or>
          (\<exists>sr c pr rc. r = RSettle 200 sr \<and> sr_Consensus sr = Some c \<and> cres_Confirmed c \<and>
             sr_Compliance sr = Some pr \<and> res_Compliant pr \<and> res_Receipt pr = Some rc))) \<and>
      (\<forall>sr pr v. err = None \<longrightarrow> r = RSettle 422 sr \<longrightarrow> sr_Compliance sr = Some pr \<longrightarrow> res_Violation pr = Some v \<longrightarrow>
         hd lines = OText (''  SETTLEMENT BLOCKED - '' @ cj_clause J (viol_ViolatedClause v))) \<and>
      (\<forall>sr. err = None \<longrightarrow> r = RSettle 200 sr \<longrightarrow>
         hd lines = OText (''  SETTLED - '' @ from @ '' -> '' @ to @ '' '' @ int_text (sint amount) @ '' '' @ currency))"
proof -
  from assms(1) obtain origin where o: "parse (opt_baseURL opts) = Inr origin" "accept origin = None" "dial (opt_insecureTLS opts) origin = None"
    by (auto simp: connected_def)
  from assms(4) obtain d where d: "cj_settle J req = Inr d" "sj_settle W d = Some req" by (auto simp: transported_def)
  let ?q = "\<lparr>hq_Method = ''POST'', hq_Path = ''/api/settle'', hq_Query = [],
    hq_Authorization = (if opt_token opts \<noteq> '''' then ''Bearer '' @ opt_token opts else ''''), hq_ContentType = ''application/json'', hq_Body = Some d\<rparr>"
  let ?net = "jurispathNet parse accept dial D W envs"
  define resp where "resp = (if authorised opts s then if r = RPanic then RError 500 ''INTERNAL_ERROR'' else r else RError 401 ''UNAUTHORIZED'')"
  let ?w = "(Suc n, if authorised opts s then s' else s)"
  have "Handler D (envs n) (serverRequest W ?q) s = (resp, if authorised opts s then s' else s)"
    using routed_settle [of ?q d W req opts D "envs n" s] d(2) run by (simp add: resp_def)
  then have pd: "postDecode ?net (cj_decodeSettle J) opts ''/api/settle'' (cj_settle J req) (n, s) =
    (case cj_decodeSettle J (sj_response W resp) of Inl m \<Rightarrow> (Inl (DecodeResponse m), ?w) | Inr sr \<Rightarrow> (Inr (statusOf (sj_notRouted W) resp, sr), ?w))"
    using o d(1) by (simp add: postDecode_def newRequest_def jurispathNet_def serveHTTP_def split: prod.split)
  have reply: "settle_reply r" using settle_replies [of D "envs n" "Some req" s] run by simp
  show ?thesis
  proof (cases "\<exists>c sr. resp = RSettle c sr")
    case True
    then obtain c sr where rs: "resp = RSettle c sr" by blast
    then have a: "authorised opts s" "r = RSettle c sr" by (auto simp: resp_def split: if_splits)
    from settle [of c sr] assms(6) a obtain sr' where sr': "cj_decodeSettle J (sj_response W resp) = Inr sr'"
      "sr_Consensus sr' = sr_Consensus sr" "sr_Compliance sr' = sr_Compliance sr" by (auto simp: rs)
    note pd' = pd [unfolded sr'(1), simplified, unfolded assms(3) settle_request_def rs]
    show ?thesis
      by (simp add: demoSettle_def assms(2) pd' a sr'(2,3) statusOf_def split: option.split)
         (auto simp: bind_eq_Some_conv split: option.splits if_splits)
  next
    case False
    with reply obtain c code where rs: "resp = RError c code" "400 \<le> c \<and> c \<noteq> 422 \<or> c = 422" "\<not> (authorised opts s \<and> (\<exists>c sr. r = RSettle c sr))"
      by (auto simp: resp_def settle_reply_def split: if_splits)
    show ?thesis
    proof (cases "cj_decodeSettle J (sj_response W resp)")
      case (Inl m)
      note pd' = pd [unfolded Inl, simplified, unfolded assms(3) settle_request_def]
      show ?thesis using rs(3) by (auto simp: demoSettle_def assms(2) pd')
    next
      case (Inr sr')
      with settle_error [of c code sr'] rs(1) have n: "sr_Consensus sr' = None" "sr_Compliance sr' = None" by simp_all
      note pd' = pd [unfolded Inr, simplified, unfolded assms(3) settle_request_def rs(1)]
      show ?thesis using rs(2,3) by (auto simp: demoSettle_def assms(2) pd' n statusOf_def)
    qed
  qed
qed

end

section \<open>verify-chain\<close>

definition seqText :: "uint64 \<Rightarrow> string" where
  "seqText n = (if n = 0 then '''' else itoa (unat n))"

lemma queryGet_verifyChain:
  "queryGet (verifyChainQuery f t) ''from_seq'' = seqText f" "queryGet (verifyChainQuery f t) ''to_seq'' = seqText t"
  by (auto simp: queryGet_def verifyChainQuery_def seqText_def word_greater_zero_iff)

lemma parseSeq_seqText: "parseSeq (seqText n) = (if n = 0 then None else Some (Inr n))"
proof (cases "n = 0")
  case False
  have "unat n < 2 ^ 64" using unsigned_less [of n, where ?'a = nat] by simp
  with False show ?thesis by (simp add: parseSeq_def seqText_def parseUint_itoa)
qed (simp add: parseSeq_def seqText_def)

lemma handleVerifyChain_reply:
  obtains (served) v where "handleVerifyChain D f t s = RVerifyChain v" | (refused) c code where "handleVerifyChain D f t s = RError c code" "400 \<le> c"
proof -
  have "(\<exists>v. handleVerifyChain D f t s = RVerifyChain v) \<or> (\<exists>c code. handleVerifyChain D f t s = RError c code \<and> 400 \<le> c)"
    by (cases "parseSeq f"; cases "parseSeq t") (auto simp: handleVerifyChain_def Let_def split: sum.split)
  with that show thesis by blast
qed

lemma routed_verify_chain:
  assumes "hq_Method q = ''GET''" "hq_Path q = ''/api/verify-chain''" "hq_Query q = verifyChainQuery f t" "authorised opts s"
    and "hq_Authorization q = (if opt_token opts \<noteq> '''' then ''Bearer '' @ opt_token opts else '''')"
    and "handleVerifyChain D (seqText f) (seqText t) s \<noteq> RPanic"
  shows "Handler D env (serverRequest W q) s = (handleVerifyChain D (seqText f) (seqText t) s, s)"
proof -
  have "routeCall W q = Some (GetVerifyChain (seqText f) (seqText t))" using assms by (simp add: routeCall_def queryGet_verifyChain)
  then have "serverRequest W q = \<lparr>rq_Path = ''/api/verify-chain'', rq_Authorization = hq_Authorization q, rq_AdminToken = '''',
      rq_Call = GetVerifyChain (seqText f) (seqText t)\<rparr>"
    using assms by (simp add: serverRequest_def)
  then show ?thesis using assms(4-6)
    by (subst Handler_client [where opts = opts]) (simp_all add: hasPrefix_def recoveryMiddleware_def routes_def callPath_def)
qed

context json_api
begin

lemma verify_chain_connected:
  assumes "connected parse accept dial opts" "opt_output opts = ''table''" "authorised opts s"
    and "handleVerifyChain D (seqText f) (seqText t) s = resp" "clean resp"
  shows "\<exists>err lines. getVerifyChain (jurispathNet parse accept dial D W envs) J opts (verifyChainQuery f t) (n, s) = (err, lines, (Suc n, s)) \<and>
    err \<noteq> Some (CommandExit 0) \<and> (err = None \<longleftrightarrow> (\<exists>v. resp = RVerifyChain v)) \<and> (\<forall>v. resp = RVerifyChain v \<longrightarrow> lines = printVerifyChain v)"
proof -
  from assms(1) obtain origin where o: "parse (opt_baseURL opts) = Inr origin" "accept origin = None" "dial (opt_insecureTLS opts) origin = None"
    by (auto simp: connected_def)
  let ?q = "\<lparr>hq_Method = ''GET'', hq_Path = ''/api/verify-chain'', hq_Query = verifyChainQuery f t,
    hq_Authorization = (if opt_token opts \<noteq> '''' then ''Bearer '' @ opt_token opts else ''''), hq_ContentType = '''', hq_Body = None\<rparr>"
  let ?r = "serverRequest W ?q"
  have "resp \<noteq> RPanic" using assms(4) by (cases rule: handleVerifyChain_reply [of D "seqText f" "seqText t" s]) auto
  then have h: "Handler D (envs n) ?r s = (resp, s)"
    using routed_verify_chain [of ?q f t opts s D "envs n" W] assms(3,4) by simp
  have g: "getDecode (jurispathNet parse accept dial D W envs) (cj_decodeChain J) opts ''/api/verify-chain'' (verifyChainQuery f t) (n, s) =
    (case cj_decodeChain J (sj_response W resp) of Inl m \<Rightarrow> (Inl (DecodeResponse m), (Suc n, s)) | Inr v \<Rightarrow> (Inr (statusOf (sj_notRouted W) resp, v), (Suc n, s)))"
    using o h by (simp add: getDecode_def newRequest_def jurispathNet_def serveHTTP_def)
  show ?thesis
  proof (cases rule: handleVerifyChain_reply [of D "seqText f" "seqText t" s])
    case (served v)
    with assms(4,5) chain [of v] have "cj_decodeChain J (sj_response W resp) = Inr v" "resp = RVerifyChain v" by simp_all
    then show ?thesis using assms(2) by (simp add: getVerifyChain_def getAndPrint_def g statusOf_def statusError_def)
  next
    case (refused c code)
    with assms(4) chain_error [of c code] have "cj_decodeChain J (sj_response W resp) = Inr zeroChain" "resp = RError c code" by simp_all
    then show ?thesis using assms(2) refused(2) by (simp add: getVerifyChain_def getAndPrint_def g statusOf_def statusError_def)
  qed
qed

end

text \<open>
  C33. What \<open>jurispath verify-chain\<close> tells its user.  Against a server it is authorised for, the
  command changes nothing, prints exactly the chain the server answers for the bounds given, and
  exits with 0 exactly when the server answered with one: it checks neither signatures nor hashes,
  so success is the server's word.  A lower bound alone is always refused, because the upper bound
  that is left out counts as zero.
\<close>

theorem verify_chain_command:
  assumes "json_api J W clean" and "cobra (defaultCLIOptions getenv serverMain) args = Runs opts (VerifyChainCmd f t)"
    and "opt_output opts = ''table''" and "connected parse accept dial opts" and "authorised opts s"
    and "handleVerifyChain D (seqText f) (seqText t) s = resp" and "clean resp"
    and "runCLICommand text getenv cobra (jurispathNet parse accept dial D W envs) J serverMain scripts args (n, s) = (code, lines, w')"
  shows "w' = (Suc n, s) \<and> (code = 0 \<longleftrightarrow> (\<exists>v. resp = RVerifyChain v)) \<and>
    (\<forall>v. resp = RVerifyChain v \<longrightarrow> lines = printVerifyChain v) \<and> (f \<noteq> 0 \<and> t = 0 \<longrightarrow> code \<noteq> 0)"
proof -
  from json_api.verify_chain_connected [OF assms(1,4,3,5,6,7), of envs n]
  obtain err ls where e: "getVerifyChain (jurispathNet parse accept dial D W envs) J opts (verifyChainQuery f t) (n, s) = (err, ls, (Suc n, s))"
    "err \<noteq> Some (CommandExit 0)" "err = None \<longleftrightarrow> (\<exists>v. resp = RVerifyChain v)" "\<forall>v. resp = RVerifyChain v \<longrightarrow> ls = printVerifyChain v" by blast
  have d: "opt_output (defaultCLIOptions getenv serverMain) = ''table''" by (simp add: defaultCLIOptions_def Let_def)
  have c: "code = exitCode text err" "w' = (Suc n, s)" "err = None \<Longrightarrow> lines = ls"
    using assms(2,3,8) e(1) d by (auto simp: runCLICommand_def cli_run_def runE_def)
  have "\<nexists>v. resp = RVerifyChain v" if "f \<noteq> 0" "t = 0"
    using assms(6) that by (auto simp: handleVerifyChain_def parseSeq_seqText Let_def word_greater_zero_iff)
  with c e show ?thesis by (auto simp: exitCode_zero_iff)
qed

definition quiet_opts :: "'w cliOptions" where
  "quiet_opts = defaultCLIOptions (\<lambda>_. '''') (\<lambda>w. (0, w))"

lemma quiet_opts_simps [simp]:
  "opt_output quiet_opts = ''table''" "opt_token quiet_opts = ''''" "opt_baseURL quiet_opts = defaultCLIBaseURL" "opt_insecureTLS quiet_opts = False"
  by (simp_all add: quiet_opts_def defaultCLIOptions_def Let_def)

lemma quiet_connected: "connected (\<lambda>_. Inr ()) (\<lambda>_. None) (\<lambda>_ _. None) opts"
  by (simp add: connected_def)

theorem verify_chain_command_witness:
  "\<exists>lines w'. runCLICommand (\<lambda>_. '''') (\<lambda>_. '''') (\<lambda>_ _. Runs quiet_opts (VerifyChainCmd 0 0))
     (jurispathNet (\<lambda>_. Inr ()) (\<lambda>_. None) (\<lambda>_ _. None) aud_D typedServer (\<lambda>_. aud_env)) (typedClient (\<lambda>_. None) (\<lambda>_. None) toy_prims)
     (\<lambda>w. (0, w)) (\<lambda>_. (None, [])) [''verify-chain''] (0, aud_start) = (0, lines, w') \<and> w' = (1, aud_start)"
proof -
  have "parseSeq '''' = None" by (simp add: parseSeq_def)
  then have h: "\<exists>v. handleVerifyChain aud_D (seqText 0) (seqText 0) aud_start = RVerifyChain v"
    by (simp add: handleVerifyChain_def seqText_def Let_def aud_D_def aud_start_def NewServer_def MemoryStoreOps_def Memory_ListRange_def)
  obtain code lines w' where r: "runCLICommand (\<lambda>_. '''') (\<lambda>_. '''') (\<lambda>_ _. Runs quiet_opts (VerifyChainCmd 0 0))
     (jurispathNet (\<lambda>_. Inr ()) (\<lambda>_. None) (\<lambda>_ _. None) aud_D typedServer (\<lambda>_. aud_env)) (typedClient (\<lambda>_. None) (\<lambda>_. None) toy_prims)
     (\<lambda>w. (0, w)) (\<lambda>_. (None, [])) [''verify-chain''] (0, aud_start) = (code, lines, w')" by (metis prod_cases3)
  have "authorised quiet_opts aud_start" by (simp add: authorised_def aud_start_def NewServer_def)
  from verify_chain_command [OF typed.json_api_axioms _ _ quiet_connected this refl TrueI r] h show ?thesis
    by (auto simp: r)
qed

end
