(* ===== verification/JP_Commands.thy ===== *)
theory JP_Commands
  imports JP_Cli
begin

text \<open>
  The declarations of the command line client (\<^verbatim>\<open>cmd/jurispath/cli.go\<close>): the commands with the
  arguments and flags the parser accepts, and the HTTP client.  Help texts are left out.
\<close>

section \<open>Commands and flags\<close>

datatype FlagKind = StringFlag string | BoolFlag bool | Int64Flag int64 | Uint64Flag uint64

datatype ArgsRule = AnyArgs | NoArgs | ExactArgs nat

record CommandDecl =
  cd_Use :: string
  cd_Args :: ArgsRule
  cd_Flags :: "(string \<times> FlagKind) list"
  cd_Required :: "string list"
  cd_ValidArgs :: "string list"

definition newCommand :: "string \<Rightarrow> ArgsRule \<Rightarrow> CommandDecl" where
  "newCommand use args = \<lparr>cd_Use = use, cd_Args = args, cd_Flags = [], cd_Required = [], cd_ValidArgs = []\<rparr>"

definition flagVar :: "string \<Rightarrow> FlagKind \<Rightarrow> CommandDecl \<Rightarrow> CommandDecl" where
  "flagVar name kind d = d\<lparr>cd_Flags := cd_Flags d @ [(name, kind)]\<rparr>"

text \<open>The calls of \<open>MarkFlagRequired\<close>, whose errors the code drops.\<close>

definition require :: "string list \<Rightarrow> CommandDecl \<Rightarrow> CommandDecl" where
  "require names d = d\<lparr>cd_Required := cd_Required d @ names\<rparr>"

definition newRootCmd :: "'w cliOptions \<Rightarrow> CommandDecl" where
  "newRootCmd opts =
     flagVar ''output'' (StringFlag (if opt_output opts = '''' then ''table'' else opt_output opts))
       (flagVar ''insecure-tls'' (BoolFlag (opt_insecureTLS opts))
         (flagVar ''token'' (StringFlag (opt_token opts))
           (flagVar ''base-url'' (StringFlag (opt_baseURL opts)) (newCommand ''jurispath'' AnyArgs))))"

definition newVerifyChainCmd :: CommandDecl where
  "newVerifyChainCmd = flagVar ''to-seq'' (Uint64Flag 0) (flagVar ''from-seq'' (Uint64Flag 0) (newCommand ''verify-chain'' NoArgs))"

definition newCheckCmd :: CommandDecl where
  "newCheckCmd =
     require [''policy'', ''path'']
       (fold (\<lambda>f. flagVar f (StringFlag '''')) [''tx'', ''policy'', ''path''] (newCommand ''check'' NoArgs))"

definition newSettleCmd :: CommandDecl where
  "newSettleCmd =
     require [''from'', ''to'', ''amount'', ''currency'', ''policy'', ''path'']
       (fold (\<lambda>f. flagVar f (StringFlag '''')) [''currency'', ''policy'', ''path'']
         (flagVar ''amount'' (Int64Flag 0)
           (fold (\<lambda>f. flagVar f (StringFlag '''')) [''tx'', ''from'', ''to''] (newCommand ''settle'' NoArgs))))"

definition newFilterPathsCmd :: CommandDecl where
  "newFilterPathsCmd =
     require [''policy'', ''paths'']
       (fold (\<lambda>f. flagVar f (StringFlag '''')) [''policy'', ''paths''] (newCommand ''filter-paths'' NoArgs))"

definition newCompletionCmd :: CommandDecl where
  "newCompletionCmd = (newCommand ''completion [bash|zsh|fish]'' (ExactArgs 1))\<lparr>cd_ValidArgs := [''bash'', ''zsh'', ''fish'']\<rparr>"

definition subcommands :: "CommandDecl list" where
  "subcommands =
     [newCommand ''serve'' NoArgs, newCommand ''status'' NoArgs, newCommand ''health'' NoArgs, newCommand ''policies'' NoArgs,
      newCommand ''receipts'' NoArgs, newCommand ''violations'' NoArgs, newVerifyChainCmd, newCheckCmd, newSettleCmd,
      newFilterPathsCmd, newCommand ''demo'' NoArgs, newCompletionCmd]"

section \<open>The HTTP client\<close>

record HTTPClient =
  hc_Timeout :: duration
  hc_InsecureSkipVerify :: bool

definition httpClient :: "'w cliOptions \<Rightarrow> HTTPClient" where
  "httpClient opts =
     (if \<not> opt_insecureTLS opts then \<lparr>hc_Timeout = 30 * second, hc_InsecureSkipVerify = False\<rparr>
      else \<lparr>hc_Timeout = 30 * second, hc_InsecureSkipVerify = True\<rparr>)"

section \<open>The declarations are consistent\<close>

text \<open>
  No error is dropped: every flag marked as required is declared, by a name that is not declared twice
  nor shadows one of the persistent flags; and the commands of the dispatcher are those declared.
\<close>

definition declared :: "'w cliOptions \<Rightarrow> CommandDecl \<Rightarrow> bool" where
  "declared opts d \<longleftrightarrow>
     distinct (map fst (cd_Flags (newRootCmd opts) @ cd_Flags d)) \<and> set (cd_Required d) \<subseteq> fst ` set (cd_Flags d)"

definition commandName :: "Command \<Rightarrow> string" where
  "commandName c =
     (case c of
        RootCmd \<Rightarrow> ''jurispath'' | ServeCmd \<Rightarrow> ''serve'' | StatusCmd \<Rightarrow> ''status'' | HealthCmd \<Rightarrow> ''health'' | PoliciesCmd \<Rightarrow> ''policies''
      | ReceiptsCmd \<Rightarrow> ''receipts'' | ViolationsCmd \<Rightarrow> ''violations'' | VerifyChainCmd _ _ \<Rightarrow> ''verify-chain'' | CheckCmd _ _ _ \<Rightarrow> ''check''
      | SettleCmd _ _ _ _ _ _ _ \<Rightarrow> ''settle'' | FilterPathsCmd _ _ \<Rightarrow> ''filter-paths'' | DemoCmd \<Rightarrow> ''demo''
      | CompletionCmd _ \<Rightarrow> ''completion'')"

lemmas command_decls = newCommand_def flagVar_def require_def newRootCmd_def newVerifyChainCmd_def newCheckCmd_def
  newSettleCmd_def newFilterPathsCmd_def newCompletionCmd_def

lemma required_flags:
  "map cd_Required subcommands =
     [[], [], [], [], [], [], [], [''policy'', ''path''], [''from'', ''to'', ''amount'', ''currency'', ''policy'', ''path''],
      [''policy'', ''paths''], [], []]"
  by (simp add: subcommands_def command_decls)

lemma subcommands_declared: "list_all (declared opts) subcommands"
  by (simp add: subcommands_def declared_def command_decls)

lemma commands_declared:
  "c \<noteq> RootCmd \<Longrightarrow> commandName c \<in> set (map (\<lambda>d. takeWhile (\<lambda>x. x \<noteq> CHR '' '') (cd_Use d)) subcommands)"
  by (cases c) (simp_all add: commandName_def subcommands_def command_decls)

lemma httpClient_verifies: "hc_InsecureSkipVerify (httpClient opts) \<longleftrightarrow> opt_insecureTLS opts"
  by (simp add: httpClient_def)

end
