(* ===== verification/JP_Demo.thy ===== *)
theory JP_Demo
  imports JP_Cli
begin

text \<open>
  The demonstration program \<^verbatim>\<open>cmd/demo/main.go\<close>, a second client of the API beside the \<open>demo\<close>
  command.  It ignores the errors of encoders and decoders: a request that cannot be encoded is sent
  without a body, and what the decoder left in the result is used whatever it returned, so the
  decoders are total functions here.  \<open>log.Fatalf\<close> ends the program with exit code 1.
\<close>

section \<open>Requests\<close>

record 'j DemoJson =
  dj_marshalHops :: "ASHop list \<Rightarrow> bytes option"
  dj_settle :: "SettleRequest \<Rightarrow> 'j option"
  dj_filter :: "FilterPathsRequest \<Rightarrow> 'j option"
  dj_decodeSettle :: "'j \<Rightarrow> SettleResponse"
  dj_decodeFilter :: "'j \<Rightarrow> FilterResult"
  dj_clause :: "Clause \<Rightarrow> string"

text \<open>\<open>http.NewRequest\<close> parses the URL into an origin and a path; the round trip is that of the client.\<close>

record ('o, 'j, 'w) DemoNet =
  dn_newRequest :: "string \<Rightarrow> string + 'o \<times> string"
  dn_Do :: "bool \<Rightarrow> 'o \<Rightarrow> 'j HttpRequest \<Rightarrow> 'w \<Rightarrow> (string + nat \<times> 'j) \<times> 'w"

datatype Fatal =
    FatalCreatingRequest string
  | FatalCreatingFilterRequest string
  | FatalRequest string
  | FatalFilterRequest string
  | FatalSettlementHTTP nat
  | FatalNotConfirmed
  | FatalWithoutReceipt

definition demoAPIToken :: "(string \<Rightarrow> string) \<Rightarrow> string" where
  "demoAPIToken getenv =
     (let token = getenv ''JURISPATH_DEMO_API_TOKEN'' in if token \<noteq> '''' then token else getenv ''JURISPATH_API_TOKEN'')"

text \<open>The client skips the verification of certificates only on request.\<close>

definition demoHTTPClient :: "(string \<Rightarrow> string) \<Rightarrow> bool" where
  "demoHTTPClient getenv \<longleftrightarrow> \<not> (getenv ''JURISPATH_DEMO_INSECURE_TLS'' \<noteq> ''true'')"

definition newDemoRequest ::
  "('o, 'j, 'w) DemoNet \<Rightarrow> (string \<Rightarrow> string) \<Rightarrow> string \<Rightarrow> 'j option \<Rightarrow> string + 'o \<times> 'j HttpRequest" where
  "newDemoRequest net getenv url body =
     (case dn_newRequest net url of
        Inl e \<Rightarrow> Inl e
      | Inr (origin, path) \<Rightarrow>
          (let req = \<lparr>hq_Method = ''POST'', hq_Path = path, hq_Query = [], hq_Authorization = '''',
                      hq_ContentType = ''application/json'', hq_Body = body\<rparr>;
               token = demoAPIToken getenv
           in Inr (origin, if token \<noteq> '''' then req\<lparr>hq_Authorization := ''Bearer '' @ token\<rparr> else req)))"

section \<open>Scenarios\<close>

definition sendSettle ::
  "('o, 'j, 'w) DemoNet \<Rightarrow> 'j DemoJson \<Rightarrow> (string \<Rightarrow> string) \<Rightarrow> bool \<Rightarrow> string \<Rightarrow> string \<Rightarrow> string \<Rightarrow> string \<Rightarrow> int64 \<Rightarrow> string \<Rightarrow> string
   \<Rightarrow> ASHop list \<Rightarrow> 'w \<Rightarrow> Fatal option \<times> OutLine list \<times> 'w" where
  "sendSettle net J getenv insecure baseURL txID from to amount currency policyID hops w =
     (let rawPath = NewMockPath (dj_marshalHops J) hops;
          req = \<lparr>sreq_TransactionID = txID, sreq_From = from, sreq_To = to, sreq_Amount = amount, sreq_Currency = currency,
                 sreq_PolicyID = policyID, sreq_RawPath = rawPath\<rparr>;
          body = dj_settle J req in
      case newDemoRequest net getenv (baseURL @ ''/api/settle'') body of
        Inl e \<Rightarrow> (Some (FatalCreatingRequest e), [], w)
      | Inr (origin, httpReq) \<Rightarrow>
         (case dn_Do net insecure origin httpReq w of
            (Inl e, w') \<Rightarrow> (Some (FatalRequest e), [], w')
          | (Inr (status, respBody), w') \<Rightarrow>
             (let result = dj_decodeSettle J respBody in
              case (if status = 422 then Option.bind (sr_Compliance result) res_Violation else None) of
                Some v \<Rightarrow>
                  (None,
                   [OText (''  SETTLEMENT BLOCKED - '' @ dj_clause J (viol_ViolatedClause v)),
                    OText (''  Severity: '' @ viol_Severity v @ '', offending hops: '' @ itoa (length (viol_OffendingHops v))),
                    OText (''  Evidence: '' @ viol_EvidenceClass v @ '', proof: '' @ viol_ProofStatus v)], w')
              | None \<Rightarrow>
                  if status \<noteq> 200 then (Some (FatalSettlementHTTP status), [], w')
                  else
                    (case sr_Consensus result of
                       None \<Rightarrow> (Some FatalNotConfirmed, [], w')
                     | Some c \<Rightarrow>
                         if \<not> cres_Confirmed c then (Some FatalNotConfirmed, [], w')
                         else
                           (case sr_Compliance result of
                              None \<Rightarrow> (Some FatalWithoutReceipt, [], w')
                            | Some pr \<Rightarrow>
                                (case (if res_Compliant pr then res_Receipt pr else None) of
                                   None \<Rightarrow> (Some FatalWithoutReceipt, [], w')
                                 | Some r \<Rightarrow>
                                     (None,
                                      [OText (''  SETTLED - '' @ from @ '' -> '' @ to @ '' '' @ int_text (sint amount) @ '' '' @ currency),
                                       OText (''  Consensus confirmed in round '' @ itoa (unat (cres_Round c))),
                                       OText (''  Receipt ID: '' @ rcpt_ID r @ '', seq #'' @ itoa (unat (rcpt_SeqNo r))),
                                       OText (''  Evidence: '' @ rcpt_EvidenceClass r @ '', proof: '' @ rcpt_ProofStatus r),
                                       OText (''  Path fingerprint: '' @ path_Fingerprint (rcpt_Path r))]
                                      @ (if sr_ReceiptPersisted result = Some False
                                         then [OText (''  Persistence warning: '' @ sr_PersistenceWarning result)] else []), w')))))))"

text \<open>The status of the response is not looked at.\<close>

definition sendFilterPaths ::
  "('o, 'j, 'w) DemoNet \<Rightarrow> 'j DemoJson \<Rightarrow> (string \<Rightarrow> string) \<Rightarrow> bool \<Rightarrow> string \<Rightarrow> string \<Rightarrow> SCIONPath list \<Rightarrow> 'w
   \<Rightarrow> Fatal option \<times> OutLine list \<times> 'w" where
  "sendFilterPaths net J getenv insecure baseURL policyID paths w =
     (let body = dj_filter J \<lparr>freq_PolicyID = policyID, freq_Paths = paths\<rparr> in
      case newDemoRequest net getenv (baseURL @ ''/api/filter-paths'') body of
        Inl e \<Rightarrow> (Some (FatalCreatingFilterRequest e), [], w)
      | Inr (origin, httpReq) \<Rightarrow>
         (case dn_Do net insecure origin httpReq w of
            (Inl e, w') \<Rightarrow> (Some (FatalFilterRequest e), [], w')
          | (Inr (status, respBody), w') \<Rightarrow>
             (let result = dj_decodeFilter J respBody in
              (None,
               [OText (''  Candidate paths: '' @ itoa (length paths)),
                OText (''  Compliant: '' @ itoa (length (fr_Compliant result)))]
               @ map (\<lambda>p. OText (''    [PASS] '' @ path_Fingerprint p @ '' ('' @ itoa (length (path_Hops p)) @ '' hops)'')) (fr_Compliant result)
               @ [OText (''  Non-compliant (grayed out): '' @ itoa (length (fr_NonCompliant result)))]
               @ map (\<lambda>p. OText (''    [SKIP] '' @ path_Fingerprint p @ '' ('' @ itoa (length (path_Hops p)) @ '' hops)'')) (fr_NonCompliant result),
               w'))))"

definition demoHop :: "uint16 \<Rightarrow> string \<Rightarrow> ASHop" where
  "demoHop isd as = \<lparr>hop_IA = itoa (unat isd) @ ''-'' @ as, hop_ISD = isd, hop_AS = as, hop_HopMAC = []\<rparr>"

definition compliantHops :: "ASHop list" where
  "compliantHops = [demoHop 1 ''ff00:0:110'', demoHop 1 ''ff00:0:111'', demoHop 2 ''ff00:0:210'', demoHop 2 ''ff00:0:211'']"

definition violatingHops :: "ASHop list" where
  "violatingHops = [demoHop 1 ''ff00:0:110'', demoHop 3 ''ff00:0:310'', demoHop 2 ''ff00:0:210'']"

definition swissHops :: "ASHop list" where
  "swissHops = [demoHop 1 ''ff00:0:110'', demoHop 1 ''ff00:0:111'']"

definition candidatePath :: "string \<Rightarrow> ASHop list \<Rightarrow> SCIONPath" where
  "candidatePath fp hops = \<lparr>path_Raw = [], path_Hops = hops, path_Fingerprint = fp, path_EvidenceClass = '''', path_ProofStatus = ''''\<rparr>"

definition candidatePaths :: "SCIONPath list" where
  "candidatePaths =
     [candidatePath ''path-ch-eu-direct'' compliantHops, candidatePath ''path-via-isd-x'' violatingHops,
      candidatePath ''path-all-three-isds'' (violatingHops @ [demoHop 3 ''ff00:0:311''])]"

text \<open>The exit code and the lines printed.\<close>

definition demo_main :: "('o, 'j, 'w) DemoNet \<Rightarrow> 'j DemoJson \<Rightarrow> (string \<Rightarrow> string) \<Rightarrow> 'w \<Rightarrow> int \<times> OutLine list \<times> 'w" where
  "demo_main net J getenv w0 =
     (let baseURL = (let v = getenv ''JURISPATH_DEMO_BASE_URL'' in if v \<noteq> '''' then v else ''http://localhost:8080'');
          insecure = demoHTTPClient getenv;
          settle = sendSettle net J getenv insecure baseURL in
      case
        andThen (None, [OText ''=== Scenario A: Compliant path (ISD-CH -> ISD-EU) ===''], w0) (\<lambda>w.
        andThen (settle ''tx-chf-eur-001'' ''CH'' ''EU'' 100 ''CHF'' ''chf-eur-settlement-v1'' compliantHops w) (\<lambda>w.
        andThen (None, [OText '''', OText ''=== Scenario B: Non-compliant path (via ISD-X) ===''], w) (\<lambda>w.
        andThen (settle ''tx-chf-eur-002'' ''CH'' ''EU'' 100 ''CHF'' ''chf-eur-settlement-v1'' violatingHops w) (\<lambda>w.
        andThen (None, [OText '''', OText ''=== Scenario C: Swiss-only settlement ===''], w) (\<lambda>w.
        andThen (settle ''tx-chf-chf-001'' ''CH'' ''CH'' 100 ''CHF'' ''swiss-dlt-act-v1'' swissHops w) (\<lambda>w.
        andThen (None, [OText '''', OText ''=== Scenario D: Path Pre-filtering ===''], w) (\<lambda>w.
          sendFilterPaths net J getenv insecure baseURL ''chf-eur-settlement-v1'' candidatePaths w)))))))
      of (e, lines, w') \<Rightarrow> (if e = None then 0 else 1, lines, w'))"

section \<open>The two demonstrations agree\<close>

text \<open>
  Both programs are configured alike: the same token and verification of certificates, a base URL
  that both read as the same origin, and the same encoders.
\<close>

definition same_setup ::
  "('o, 'j, 'w) DemoNet \<Rightarrow> 'j DemoJson \<Rightarrow> (string \<Rightarrow> string) \<Rightarrow> bool \<Rightarrow> string \<Rightarrow> ('o, 'j, 'w) Net \<Rightarrow> 'j ClientJson \<Rightarrow> 'w cliOptions \<Rightarrow> bool" where
  "same_setup dnet DJ getenv insecure baseURL net J opts \<longleftrightarrow>
     demoAPIToken getenv = opt_token opts \<and> insecure = opt_insecureTLS opts \<and> dn_Do dnet = nt_Do net \<and>
     (\<exists>origin. nt_parseBase net (opt_baseURL opts) = Inr origin \<and> nt_newRequest net origin = None \<and>
        (\<forall>path. dn_newRequest dnet (baseURL @ path) = Inr (origin, path))) \<and>
     dj_marshalHops DJ = cj_marshalHops J \<and> dj_clause DJ = cj_clause J \<and>
     (\<forall>req j. cj_settle J req = Inr j \<longrightarrow> dj_settle DJ req = Some j) \<and>
     (\<forall>j r. cj_decodeSettle J j = Inr r \<longrightarrow> dj_decodeSettle DJ j = r)"

text \<open>The failures of the program that stand for errors of the command.\<close>

definition fatalOf :: "CliError \<Rightarrow> Fatal option" where
  "fatalOf e =
     (case e of
        RequestFailed m \<Rightarrow> Some (FatalRequest m)
      | SettlementFailed n \<Rightarrow> Some (FatalSettlementHTTP n)
      | SettlementNotConfirmed \<Rightarrow> Some FatalNotConfirmed
      | ResponseWithoutReceipt \<Rightarrow> Some FatalWithoutReceipt
      | _ \<Rightarrow> None)"

text \<open>
  C29. The demonstration program and the \<open>demo\<close> command of the client agree on settlements.  Set up
  alike, and unless the response cannot be decoded, both send the same request, leave the world in
  the same state, print the same lines, and either both succeed or both fail, for the same reason.
\<close>

theorem demo_program_agrees:
  assumes "same_setup dnet DJ getenv insecure baseURL net J opts"
    and "hops \<noteq> []" "list_all (\<lambda>h. hop_IA h = itoa (unat (hop_ISD h)) @ ''-'' @ hop_AS h \<and> list_all graphic (hop_AS h) \<and>
      CHR '','' \<notin> set (hop_AS h) \<and> hop_HopMAC h = []) hops"
    and "cj_marshalHops J hops = Some raw"
    and "cj_settle J \<lparr>sreq_TransactionID = txID, sreq_From = sender, sreq_To = recipient, sreq_Amount = amount, sreq_Currency = currency,
      sreq_PolicyID = policyID, sreq_RawPath = Some raw\<rparr> = Inr body"
    and "demoSettle net J opts txID sender recipient amount currency policyID (Join (CHR '','') (map hop_IA hops)) w = (err, lines, w')"
    and "\<forall>m. err \<noteq> Some (DecodeResponse m)"
  shows "sendSettle dnet DJ getenv insecure baseURL txID sender recipient amount currency policyID hops w = (Option.bind err fatalOf, lines, w') \<and>
    (Option.bind err fatalOf = None \<longleftrightarrow> err = None)"
proof -
  from assms(1) obtain origin where n: "nt_parseBase net (opt_baseURL opts) = Inr origin" "nt_newRequest net origin = None"
    "\<forall>path. dn_newRequest dnet (baseURL @ path) = Inr (origin, path)"
    and u: "demoAPIToken getenv = opt_token opts" "insecure = opt_insecureTLS opts" "dn_Do dnet = nt_Do net"
    "dj_marshalHops DJ = cj_marshalHops J" "dj_clause DJ = cj_clause J"
    "\<And>req j. cj_settle J req = Inr j \<Longrightarrow> dj_settle DJ req = Some j" "\<And>j r. cj_decodeSettle J j = Inr r \<Longrightarrow> dj_decodeSettle DJ j = r"
    by (auto simp: same_setup_def)
  define auth where "auth = (if opt_token opts \<noteq> '''' then ''Bearer '' @ opt_token opts else '''')"
  let ?req = "\<lparr>hq_Method = ''POST'', hq_Path = ''/api/settle'', hq_Query = [], hq_Authorization = auth,
     hq_ContentType = ''application/json'', hq_Body = Some body\<rparr>"
  have d: "newDemoRequest dnet getenv (baseURL @ ''/api/settle'') (Some body) = Inr (origin, ?req)"
    using n(3) u(1) by (simp add: newDemoRequest_def auth_def Let_def)
  have r: "newRequest net opts ''POST'' ''/api/settle'' [] (Some body) = Inr (origin, ?req\<lparr>hq_ContentType := ''''\<rparr>)"
    using n by (simp add: newRequest_def auth_def)
  have raw: "rawPathFromSpec (cj_marshalHops J) (Join (CHR '','') (map hop_IA hops)) = Inr raw"
    by (rule rawPathFromSpec_Join) (use assms(2-4) in simp_all)
  obtain resp w1 where x: "nt_Do net (opt_insecureTLS opts) origin ?req w = (resp, w1)" by (rule prod.exhaust)
  show ?thesis
  proof (cases resp)
    case (Inl m)
    with assms(4-6) raw d r x u show ?thesis by (auto simp: sendSettle_def demoSettle_def postDecode_def NewMockPath_def Let_def fatalOf_def)
  next
    case (Inr sb)
    obtain status j where sb: "sb = (status, j)" by (rule prod.exhaust)
    with assms(5-7) raw r x u(2) Inr obtain result where dec: "cj_decodeSettle J j = Inr result"
      by (cases "cj_decodeSettle J j") (auto simp: demoSettle_def postDecode_def)
    show ?thesis
      using assms(6) by (auto simp: sendSettle_def demoSettle_def postDecode_def NewMockPath_def Let_def fatalOf_def raw d r x u assms(4,5)
          Inr sb dec u(6) [OF assms(5)] u(7) [OF dec] split: option.splits if_splits)
  qed
qed

text \<open>A network whose server is unavailable, for both programs.\<close>

definition downNet :: "(unit, Typed, nat) Net" where
  "downNet = \<lparr>nt_parseBase = (\<lambda>_. Inr ()), nt_newRequest = (\<lambda>_. None), nt_Do = (\<lambda>_ _ _ n. (Inr (503, TResponse (RVerifyChain zeroChain)), Suc n))\<rparr>"

definition downDemoNet :: "(unit, Typed, nat) DemoNet" where
  "downDemoNet = \<lparr>dn_newRequest = (\<lambda>url. Inr ((), drop 21 url)), dn_Do = nt_Do downNet\<rparr>"

definition demoClient :: "Typed ClientJson" where
  "demoClient = typedClient (\<lambda>_. Some [1]) (\<lambda>_. None) toy_prims"

definition typedDemo :: "Typed DemoJson" where
  "typedDemo = \<lparr>dj_marshalHops = (\<lambda>_. Some [1]), dj_settle = Some \<circ> TSettle, dj_filter = Some \<circ> TFilter,
     dj_decodeSettle = (\<lambda>d. projr (cj_decodeSettle demoClient d)), dj_decodeFilter = (\<lambda>_. \<lparr>fr_Compliant = [], fr_NonCompliant = []\<rparr>),
     dj_clause = (\<lambda>_. ''clause'')\<rparr>"

lemma demo_fixture [simp]:
  "nt_parseBase downNet u = Inr ()" "nt_newRequest downNet x = None" "nt_Do downNet b x req n = (Inr (503, TResponse (RVerifyChain zeroChain)), Suc n)"
  "cj_settle demoClient r = Inr (TSettle r)"
  by (simp_all add: downNet_def demoClient_def typedClient_def)

lemma demo_decodes: "\<exists>sr. cj_decodeSettle demoClient d = Inr sr"
  by (auto simp: demoClient_def typedClient_def split: Typed.split Response.split)

lemma demo_setup: "same_setup downDemoNet typedDemo (\<lambda>_. '''') False ''http://localhost:8080'' downNet demoClient quiet_opts"
  by (simp add: same_setup_def demoAPIToken_def downNet_def downDemoNet_def typedDemo_def) (simp add: demoClient_def typedClient_def)

lemma swissHops_written:
  "list_all (\<lambda>h. hop_IA h = itoa (unat (hop_ISD h)) @ ''-'' @ hop_AS h \<and> list_all graphic (hop_AS h) \<and> CHR '','' \<notin> set (hop_AS h) \<and> hop_HopMAC h = []) swissHops"
  by (simp add: swissHops_def demoHop_def graphic_def)

theorem demo_program_agrees_witness:
  "sendSettle downDemoNet typedDemo (\<lambda>_. '''') False ''http://localhost:8080'' ''tx-chf-chf-001'' ''CH'' ''CH'' 100 ''CHF'' ''swiss-dlt-act-v1'' swissHops 0
     = (Some (FatalSettlementHTTP 503), [], 1)"
proof -
  have ne: "swissHops \<noteq> []" by (simp add: swissHops_def)
  have enc: "cj_marshalHops demoClient swissHops = Some [1]" by (simp add: demoClient_def typedClient_def)
  have raw: "rawPathFromSpec (cj_marshalHops demoClient) (Join (CHR '','') (map hop_IA swissHops)) = Inr [1]"
    by (rule rawPathFromSpec_Join [OF ne swissHops_written]) (rule enc)
  have "demoSettle downNet demoClient quiet_opts ''tx-chf-chf-001'' ''CH'' ''CH'' 100 ''CHF'' ''swiss-dlt-act-v1''
      (Join (CHR '','') (map hop_IA swissHops)) 0 = (Some (SettlementFailed 503), [], 1)"
    using demo_decodes [of "TResponse (RVerifyChain zeroChain)"] by (auto simp: demoSettle_def raw postDecode_def newRequest_def)
  from demo_program_agrees [OF demo_setup ne swissHops_written enc _ this] show ?thesis
    by (simp add: fatalOf_def)
qed

text \<open>A refused pre-filtering request is reported like an answer: the program prints and succeeds.\<close>

lemma sendFilterPaths_ignores_status:
  assumes "newDemoRequest net getenv (baseURL @ ''/api/filter-paths'') (dj_filter J \<lparr>freq_PolicyID = policyID, freq_Paths = paths\<rparr>) = Inr (origin, httpReq)"
    and "dn_Do net insecure origin httpReq w = (Inr (status, body), w')"
  shows "\<exists>lines. sendFilterPaths net J getenv insecure baseURL policyID paths w = (None, lines, w')"
  using assms by (simp add: sendFilterPaths_def Let_def)

end
