(* ===== verification/JP_Metrics.thy ===== *)
theory JP_Metrics
  imports JP_Validator JP_CliSpec
begin

text \<open>
  The benchmark program \<^verbatim>\<open>tools/pocmetrics/main.go\<close>: it times path checks, issues and verifies a
  receipt chain, and probes two failures that must not produce a receipt.  Its percentiles are
  computed in \<open>float64\<close>, which is modelled as far as the program uses it.  The keys, identifiers and
  clock readings of a run are an environment; JSON is a parameter.
\<close>

section \<open>Non-negative float64 numbers\<close>

text \<open>
  A pair \<open>(m, e)\<close> stands for \<open>m * 2 ^ e\<close>.  A result is rounded to 53 significant bits, to the nearest
  and to even between two; the exponents of this program are far from the limits of the format.
\<close>

type_synonym float64 = "nat \<times> int"

fun bitLen :: "nat \<Rightarrow> nat" where
  "bitLen n = (if n = 0 then 0 else Suc (bitLen (n div 2)))"

declare bitLen.simps [simp del]

definition roundEven :: "nat \<Rightarrow> nat \<Rightarrow> nat" where
  "roundEven m k =
     (let q = m div 2 ^ k; r = 2 * (m mod 2 ^ k) in
      if r > 2 ^ k \<or> r = 2 ^ k \<and> odd q then q + 1 else q)"

definition float64_of :: "nat \<Rightarrow> int \<Rightarrow> float64" where
  "float64_of m e = (let k = bitLen m - 53 in (roundEven m k, e + int k))"

definition float64_mul :: "float64 \<Rightarrow> float64 \<Rightarrow> float64" where
  "float64_mul x y = float64_of (fst x * fst y) (snd x + snd y)"

definition float64_ceil :: "float64 \<Rightarrow> int" where
  "float64_ceil x =
     (let m = int (fst x); e = snd x in
      if e \<ge> 0 then m * 2 ^ nat e else (m + 2 ^ nat (- e) - 1) div 2 ^ nat (- e))"

text \<open>The constants 0.50 and 0.95.\<close>

definition pct50 :: float64 where
  "pct50 = (1, -1)"

definition pct95 :: float64 where
  "pct95 = (8556839292003942, -53)"

section \<open>Percentiles\<close>

definition percentile :: "duration list \<Rightarrow> float64 \<Rightarrow> duration" where
  "percentile durations pct =
     (if length durations = 0 then 0
      else
        let idx = float64_ceil (float64_mul (float64_of (length durations) 0) pct) - 1;
            idx = (if idx < 0 then 0 else idx);
            idx = (if idx \<ge> int (length durations) then int (length durations) - 1 else idx)
        in durations ! nat idx)"

lemma bitLen_bounds: "0 < n \<Longrightarrow> 2 ^ (bitLen n - 1) \<le> n \<and> n < 2 ^ bitLen n"
proof (induction n rule: bitLen.induct)
  case (1 n)
  show ?case
  proof (cases "n div 2 = 0")
    case True
    with 1(2) have "n = 1" by linarith
    then show ?thesis by (simp add: bitLen.simps [of 0] bitLen.simps [of "Suc 0"])
  next
    case False
    with 1 have ih: "2 ^ (bitLen (n div 2) - 1) \<le> n div 2 \<and> n div 2 < 2 ^ bitLen (n div 2)" by simp
    from False have "bitLen (n div 2) = Suc (bitLen (n div 2) - 1)" by (simp add: bitLen.simps [of "n div 2"])
    then have "(2 :: nat) ^ bitLen (n div 2) = 2 * 2 ^ (bitLen (n div 2) - 1)" by (metis power_Suc)
    moreover from 1(2) have "bitLen n = Suc (bitLen (n div 2))" by (simp add: bitLen.simps [of n])
    moreover from ih have "2 * 2 ^ (bitLen (n div 2) - 1) \<le> n" "n < 2 * 2 ^ bitLen (n div 2)" by linarith+
    ultimately show ?thesis by simp
  qed
qed

lemma bitLen_le: "n < 2 ^ k \<Longrightarrow> bitLen n \<le> k"
proof (cases "n = 0")
  case False
  assume "n < 2 ^ k"
  with bitLen_bounds [of n] False have "(2 :: nat) ^ (bitLen n - 1) < 2 ^ k" by linarith
  then show ?thesis by simp
qed (simp add: bitLen.simps)

lemma roundEven_bounds: "2 * 2 ^ k * roundEven m k \<le> 2 * m + 2 ^ k" "2 * m \<le> 2 * 2 ^ k * roundEven m k + 2 ^ k"
proof -
  let ?K = "2 ^ k :: nat"
  have m: "m = ?K * (m div ?K) + m mod ?K" "m mod ?K < ?K" by simp_all
  have "roundEven m k = m div ?K + 1 \<and> ?K \<le> 2 * (m mod ?K) \<or> roundEven m k = m div ?K \<and> 2 * (m mod ?K) \<le> ?K"
    by (auto simp: roundEven_def Let_def)
  then have "2 * (?K * roundEven m k) \<le> 2 * m + ?K \<and> 2 * m \<le> 2 * (?K * roundEven m k) + ?K"
  proof
    assume a: "roundEven m k = m div ?K + 1 \<and> ?K \<le> 2 * (m mod ?K)"
    then have "?K * roundEven m k = ?K * (m div ?K) + ?K" by simp
    with a m show ?thesis by linarith
  next
    assume a: "roundEven m k = m div ?K \<and> 2 * (m mod ?K) \<le> ?K"
    then have "?K * roundEven m k = ?K * (m div ?K)" by simp
    with a m show ?thesis by linarith
  qed
  then show "2 * 2 ^ k * roundEven m k \<le> 2 * m + 2 ^ k" "2 * m \<le> 2 * 2 ^ k * roundEven m k + 2 ^ k"
    by (simp_all add: mult.assoc)
qed

lemma roundEven_0 [simp]: "roundEven m 0 = m"
  by (simp add: roundEven_def)

lemma float64_of_exact: "m < 2 ^ 53 \<Longrightarrow> float64_of m e = (m, e)"
  using bitLen_le [of m 53] by (simp add: float64_of_def)

lemma rank50: "n < 2 ^ 53 \<Longrightarrow> float64_ceil (float64_mul (float64_of n 0) pct50) = (int n + 1) div 2"
  by (simp add: float64_of_exact float64_mul_def pct50_def float64_ceil_def)

text \<open>
  The constant 0.95 lies below 19/20 by less than half a unit in the last place, so the rounded
  product reaches the exact one where that is an integer and stays between the same integers elsewhere.
\<close>

lemma rank95_near:
  fixes n q K D :: nat
  assumes "K * D = 2 ^ 53" "32 \<le> D" "0 < n" "8556839292003942 * n < 2 ^ 53 * K"
    and "2 * (K * q) \<le> 2 * (8556839292003942 * n) + K" "2 * (8556839292003942 * n) \<le> 2 * (K * q) + K"
  shows "(int q + int D - 1) div int D = (19 * int n + 19) div 20"
proof -
  define s r where "s = 19 * n div 20" and "r = 19 * n mod 20"
  have n: "19 * n = 20 * s + r" "r < 20" by (simp_all add: s_def r_def)
  have "K * D * s = 9007199254740992 * s" using assms(1) by simp
  then have KD: "K * (s * D) = 9007199254740992 * s" by (simp add: ac_simps)
  have K: "0 < K" "32 * K \<le> 9007199254740992"
    using assms(1) mult_le_mono2 [OF assms(2), of K] by (auto intro: gr0I)
  have b: "8556839292003942 * n < 9007199254740992 * K" using assms(4) by simp
  have c: "20 * (8556839292003942 * n) + 8 * n = 20 * (9007199254740992 * s) + 9007199254740992 * r" using n(1) by simp
  show ?thesis
  proof (cases "r = 0")
    case True
    have "q \<le> s * D"
    proof (rule ccontr)
      assume "\<not> q \<le> s * D"
      then have "K * (s * D + 1) \<le> K * q" by (intro mult_le_mono2) simp
      then have "K * (s * D) + K \<le> K * q" by (simp add: distrib_left)
      with KD K True c assms(5) show False by linarith
    qed
    moreover have "s * D \<le> q"
    proof (rule ccontr)
      assume "\<not> s * D \<le> q"
      then have "K * (q + 1) \<le> K * (s * D)" by (intro mult_le_mono2) simp
      then have "K * q + K \<le> K * (s * D)" by (simp add: distrib_left)
      with KD K True c b assms(6) show False by linarith
    qed
    ultimately have "int q = int s * int D" by (metis order_antisym of_nat_mult)
    with True n assms(2) show ?thesis by (simp add: div_mult_self3 add_diff_eq [symmetric])
  next
    case False
    have "s * D < q"
    proof (rule ccontr)
      assume "\<not> s * D < q"
      then have "K * q \<le> K * (s * D)" by (intro mult_le_mono2) simp
      moreover from False have "9007199254740992 \<le> 9007199254740992 * r" by simp
      ultimately show False using KD K c b assms(6) by linarith
    qed
    moreover have "q \<le> s * D + D"
    proof (rule ccontr)
      assume "\<not> q \<le> s * D + D"
      then have "K * (s * D + D + 1) \<le> K * q" by (intro mult_le_mono2) simp
      then have "K * (s * D) + K * D + K \<le> K * q" by (simp add: distrib_left)
      moreover have "K * D = 9007199254740992" using assms(1) by simp
      ultimately show False using KD K n(2) c assms(5) by linarith
    qed
    moreover define d where "d = q - s * D - 1"
    ultimately have d: "q = s * D + 1 + d" "d < D" by simp_all
    then have "int q + int D - 1 = int d + (int s + 1) * int D" by (simp add: algebra_simps)
    moreover have "19 * int n + 19 = int (r - 1) + (int s + 1) * 20" using n False by simp
    moreover from n(2) have "int (r - 1) div 20 = 0" "int d div int D = 0" using d by simp_all
    ultimately show ?thesis using assms(2) by (simp add: div_mult_self3)
  qed
qed

lemma rank95: "n < 2 ^ 48 \<Longrightarrow> float64_ceil (float64_mul (float64_of n 0) pct95) = (19 * int n + 19) div 20"
proof (cases "n = 0")
  case False
  assume n: "n < 2 ^ 48"
  define p k where "p = 8556839292003942 * n" and "k = bitLen p - 53"
  from n have "p < 2 ^ 101" by (simp add: p_def)
  then have k: "k \<le> 48" using bitLen_le [of p 101] by (simp add: k_def)
  have f: "float64_mul (float64_of n 0) pct95 = (roundEven p k, int k - 53)"
    using n by (simp add: float64_of_exact float64_mul_def pct95_def float64_of_def [of "_ * _"] Let_def p_def k_def mult.commute)
  have "p < 2 ^ bitLen p" using False bitLen_bounds [of p] by (simp add: p_def)
  also have "(2 :: nat) ^ bitLen p \<le> 2 ^ (53 + k)" by (rule power_increasing) (simp_all add: k_def)
  finally have b: "p < 2 ^ 53 * 2 ^ k" by (simp add: power_add)
  have e: "(2 :: nat) ^ k * 2 ^ (53 - k) = 2 ^ 53" using k by (simp add: power_add [symmetric])
  have "(2 :: nat) ^ 5 \<le> 2 ^ (53 - k)" using k by (intro power_increasing) simp_all
  then have d: "32 \<le> (2 :: nat) ^ (53 - k)" by simp
  from rank95_near [OF e d _ b [unfolded p_def], of "roundEven p k"] False roundEven_bounds [where m = p and k = k]
  have "(int (roundEven p k) + int (2 ^ (53 - k)) - 1) div int (2 ^ (53 - k)) = (19 * int n + 19) div 20"
    by (simp add: p_def mult.assoc)
  moreover from k have "nat (53 - int k) = 53 - k" by simp
  ultimately show ?thesis using k by (simp add: f float64_ceil_def Let_def)
qed (simp add: float64_of_exact float64_mul_def pct95_def float64_ceil_def)

section \<open>The program\<close>

text \<open>
  The environment of a run: the key pair of the n-th call of \<open>NewGenerator\<close>, the identifier and the
  time of the n-th receipt, and the clock readings around the n-th measured interval.
\<close>

record MetricsEnv =
  me_key :: "nat \<Rightarrow> (bytes \<times> bytes) option"
  me_uid :: "nat \<Rightarrow> string"
  me_now :: "nat \<Rightarrow> time"
  me_start :: "nat \<Rightarrow> time"
  me_stop :: "nat \<Rightarrow> time"

text \<open>The encoders of the hop list and of a receipt, the hop decoder, and the texts of errors.\<close>

record MetricsJson =
  mj_marshalHops :: "ASHop list \<Rightarrow> bytes option"
  mj_unmarshalHops :: "bytes \<Rightarrow> ASHop list option"
  mj_receipt :: "ComplianceReceipt \<Rightarrow> bytes option"
  mj_keyText :: string
  mj_issueText :: "IssueError \<Rightarrow> string"

record metrics =
  mt_PathCheckSamples :: int
  mt_PathCheckP50Ns :: int
  mt_PathCheckP95Ns :: int
  mt_ReceiptSizeBytes :: nat
  mt_ChainLength :: int
  mt_ChainVerifyNs :: int
  mt_MissingProofFailure :: string
  mt_ReceiptStoreFailure :: string
  mt_EvidenceClass :: string
  mt_ProofStatus :: string
  mt_ChainVerifyReceiptCount :: nat

datatype MetricsError =
    BuildRawDemoPath
  | ExtractDemoPath BuildError
  | PathCheck CheckError
  | DemoPathNotCompliant Clause
  | CreateReceiptGenerator
  | IssueReceipt IssueError
  | MarshalReceipt
  | CreateChainGenerator
  | IssueChainReceipt nat IssueError
  | ListChainReceipts StoreError
  | ValidateChain ChainError

definition failingProofProvider :: "string \<Rightarrow> ISDProofProvider" where
  "failingProofProvider err = (\<lambda>_. Inl err)"

definition failingStore :: "StoreError \<Rightarrow> unit Store" where
  "failingStore err =
     \<lparr>st_Append = (\<lambda>_ s. (Some err, s)), st_GetByTxID = (\<lambda>_ _. Inr None), st_GetByID = (\<lambda>_ _. Inr None),
      st_List = (\<lambda>_. Inr []), st_Count = (\<lambda>_. Inr 0), st_Last = (\<lambda>_. Inr None), st_ListRange = (\<lambda>_ _ _. Inr [])\<rparr>"

definition demoHops :: "ASHop list" where
  "demoHops =
     [\<lparr>hop_IA = ''1-ff00:0:110'', hop_ISD = 1, hop_AS = ''ff00:0:110'', hop_HopMAC = []\<rparr>,
      \<lparr>hop_IA = ''1-ff00:0:111'', hop_ISD = 1, hop_AS = ''ff00:0:111'', hop_HopMAC = []\<rparr>,
      \<lparr>hop_IA = ''2-ff00:0:210'', hop_ISD = 2, hop_AS = ''ff00:0:210'', hop_HopMAC = []\<rparr>,
      \<lparr>hop_IA = ''2-ff00:0:211'', hop_ISD = 2, hop_AS = ''ff00:0:211'', hop_HopMAC = []\<rparr>]"

definition demoPath :: "prims \<Rightarrow> MetricsJson \<Rightarrow> MetricsError + SCIONPath" where
  "demoPath P M =
     (case NewMockPath (mj_marshalHops M) demoHops of
        None \<Rightarrow> Inl BuildRawDemoPath
      | Some raw \<Rightarrow>
          (case BuildSCIONPath P (MockPathExtractor (mj_unmarshalHops M)) raw of
             Inl e \<Rightarrow> Inl (ExtractDemoPath e)
           | Inr path \<Rightarrow> Inr path))"

text \<open>Call 0 of \<open>NewGenerator\<close> and receipt 0.\<close>

definition signedReceiptSize :: "prims \<Rightarrow> codec \<Rightarrow> MetricsJson \<Rightarrow> MetricsEnv \<Rightarrow> string \<Rightarrow> SCIONPath \<Rightarrow> MetricsError + nat" where
  "signedReceiptSize P J M env policyID path =
     (case NewGenerator (me_key env 0) of
        None \<Rightarrow> Inl CreateReceiptGenerator
      | Some gen \<Rightarrow>
          (case fst (Issue P J (me_uid env 0) (me_now env 0) ''tx-metrics-size'' policyID path gen) of
             Inl e \<Rightarrow> Inl (IssueReceipt e)
           | Inr rcpt \<Rightarrow> (case mj_receipt M rcpt of None \<Rightarrow> Inl MarshalReceipt | Some data \<Rightarrow> Inr (length data))))"

text \<open>The \<open>%06d\<close> verb.\<close>

definition pad6 :: "nat \<Rightarrow> string" where
  "pad6 n = replicate (6 - length (itoa n)) (CHR ''0'') @ itoa n"

text \<open>The loop issues receipts \<open>i + 1\<close> and on; \<open>n\<close> of them are left.\<close>

fun issueLoop ::
  "prims \<Rightarrow> codec \<Rightarrow> MetricsEnv \<Rightarrow> string \<Rightarrow> SCIONPath \<Rightarrow> nat \<Rightarrow> nat \<Rightarrow> Generator \<times> MemoryStore \<Rightarrow> MetricsError + MemoryStore" where
  "issueLoop P J env policyID path i 0 gs = Inr (snd gs)"
| "issueLoop P J env policyID path i (Suc n) gs =
     (case IssueAndAppend P J MemoryStoreOps (me_uid env (Suc i)) (me_now env (Suc i))
             (''tx-metrics-chain-'' @ pad6 (Suc i)) policyID path gs of
        (Inl e, gs') \<Rightarrow> Inl (IssueChainReceipt (Suc i) e)
      | (Inr _, gs') \<Rightarrow> issueLoop P J env policyID path (Suc i) n gs')"

definition oneHour :: duration where
  "oneHour = 3600 * second"

text \<open>The verification is timed as interval \<open>k\<close>.\<close>

definition verifyChain ::
  "prims \<Rightarrow> codec \<Rightarrow> MetricsEnv \<Rightarrow> nat \<Rightarrow> string \<Rightarrow> SCIONPath \<Rightarrow> int \<Rightarrow> MetricsError + nat \<times> duration" where
  "verifyChain P J env k policyID path chainLength =
     (case NewGenerator (me_key env 1) of
        None \<Rightarrow> Inl CreateChainGenerator
      | Some gen \<Rightarrow>
          (case issueLoop P J env policyID path 0 (nat chainLength) (gen, NewMemoryStore) of
             Inl e \<Rightarrow> Inl e
           | Inr store \<Rightarrow>
               (case Memory_List store of
                  Inl e \<Rightarrow> Inl (ListChainReceipts e)
                | Inr receipts \<Rightarrow>
                    (case ValidateReceiptChain P J (NewReceiptValidator oneHour) receipts of
                       Some e \<Rightarrow> Inl (ValidateChain e)
                     | None \<Rightarrow> Inr (length receipts, time_Sub (me_stop env k) (me_start env k))))))"

definition measureMissingProofFailure ::
  "prims \<Rightarrow> codec \<Rightarrow> MetricsJson \<Rightarrow> MetricsEnv \<Rightarrow> nat \<Rightarrow> string \<Rightarrow> SCIONPath \<Rightarrow> string" where
  "measureMissingProofFailure P J M env i policyID path =
     (case NewGenerator (me_key env 2) of
        None \<Rightarrow> ''error: '' @ mj_keyText M
      | Some gen \<Rightarrow>
          (case fst (Issue P J (me_uid env i) (me_now env i) ''tx-metrics-missing-proof'' policyID path
                       (WithProofProvider (Some (failingProofProvider ''missing TRC proof material'')) gen)) of
             Inl _ \<Rightarrow> ''fail-closed''
           | Inr _ \<Rightarrow> ''unexpected-success''))"

definition measureReceiptStoreFailure ::
  "prims \<Rightarrow> codec \<Rightarrow> MetricsJson \<Rightarrow> MetricsEnv \<Rightarrow> nat \<Rightarrow> string \<Rightarrow> SCIONPath \<Rightarrow> string" where
  "measureReceiptStoreFailure P J M env i policyID path =
     (case NewGenerator (me_key env 3) of
        None \<Rightarrow> ''error: '' @ mj_keyText M
      | Some gen \<Rightarrow>
          (case fst (IssueAndAppend P J (failingStore (StoreFailure ''disk full'')) (me_uid env i) (me_now env i)
                       ''tx-metrics-store-fail'' policyID path (gen, ())) of
             Inl (AppendError receiptID e) \<Rightarrow>
               if receiptID \<noteq> '''' then ''fail-closed'' else ''error: '' @ mj_issueText M (AppendError receiptID e)
           | Inl e \<Rightarrow> ''error: '' @ mj_issueText M e
           | Inr _ \<Rightarrow> ''unexpected-success''))"

text \<open>The checker has no replay detector, so it reads no clock of its own.\<close>

fun checkLoop :: "MetricsEnv \<Rightarrow> SCIONPath \<Rightarrow> nat \<Rightarrow> nat \<Rightarrow> Checker \<Rightarrow> MetricsError + duration list" where
  "checkLoop env path i 0 checker = Inr []"
| "checkLoop env path i (Suc n) checker =
     (case Checker_Check path 0 0 0 checker of
        (Inl e, _) \<Rightarrow> Inl (PathCheck e)
      | (Inr check, checker') \<Rightarrow>
          if \<not> cr_Compliant check then Inl (DemoPathNotCompliant (cr_ViolatedClause check))
          else (case checkLoop env path (Suc i) n checker' of
                  Inl e \<Rightarrow> Inl e
                | Inr durations \<Rightarrow> Inr (time_Sub (me_stop env i) (me_start env i) # durations)))"

definition corridorPolicy :: Policy where
  "corridorPolicy =
     \<lparr>pol_ID = ''chf-eur-settlement-v1'', pol_Name = ''CHF-EUR Cross-Border Settlement'', pol_Description = '''',
      pol_Version = 1, pol_AllowedISDs = [1, 2], pol_Mode = ModeStrict\<rparr>"

definition collect :: "prims \<Rightarrow> codec \<Rightarrow> MetricsJson \<Rightarrow> MetricsEnv \<Rightarrow> int \<Rightarrow> int \<Rightarrow> MetricsError + metrics" where
  "collect P J M env samples chainLength =
     (case demoPath P M of
        Inl e \<Rightarrow> Inl e
      | Inr path \<Rightarrow>
          (case checkLoop env path 0 (nat samples) (NewChecker corridorPolicy) of
             Inl e \<Rightarrow> Inl e
           | Inr measured \<Rightarrow>
               (let durations = sort measured in
                case signedReceiptSize P J M env (pol_ID corridorPolicy) path of
                  Inl e \<Rightarrow> Inl e
                | Inr receiptSize \<Rightarrow>
                    (case verifyChain P J env (nat samples) (pol_ID corridorPolicy) path chainLength of
                       Inl e \<Rightarrow> Inl e
                     | Inr (verifiedReceipts, chainVerifyDuration) \<Rightarrow>
                         Inr \<lparr>mt_PathCheckSamples = samples,
                              mt_PathCheckP50Ns = percentile durations pct50,
                              mt_PathCheckP95Ns = percentile durations pct95,
                              mt_ReceiptSizeBytes = receiptSize, mt_ChainLength = chainLength,
                              mt_ChainVerifyNs = chainVerifyDuration,
                              mt_MissingProofFailure =
                                measureMissingProofFailure P J M env (nat chainLength + 1) (pol_ID corridorPolicy) path,
                              mt_ReceiptStoreFailure =
                                measureReceiptStoreFailure P J M env (nat chainLength + 2) (pol_ID corridorPolicy) path,
                              mt_EvidenceClass = path_EvidenceClass path, mt_ProofStatus = path_ProofStatus path,
                              mt_ChainVerifyReceiptCount = verifiedReceipts\<rparr>))))"

text \<open>
  The process: exit code, lines on the output and on the error stream.  \<open>durText\<close> prints a duration,
  \<open>errText\<close> an error and \<open>encode\<close> the indented JSON document.
\<close>

definition metrics_main ::
  "prims \<Rightarrow> codec \<Rightarrow> MetricsJson \<Rightarrow> MetricsEnv \<Rightarrow> (duration \<Rightarrow> string) \<Rightarrow> (MetricsError \<Rightarrow> string) \<Rightarrow> (metrics \<Rightarrow> string + string)
   \<Rightarrow> int \<Rightarrow> int \<Rightarrow> bool \<Rightarrow> int \<times> string list \<times> string list" where
  "metrics_main P J M env durText errText encode samples chainLength jsonOutput =
     (if samples \<le> 0 then (1, [], [''samples must be positive''])
      else if chainLength \<le> 0 then (1, [], [''chain-length must be positive''])
      else case collect P J M env samples chainLength of
        Inl e \<Rightarrow> (1, [], [errText e])
      | Inr result \<Rightarrow>
          if jsonOutput then
            (case encode result of Inl e \<Rightarrow> (1, [], [''encode metrics: '' @ e]) | Inr doc \<Rightarrow> (0, [doc], []))
          else
            (0, [''JurisPath PoC metrics'',
                 ''  path_check_samples: '' @ int_text (mt_PathCheckSamples result),
                 ''  path_check_p50:     '' @ durText (mt_PathCheckP50Ns result),
                 ''  path_check_p95:     '' @ durText (mt_PathCheckP95Ns result),
                 ''  receipt_size:       '' @ itoa (mt_ReceiptSizeBytes result) @ '' bytes'',
                 ''  evidence/proof:     '' @ mt_EvidenceClass result @ '' / '' @ mt_ProofStatus result,
                 ''  chain_length:       '' @ int_text (mt_ChainLength result) @ '' receipts'',
                 ''  chain_verify_time:  '' @ durText (mt_ChainVerifyNs result),
                 ''  missing_proof:      '' @ mt_MissingProofFailure result,
                 ''  receipt_store:      '' @ mt_ReceiptStoreFailure result], []))"

section \<open>What a run reports\<close>

text \<open>A generator with a usable key pair issues a receipt for every path its encoder accepts.\<close>

definition usable_keys :: "prims \<Rightarrow> MetricsEnv \<Rightarrow> bool" where
  "usable_keys P env \<longleftrightarrow>
     (\<forall>i. \<exists>priv. me_key env i = Some (ed_public P priv, priv) \<and> length priv = PrivateKeySize)"

definition encodes_receipts :: "codec \<Rightarrow> MetricsEnv \<Rightarrow> bool" where
  "encodes_receipts J env \<longleftrightarrow> (\<forall>r i. rcpt_Timestamp r = me_now env i \<longrightarrow> marshalForSigning J r \<noteq> None)"

lemma usable_generator:
  assumes "usable_keys P env"
  obtains g where "NewGenerator (me_key env i) = Some g" "oracle_ok P J (NewReceiptValidator w) g []" "g_proofs g = None"
    "g_threshold g = None" "length (g_privateKey g) = PrivateKeySize"
proof -
  from assms obtain priv where k: "me_key env i = Some (ed_public P priv, priv)" "length priv = PrivateKeySize"
    unfolding usable_keys_def by blast
  show thesis
    by (rule that [of "\<lparr>g_privateKey = priv, g_publicKey = ed_public P priv, g_seqNo = 0, g_lastHash = None, g_proofs = None, g_threshold = None\<rparr>"])
      (simp_all add: k NewGenerator_def oracle_ok_def chained_def positioned_def isTrustedKey_def NewReceiptValidator_def)
qed

lemma unsigned_timestamp: "rcpt_Timestamp (unsignedReceipt uid now tx pol path proofs g) = now"
  by (simp add: unsignedReceipt_def)

lemma placeholder_build:
  assumes "encodes_receipts J env" "length (g_privateKey g) = PrivateKeySize" "g_threshold g = None"
    and "g_proofs g = None \<or> g_proofs g = Some PlaceholderProofProvider"
  obtains r h where "buildReceiptLocked P J uid (me_now env i) tx pol path g = (Inr (r, h), defaultProofs g)"
proof -
  have p: "g_proofs (defaultProofs g) = Some PlaceholderProofProvider" using assms(4) by (auto simp: defaultProofs_def)
  define proofs where "proofs = map (\<lambda>hop. projr (PlaceholderProofProvider hop)) (path_Hops path)"
  have "mapErr (\<lambda>hop. case PlaceholderProofProvider hop of Inl e \<Rightarrow> Inl (BuildingISDProof (hop_IA hop) e) | Inr proof \<Rightarrow> Inr proof)
      (path_Hops path) = Inr proofs"
    unfolding proofs_def using mapErr_total [of "\<lambda>hop. projr (PlaceholderProofProvider hop)" "path_Hops path"]
    by (simp add: PlaceholderProofProvider_def)
  moreover obtain payload where "marshalForSigning J (unsignedReceipt uid (me_now env i) tx pol path proofs (defaultProofs g)) = Some payload"
    using assms(1) unfolding encodes_receipts_def by (metis (no_types, lifting) not_Some_eq unsigned_timestamp)
  ultimately show thesis using p assms(2,3) that by (simp add: buildReceiptLocked_def Let_def)
qed

text \<open>
  The loop: distinct identifiers and increasing sequence numbers make every append succeed, so the
  store ends with one receipt per turn and the generator in step with it.
\<close>

definition loop_ready :: "prims \<Rightarrow> codec \<Rightarrow> MetricsEnv \<Rightarrow> nat \<Rightarrow> Generator \<Rightarrow> MemoryStore \<Rightarrow> bool" where
  "loop_ready P J env i g s \<longleftrightarrow>
     memory_inv s \<and> oracle_ok P J (NewReceiptValidator oneHour) g (ms_receipts s) \<and>
     map rcpt_ID (ms_receipts s) = map (\<lambda>k. me_uid env (Suc k)) [0..<i] \<and>
     length (g_privateKey g) = PrivateKeySize \<and> g_threshold g = None \<and>
     (g_proofs g = None \<or> g_proofs g = Some PlaceholderProofProvider)"

lemma loop_step:
  assumes r: "loop_ready P J env i g s" and "encodes_receipts J env" "inj (me_uid env)" "Suc i < 2 ^ 64" "ed25519_correct P"
  obtains rc g' s' where "IssueAndAppend P J MemoryStoreOps (me_uid env (Suc i)) (me_now env (Suc i)) tx pol path (g, s) = (Inr rc, g', s')"
    "loop_ready P J env (Suc i) g' s'"
proof -
  from r have inv: "memory_inv s" and ok: "oracle_ok P J (NewReceiptValidator oneHour) g (ms_receipts s)"
    and ids: "map rcpt_ID (ms_receipts s) = map (\<lambda>k. me_uid env (Suc k)) [0..<i]" by (simp_all add: loop_ready_def)
  from ids have len: "length (ms_receipts s) = i" by (metis length_map length_upt minus_nat.diff_0)
  let ?run = "IssueAndAppend P J MemoryStoreOps (me_uid env (Suc i)) (me_now env (Suc i)) tx pol path (g, s)"
  from r obtain rc h where b: "buildReceiptLocked P J (me_uid env (Suc i)) (me_now env (Suc i)) tx pol path g = (Inr (rc, h), defaultProofs g)"
    by (auto simp: loop_ready_def elim!: placeholder_build [OF assms(2)])
  from buildReceiptLocked_Inr [OF b] have ib: "issued_by P J g (me_uid env (Suc i)) (me_now env (Suc i)) tx pol path rc" by simp
  from ib have "rcpt_ID rc = me_uid env (Suc i)" "rcpt_SeqNo rc = g_seqNo g + 1" by (simp_all add: issued_by_def)
  moreover from ok len have "g_seqNo g = word_of_nat i" by (simp add: oracle_ok_def positioned_def)
  ultimately have rc: "rcpt_ID rc = me_uid env (Suc i)" "rcpt_SeqNo rc = word_of_nat (Suc i)" by (simp_all add: add.commute)
  from rc(2) have sq: "unat (rcpt_SeqNo rc) = Suc i" using assms(4) by (simp add: unat_of_nat del: of_nat_Suc)
  have "rcpt_ID ` set (ms_receipts s) = (\<lambda>k. me_uid env (Suc k)) ` {0..<i}"
    using ids by (metis list.set_map set_upt)
  with rc(1) assms(3) have "rcpt_ID rc \<notin> rcpt_ID ` set (ms_receipts s)" by (auto dest: injD)
  moreover have "rcpt_SeqNo rc \<notin> rcpt_SeqNo ` set (ms_receipts s)"
  proof
    assume "rcpt_SeqNo rc \<in> rcpt_SeqNo ` set (ms_receipts s)"
    then obtain k where "k < i" "rcpt_SeqNo rc = rcpt_SeqNo (ms_receipts s ! k)" using len by (auto simp: in_set_conv_nth)
    with chained_seq [of P J _ "ms_receipts s" k] ok len assms(4) sq show False by (fastforce simp: oracle_ok_def)
  qed
  ultimately obtain s' where a: "st_Append MemoryStoreOps rc s = (None, s')" using mem.append_fresh [OF inv] by blast
  from mem.append_ok [OF inv a] have s': "ms_receipts s' = ms_receipts s @ [rc]" by simp
  let ?g = "(defaultProofs g)\<lparr>g_seqNo := rcpt_SeqNo rc, g_lastHash := Some h\<rparr>"
  from b a have run: "?run = (Inr rc, ?g, s')" by (simp add: IssueAndAppend_def)
  from mem.oracle_ok_issue [OF inv ok assms(5) run]
  have "memory_inv s' \<and> oracle_ok P J (NewReceiptValidator oneHour) ?g (ms_receipts s')" .
  with r s' rc(1) have "loop_ready P J env (Suc i) ?g s'" by (auto simp: loop_ready_def defaultProofs_def)
  with run show thesis by (rule that)
qed

lemma issueLoop_issues:
  assumes "loop_ready P J env i g s" "encodes_receipts J env" "inj (me_uid env)" "i + n < 2 ^ 64" "ed25519_correct P"
  shows "\<exists>g' s'. issueLoop P J env pol path i n (g, s) = Inr s' \<and> loop_ready P J env (i + n) g' s'"
  using assms(1,4)
proof (induction n arbitrary: i g s)
  case (Suc n)
  from Suc(3) have "Suc i < 2 ^ 64" by simp
  from loop_step [OF Suc(2) assms(2,3) this assms(5)] obtain rc g1 s1 where
    "IssueAndAppend P J MemoryStoreOps (me_uid env (Suc i)) (me_now env (Suc i)) (''tx-metrics-chain-'' @ pad6 (Suc i)) pol path (g, s) = (Inr rc, g1, s1)"
    "loop_ready P J env (Suc i) g1 s1" by metis
  with Suc.IH [of "Suc i" g1 s1] Suc(3) show ?case by simp
qed auto

lemma demoPath_built:
  assumes "mj_marshalHops M demoHops = Some raw" "mj_unmarshalHops M raw = Some demoHops"
  obtains path where "demoPath P M = Inr path" "path_Hops path = demoHops"
    "path_EvidenceClass path = EvidenceClassExplicitDemo" "path_ProofStatus path = ProofStatusUnverified"
proof -
  have "demoHops \<noteq> []" by (simp add: demoHops_def)
  with assms show thesis
    by (intro that) (auto simp: demoPath_def NewMockPath_def BuildSCIONPath_def MockPathExtractor_def NormalizeEvidenceClass_def
        NormalizeProofStatus_def EvidenceClassExplicitDemo_def ProofStatusUnverified_def)
qed

lemma checkLoop_demo:
  assumes "path_Hops path = demoHops"
  shows "checkLoop env path i n (NewChecker corridorPolicy) = Inr (map (\<lambda>k. time_Sub (me_stop env k) (me_start env k)) [i..<i + n])"
proof (induction n arbitrary: i)
  case (Suc n)
  have "Checker_Check path 0 0 0 (NewChecker corridorPolicy) =
      (Inr \<lparr>cr_Compliant = True, cr_OffendingHops = [], cr_ViolatedClause = NoClause\<rparr>, NewChecker corridorPolicy)"
    by (simp add: Checker_Check_def NewChecker_def corridorPolicy_def assms demoHops_def CheckHopsCompliant_def ModeStrict_def Let_def)
  moreover have "[i..<i + Suc n] = i # [Suc i..<Suc i + n]" by (simp add: upt_conv_Cons del: upt_Suc)
  ultimately show ?case using Suc [of "Suc i"] by (simp del: upt_Suc)
qed simp

text \<open>The two percentiles are those of the nearest-rank method, computed without rounding errors.\<close>

lemma percentile_rank:
  "float64_ceil (float64_mul (float64_of (length ds) 0) pct) = int k \<Longrightarrow> 1 \<le> k \<Longrightarrow> k \<le> length ds \<Longrightarrow> percentile ds pct = ds ! (k - 1)"
  by (auto simp: percentile_def Let_def nat_diff_distrib)

lemma percentile_nearest:
  assumes "0 < length ds" "length ds < 2 ^ 48"
  shows "percentile ds pct50 = ds ! ((length ds + 1) div 2 - 1)" "percentile ds pct95 = ds ! ((19 * length ds + 19) div 20 - 1)"
proof -
  let ?n = "length ds"
  have "float64_ceil (float64_mul (float64_of ?n 0) pct50) = int ((?n + 1) div 2)"
    using rank50 [of ?n] assms(2) by (simp add: zdiv_int)
  then show "percentile ds pct50 = ds ! ((?n + 1) div 2 - 1)" using assms(1) by (intro percentile_rank) linarith+
  have "float64_ceil (float64_mul (float64_of ?n 0) pct95) = int ((19 * ?n + 19) div 20)"
    using rank95 [OF assms(2)] by (simp add: zdiv_int)
  then show "percentile ds pct95 = ds ! ((19 * ?n + 19) div 20 - 1)" using assms(1) by (intro percentile_rank) linarith+
qed

lemma verifyChain_counts:
  assumes "usable_keys P env" "encodes_receipts J env" "inj (me_uid env)" "0 < n" "n < 2 ^ 63" "ed25519_correct P"
  shows "verifyChain P J env k pol path n = Inr (nat n, time_Sub (me_stop env k) (me_start env k))"
proof -
  obtain g where g: "NewGenerator (me_key env 1) = Some g" "oracle_ok P J (NewReceiptValidator oneHour) g []" "g_proofs g = None"
    "g_threshold g = None" "length (g_privateKey g) = PrivateKeySize" by (rule usable_generator [OF assms(1)])
  then have "loop_ready P J env 0 g NewMemoryStore"
    using memory_inv_New by (simp add: loop_ready_def) (simp add: NewMemoryStore_def)
  moreover have l: "0 + nat n < 2 ^ 64" using assms(5) by simp
  ultimately obtain g' s' where s': "issueLoop P J env pol path 0 (nat n) (g, NewMemoryStore) = Inr s'" "loop_ready P J env (nat n) g' s'"
    using issueLoop_issues [OF _ assms(2,3) _ assms(6)] by fastforce
  then have ok: "oracle_ok P J (NewReceiptValidator oneHour) g' (ms_receipts s')" by (simp add: loop_ready_def)
  from s'(2) have len: "length (ms_receipts s') = nat n" unfolding loop_ready_def by (metis length_map length_upt minus_nat.diff_0)
  have all: "filter (in_range 0 (- 1)) (ms_receipts s') = ms_receipts s'" by (simp add: in_range_def)
  have "ms_receipts s' \<noteq> []" using len assms(4) by auto
  with oracle_ok_validates [OF ok _, of 0 "- 1"] len l all
  have "ValidateReceiptChain P J (NewReceiptValidator oneHour) (ms_receipts s') = None" by simp
  with g(1) s'(1) len show ?thesis by (simp add: verifyChain_def Memory_List_def)
qed

text \<open>The two probes and the measured receipt.\<close>

lemma probes_fail_closed:
  assumes "usable_keys P env" "encodes_receipts J env" "me_uid env i \<noteq> ''''" "path_Hops path \<noteq> []"
  shows "measureMissingProofFailure P J M env i pol path = ''fail-closed''" "measureReceiptStoreFailure P J M env i pol path = ''fail-closed''"
proof -
  obtain h hs where h: "path_Hops path = h # hs" using assms(4) by (cases "path_Hops path") auto
  obtain g where g: "NewGenerator (me_key env 2) = Some g" by (rule usable_generator [OF assms(1)])
  then show "measureMissingProofFailure P J M env i pol path = ''fail-closed''"
    by (simp add: measureMissingProofFailure_def Issue_def buildReceiptLocked_def WithProofProvider_def failingProofProvider_def defaultProofs_def h)
  obtain g where g: "NewGenerator (me_key env 3) = Some g" "g_proofs g = None"
    "g_threshold g = None" "length (g_privateKey g) = PrivateKeySize" by (rule usable_generator [OF assms(1)])
  then obtain r x where b: "buildReceiptLocked P J (me_uid env i) (me_now env i) ''tx-metrics-store-fail'' pol path g = (Inr (r, x), defaultProofs g)"
    by (auto elim!: placeholder_build [OF assms(2)])
  from buildReceiptLocked_Inr [OF b] have "rcpt_ID r = me_uid env i" by (simp add: issued_by_def)
  with g(1) b assms(3) show "measureReceiptStoreFailure P J M env i pol path = ''fail-closed''"
    by (simp add: measureReceiptStoreFailure_def IssueAndAppend_def failingStore_def)
qed

lemma signedReceiptSize_measured:
  assumes "usable_keys P env" "encodes_receipts J env" "\<And>r. rcpt_Timestamp r = me_now env 0 \<Longrightarrow> mj_receipt M r \<noteq> None"
  obtains sz where "signedReceiptSize P J M env pol path = Inr sz"
proof -
  obtain g where g: "NewGenerator (me_key env 0) = Some g" "g_proofs g = None"
    "g_threshold g = None" "length (g_privateKey g) = PrivateKeySize" by (rule usable_generator [OF assms(1)])
  then obtain r x where b: "buildReceiptLocked P J (me_uid env 0) (me_now env 0) ''tx-metrics-size'' pol path g = (Inr (r, x), defaultProofs g)"
    by (auto elim!: placeholder_build [OF assms(2)])
  from buildReceiptLocked_Inr [OF b] have "rcpt_Timestamp r = me_now env 0" by (simp add: issued_by_def)
  with assms(3) [of r] obtain data where "mj_receipt M r = Some data" by blast
  with g(1) b show thesis by (intro that) (simp add: signedReceiptSize_def Issue_def)
qed

text \<open>
  C28. The benchmark always completes and reports what it measured.  With working keys and encoders
  and distinct identifiers, every sample is found compliant, the chain it issues has the requested
  length and validates as a whole, both injected failures are answered without a receipt, the labels
  are those of unverified demonstration evidence, and the two percentiles are exactly those of the
  nearest-rank method although they are computed in floating point.
\<close>

theorem metrics_report:
  assumes "ed25519_correct P" "usable_keys P env" "encodes_receipts J env" "inj (me_uid env)" "\<forall>i. me_uid env i \<noteq> ''''"
    and "mj_marshalHops M demoHops = Some raw" "mj_unmarshalHops M raw = Some demoHops"
    and "\<forall>r. rcpt_Timestamp r = me_now env 0 \<longrightarrow> mj_receipt M r \<noteq> None"
    and "0 < samples" "samples < 2 ^ 48" "0 < chainLength" "chainLength < 2 ^ 63"
  shows "\<exists>m. collect P J M env samples chainLength = Inr m \<and>
    (let ds = sort (map (\<lambda>k. time_Sub (me_stop env k) (me_start env k)) [0..<nat samples]) in
       mt_PathCheckP50Ns m = ds ! ((nat samples + 1) div 2 - 1) \<and> mt_PathCheckP95Ns m = ds ! ((19 * nat samples + 19) div 20 - 1) \<and>
       mt_PathCheckP50Ns m \<le> mt_PathCheckP95Ns m) \<and>
    mt_PathCheckSamples m = samples \<and> mt_ChainLength m = chainLength \<and> int (mt_ChainVerifyReceiptCount m) = chainLength \<and>
    mt_MissingProofFailure m = ''fail-closed'' \<and> mt_ReceiptStoreFailure m = ''fail-closed'' \<and>
    mt_EvidenceClass m = EvidenceClassExplicitDemo \<and> mt_ProofStatus m = ProofStatusUnverified \<and>
    fst (metrics_main P J M env durText errText encode samples chainLength False) = 0"
proof -
  obtain path where path: "demoPath P M = Inr path" "path_Hops path = demoHops"
    "path_EvidenceClass path = EvidenceClassExplicitDemo" "path_ProofStatus path = ProofStatusUnverified"
    by (rule demoPath_built [OF assms(6,7)])
  let ?ds = "sort (map (\<lambda>k. time_Sub (me_stop env k) (me_start env k)) [0..<nat samples])"
  have l: "0 < length ?ds" "length ?ds < 2 ^ 48" using assms(9,10) by simp_all
  have "(nat samples + 1) div 2 \<le> (19 * nat samples + 19) div 20" "(19 * nat samples + 19) div 20 - 1 < nat samples"
    using assms(9) by linarith+
  then have le: "?ds ! ((nat samples + 1) div 2 - 1) \<le> ?ds ! ((19 * nat samples + 19) div 20 - 1)"
    by (intro sorted_nth_mono sorted_sort) (simp_all add: diff_le_mono)
  obtain sz where sz: "signedReceiptSize P J M env (pol_ID corridorPolicy) path = Inr sz"
    using signedReceiptSize_measured [OF assms(2,3), of M "pol_ID corridorPolicy" path] assms(8) by blast
  have "path_Hops path \<noteq> []" by (simp add: path demoHops_def)
  note probes = probes_fail_closed [OF assms(2,3) assms(5) [THEN spec] this, where M = M and pol = "pol_ID corridorPolicy"]
  note c = collect_def [of P J M env samples chainLength] path(1) checkLoop_demo [OF path(2), of env 0 "nat samples"] sz
    verifyChain_counts [OF assms(2-4,11,12,1), of "nat samples" "pol_ID corridorPolicy" path] probes path(3,4)
  have "\<exists>m. collect P J M env samples chainLength = Inr m \<and> mt_PathCheckP50Ns m = percentile ?ds pct50 \<and> mt_PathCheckP95Ns m = percentile ?ds pct95 \<and>
    mt_PathCheckSamples m = samples \<and> mt_ChainLength m = chainLength \<and> mt_ChainVerifyReceiptCount m = nat chainLength \<and>
    mt_MissingProofFailure m = ''fail-closed'' \<and> mt_ReceiptStoreFailure m = ''fail-closed'' \<and>
    mt_EvidenceClass m = EvidenceClassExplicitDemo \<and> mt_ProofStatus m = ProofStatusUnverified"
    by (simp add: c Let_def)
  moreover have "length ?ds = nat samples" by simp
  note percentile_nearest [OF l, unfolded this]
  moreover have "collect P J M env samples chainLength = Inr m \<Longrightarrow> fst (metrics_main P J M env durText errText encode samples chainLength False) = 0" for m
    using assms(9,11) by (simp add: metrics_main_def)
  moreover have "int (nat chainLength) = chainLength" using assms(11) by simp
  ultimately show ?thesis using le unfolding Let_def by metis
qed

theorem metrics_report_witness:
  "\<exists>m. collect toy_ed toy_codec
       \<lparr>mj_marshalHops = (\<lambda>_. Some [1]), mj_unmarshalHops = (\<lambda>_. Some demoHops), mj_receipt = (\<lambda>_. Some [1, 2]), mj_keyText = '''', mj_issueText = (\<lambda>_. '''')\<rparr>
       \<lparr>me_key = (\<lambda>_. Some (ed_public toy_ed (replicate 64 1), replicate 64 1)), me_uid = itoa, me_now = int, me_start = (\<lambda>_. 0), me_stop = (\<lambda>k. 30 - int k)\<rparr>
       2 3 = Inr m \<and>
     mt_PathCheckP50Ns m = 29 \<and> mt_PathCheckP95Ns m = 30 \<and> mt_ChainVerifyReceiptCount m = 3 \<and> mt_MissingProofFailure m = ''fail-closed''"
proof -
  let ?M = "\<lparr>mj_marshalHops = (\<lambda>_. Some [1]), mj_unmarshalHops = (\<lambda>_. Some demoHops), mj_receipt = (\<lambda>_. Some [1, 2]), mj_keyText = '''', mj_issueText = (\<lambda>_. '''')\<rparr>"
  let ?env = "\<lparr>me_key = (\<lambda>_. Some (ed_public toy_ed (replicate 64 1), replicate 64 1)), me_uid = itoa, me_now = int, me_start = (\<lambda>_. 0), me_stop = (\<lambda>k. 30 - int k)\<rparr>"
  have "usable_keys toy_ed ?env" by (auto simp: usable_keys_def PrivateKeySize_def)
  moreover have "encodes_receipts toy_codec ?env" by (simp add: encodes_receipts_def marshalForSigning_def toy_codec_def)
  moreover have "inj itoa" by (rule injI) (metis decimal_itoa)
  moreover have "[0..<2] = [0, Suc 0]" by (simp add: upt_rec)
  ultimately show ?thesis
    using metrics_report [OF toy_ed_correct, of ?env toy_codec ?M "[1]" 2 3]
    by (fastforce simp: Let_def time_Sub_def minDuration_def maxDuration_def)
qed

end
