(* ===== verification/Spec2Isabelle.thy ===== *)
theory Spec2Isabelle
  imports JP_Node JP_Process JP_Events JP_Conn JP_Commands JP_Demo JP_Metrics
begin

text \<open>
  \<^bold>\<open>JurisPath: jurisdiction-bound settlement over SCION paths.\<close>

  The program is a Go service that lets a payment settle only over network paths that stay inside
  the jurisdictions (SCION isolation domains) a corridor policy allows, and that keeps a signed,
  hash-chained record of every decision.  A request reaches the HTTP API
  (\<^verbatim>\<open>internal/api/server.go\<close>); the path evidence it carries is parsed by an extractor
  (\<^verbatim>\<open>internal/scion\<close>) and checked against the policy (\<^verbatim>\<open>internal/policy\<close>,
  \<^verbatim>\<open>internal/pathcheck\<close>); a compliant settlement goes through a consensus round over the ledger
  (\<^verbatim>\<open>internal/dlt\<close>) and is certified by a receipt that the oracle signs and appends to the
  receipt store (\<^verbatim>\<open>internal/receipt\<close>), a non-compliant one is recorded as a violation
  (\<^verbatim>\<open>internal/violation\<close>).  Auditors check receipts and receipt chains with the validator
  (\<^verbatim>\<open>internal/security\<close>).  The program is started by \<^verbatim>\<open>cmd/jurispath/main.go\<close> from a
  configuration (\<^verbatim>\<open>config\<close>) over databases on disk (\<^verbatim>\<open>internal/boltutil\<close>), with an audit log
  (\<^verbatim>\<open>internal/audit\<close>); the same binary is a command line client (\<^verbatim>\<open>cmd/jurispath/cli.go\<close>), and a
  demonstration and a benchmark program use the same packages.

  \<^bold>\<open>Theories, in the order of the code.\<close>

  \<^item> \<open>JP_Prelude\<close>: Go's fixed-width integers, byte slices, times and durations, strings and
    number printing and parsing, loops with early return, and the lemma collections the other
    theories share.
  \<^item> \<open>JP_Model\<close> (\<^verbatim>\<open>pkg/model\<close>): hops, paths, receipts, proofs, violations, results; the
    normalisation of evidence labels.
  \<^item> \<open>JP_Policy\<close> (\<^verbatim>\<open>internal/policy/policy.go\<close>): policies, their validation, loading a directory;
    only validated policies with distinct identifiers are loaded.
  \<^item> \<open>JP_Replay\<close> (\<^verbatim>\<open>internal/security/replay.go\<close>): the replay detector; no key is accepted twice
    within the window whatever the interleaving of checks and cleanups.
  \<^item> \<open>JP_Pathcheck\<close> (\<^verbatim>\<open>internal/pathcheck\<close>): the hop check, the checker, the pre-filter, and that
    they agree with one another and with the policy.
  \<^item> \<open>JP_Scion\<close> (\<^verbatim>\<open>internal/scion\<close>): fingerprints, extractors, trust-root proofs, path filtering.
  \<^item> \<open>JP_Threshold\<close> (\<^verbatim>\<open>internal/security/threshold.go\<close>): the k-of-n oracle.
  \<^item> \<open>JP_Store\<close> (\<^verbatim>\<open>internal/receipt/store.go\<close>): the store interface as a record of operations, its
    contract as the locale \<open>receipt_store\<close>, and the memory store that satisfies it and refines the
    append-only history.
  \<^item> \<open>JP_Receipt\<close>, \<open>JP_KeyFile\<close> (\<^verbatim>\<open>internal/receipt/receipt.go\<close>): issuing, signing, chaining and
    verifying receipts; creating, loading and rotating the key file with every failure of the
    operating system as a value.
  \<^item> \<open>JP_Validator\<close> (\<^verbatim>\<open>internal/security/validator.go\<close>): validation of receipts and chains; the
    chain the generator writes validates, over any store that satisfies the contract.
  \<^item> \<open>JP_Ledger\<close>, \<open>JP_Consensus\<close> (\<^verbatim>\<open>internal/dlt/ledger.go\<close>, \<^verbatim>\<open>consensus.go\<close>): the ledger over an
    explicit store of transactions (the code shares pointers to them) and the consensus rounds.
  \<^item> \<open>JP_Violation\<close> (\<^verbatim>\<open>internal/violation\<close>): the detector with its subscribers, the violation store
    contract (locale \<open>violation_store\<close>) and the memory store.
  \<^item> \<open>JP_Api\<close> (\<^verbatim>\<open>internal/api/server.go\<close>): all JSON handlers, the audit trail they write and the
    authentication and recovery wrappers, as functions from the decoded request and the server's
    state to the response and the new state.
  \<^item> \<open>JP_ApiSafety\<close>: the invariant of the running server, proved for every handler in the locale
    \<open>compliance_service\<close>, which combines the two store contracts and is interpreted on the memory
    stores as \<open>memsvc\<close>.
  \<^item> \<open>JP_Events\<close> (\<^verbatim>\<open>internal/api/server.go\<close>, \<open>handleSSE\<close>): the event stream; whatever interleaves
    with it, a client sees recorded violations in order, and all of them while its buffer has room.
  \<^item> \<open>JP_Transport\<close>, \<open>JP_Node\<close> (\<^verbatim>\<open>internal/dlt/transport*.go\<close>, \<^verbatim>\<open>node.go\<close>): the two transports behind
    the interface \<open>ValidatorTransport\<close> (locales \<open>lossy_network\<close> and \<open>reliable_network\<close>, interpreted on
    the local transport), the validator nodes, and clusters of them as a step relation: agreement in
    every reachable state, replication over a network that delivers.
  \<^item> \<open>JP_Bolt\<close> (\<^verbatim>\<open>internal/boltutil\<close>, the durable half of \<^verbatim>\<open>internal/receipt/store.go\<close>): bbolt is a
    parameter whose contract is the locale \<open>bolt_db\<close>; the durable store simulates the memory store
    up to faults of the medium, and reopening keeps its history.
  \<^item> \<open>JP_Audit\<close> (\<^verbatim>\<open>internal/audit\<close>, the durable half of \<^verbatim>\<open>internal/violation/store.go\<close>, the audit writer
    and \<open>Close\<close> of the server): which requests leave an entry, and what the log holds after a
    shutdown (locales \<open>bolt_violations\<close>, \<open>audit_sink\<close>, \<open>bolt_audit\<close>).
  \<^item> \<open>JP_Config\<close> (\<^verbatim>\<open>config/config.go\<close>), \<open>JP_Main\<close> and \<open>JP_Process\<close> (\<^verbatim>\<open>cmd/jurispath/main.go\<close>): reading
    and validating the configuration; starting the server, with every failure that ends the process;
    the life of a deployment over requests, crashes and restarts as a step relation, with the
    invariant of its disk (locale \<open>bolt_service\<close>); the listener, the wait for a signal and the exit
    code.
  \<^item> \<open>JP_Conn\<close> (\<^verbatim>\<open>internal/scion/conn.go\<close>, \<^verbatim>\<open>querier.go\<close>): the connection to the SCION daemon, closed on
    every path, and path queries.
  \<^item> \<open>JP_CliSpec\<close>, \<open>JP_Cli\<close>, \<open>JP_Commands\<close> (\<^verbatim>\<open>cmd/jurispath/cli.go\<close>): the path specifications of the
    client with their round trip, its commands with requests, output, errors and exit codes over a
    network in which the modelled server answers (locale \<open>json_api\<close>), its declared commands and flags.
  \<^item> \<open>JP_Demo\<close> (\<^verbatim>\<open>cmd/demo\<close>): the demonstration program, which agrees with the client's \<open>demo\<close> command.
  \<^item> \<open>JP_Metrics\<close> (\<^verbatim>\<open>tools/pocmetrics\<close>): the benchmark program with its \<open>float64\<close> arithmetic.
  \<^item> this theory: what the service as a whole guarantees to its clients and auditors, from a command
    on the client's terminal to the receipts in the store.

  \<^bold>\<open>Conventions.\<close>  A struct is a record and a sum of outcomes a datatype.  A result \<open>(T, error)\<close> is
  a sum type, an \<open>error\<close> alone an option whose \<open>None\<close> is success; messages of errors are not
  modelled, their kinds are constructors.  Machine integers are words where wrap-around can be
  observed.  Calls of \<open>time.Now\<close> and of the uuid library are arguments, one per call, in the order of
  the code.  Encoders (JSON, YAML), SHA-256, Ed25519, the operating system, bbolt, cobra, \<open>net/http\<close> and the
  SCION libraries are parameters; what the code relies on is a named hypothesis (\<open>ed25519_correct\<close>,
  \<open>hashes_sized\<close> and so on), and each witness instantiates it.  Every recursion is structural or has
  a measure, so no definition carries fuel; a loop that waits for the outside world (\<open>Run\<close> of a node,
  the event stream, the audit writer) is a step of a step relation.

  \<^bold>\<open>Not modelled.\<close>  Log output, and the headers of responses but for the one the outermost wrapper
  sets; the text of the service's messages (the client's are); the interleaving inside a section that
  a mutex protects (each is one step); the monotonic part of clock readings; static files; the parsing
  of command lines, help texts and the alignment of table columns, which are cobra's and
  \<open>tabwriter\<close>'s; \<open>Close\<close> of the databases, which only closes a file; \<open>ListenAndServe\<close> and
  \<open>ListenAndServeTLS\<close> of the server, which nothing calls.
\<close>

section \<open>A server with two validators and one corridor\<close>

definition svc_js :: "settlePayload \<Rightarrow> bytes option" where
  "svc_js p = Some (bytes_of_string (spl_TransactionID p @ spl_To p))"

abbreviation svc_D :: "(MemoryStore, MemoryViolationStore) deps" where
  "svc_D \<equiv> memoryDeps svc_prims toy_codec svc_js"

definition svc_ext :: PathExtractor where
  "svc_ext = MockPathExtractor (\<lambda>raw. Some (if raw = [1] then [ch_hop, eu_hop] else [x_hop]))"

definition svc_start :: "string \<Rightarrow> (MemoryStore, MemoryViolationStore) Server" where
  "svc_start token =
     NewServer [eu_policy] (WithProofProvider None (NewGeneratorWithKeys (toy_priv 1) (ed_public svc_prims (toy_priv 1)))) svc_ext
       demo_engine NewMemoryStore (NewDetector NewMemoryViolationStore) 0 token ''admin'' ''k'' Map.empty"

definition svc_env :: reqEnv where
  "svc_env = \<lparr>e_uuid = (\<lambda>i. ''id'' @ itoa i), e_clk = (\<lambda>_. 5), e_pick = 0, e_faults = no_faults, e_genKey = None, e_tmp = ''tmp'', e_stamp = ''0''\<rparr>"

definition svc_settle :: SettleRequest where
  "svc_settle = \<lparr>sreq_TransactionID = ''t1'', sreq_From = ''a'', sreq_To = ''b'', sreq_Amount = 30, sreq_Currency = ''CHF'',
     sreq_PolicyID = pol_ID eu_policy, sreq_RawPath = Some [1]\<rparr>"

definition svc_post :: "SettleRequest \<Rightarrow> Request" where
  "svc_post req = \<lparr>rq_Path = ''/api/settle'', rq_Authorization = '''', rq_AdminToken = '''', rq_Call = PostSettle (Some req)\<rparr>"

abbreviation svc_rv :: ReceiptValidator where
  "svc_rv \<equiv> NewReceiptValidator 0"

abbreviation svc_vs :: "ValidatorState list" where
  "svc_vs \<equiv> [chf_validator ''a'' 100, chf_validator ''b'' 50]"

lemma svc_fresh: "fresh_service svc_prims svc_rv [eu_policy] svc_vs (svc_start token)"
proof -
  have "isTrustedKey svc_rv k" for k by (simp add: isTrustedKey_def NewReceiptValidator_def)
  then show ?thesis
    unfolding fresh_service_def svc_start_def demo_engine_def by fastforce
qed

lemma svc_inv: "mem_inv svc_prims toy_codec svc_js svc_rv [eu_policy] (svc_start token)"
  by (rule fresh_service_inv(1) [OF svc_fresh])

lemma svc_keys: "keys_ok svc_prims svc_rv svc_env"
  by (simp add: keys_ok_def svc_env_def)

lemma svc_moves: "moves_money svc_D svc_env svc_settle (svc_start token)"
  by (simp add: moves_money_def settle_complete_def path_allowed_def requestTxID_def svc_settle_def svc_start_def NewServer_def
      canonicalSettleRequestDigest_def svc_js_def BuildSCIONPath_def svc_ext_def MockPathExtractor_def
      within_corridor_def NewChecker_def eu_policy_def demo_policy_def ch_hop_def eu_hop_def Let_def
      demo_engine_def NewConsensusEngine_def GetTransaction_def NewLedger_def acceptable_def GetBalance_def
      balance_of_def chf_validator_def word_sle_eq)

definition svc_run :: "SettleRequest \<Rightarrow> (MemoryStore, MemoryViolationStore) Server \<Rightarrow> (MemoryStore, MemoryViolationStore) Server" where
  "svc_run req s = snd (Handler svc_D svc_env (svc_post req) s)"

lemma svc_run_settle: "sv_apiToken s = '''' \<Longrightarrow> svc_run req s = snd (handleSettle svc_D svc_env (Some req) s)"
  by (simp add: svc_run_def Handler_def recoveryMiddleware_def bearerAuthMiddleware_def routes_def svc_post_def callPath_def
      split: prod.split)

lemma svc_reach: "service_reach svc_D svc_rv s s1 \<Longrightarrow> service_reach svc_D svc_rv s (svc_run req s1)"
  unfolding svc_run_def by (rule service_request) (simp_all add: svc_keys)

text \<open>After one settlement request the transaction is confirmed and the money has moved.\<close>

lemma svc_settled:
  obtains tx where "GetTransaction ''t1'' (sv_ledger (svc_run svc_settle (svc_start ''''))) = Some tx" "tx_ID tx = ''t1''"
    "balances (sv_ledger (svc_run svc_settle (svc_start ''''))) ''a'' ''CHF'' = 70"
    "balances (sv_ledger (svc_run svc_settle (svc_start ''''))) ''b'' ''CHF'' = 80"
proof -
  let ?s = "svc_start ''''"
  let ?s' = "svc_run svc_settle ?s"
  have t: "sv_apiToken ?s = ''''" by (simp add: svc_start_def NewServer_def)
  obtain resp where r: "handleSettle svc_D svc_env (Some svc_settle) ?s = (resp, ?s')"
    using svc_run_settle [OF t] by (metis prod.collapse)
  have q: "requestTxID svc_env (sreq_TransactionID svc_settle) = ''t1''" "sreq_From svc_settle = ''a''" "sreq_To svc_settle = ''b''"
    "sreq_Currency svc_settle = ''CHF''" "sreq_Amount svc_settle = 30"
    by (simp_all add: requestTxID_def svc_settle_def)
  have b: "balances (sv_ledger ?s) ''a'' ''CHF'' = 100" "balances (sv_ledger ?s) ''b'' ''CHF'' = 50"
    by (simp_all add: svc_start_def NewServer_def demo_engine_def NewConsensusEngine_def NewLedger_def balances_def GetBalance_def
        balance_of_def chf_validator_def)
  from memsvc.handleSettle_good [OF svc_inv _ _ r] svc_prims_correct svc_moves
  have g: "mem_good svc_prims toy_codec svc_js svc_rv [eu_policy] ?s ?s'"
    "balances (sv_ledger ?s') = transfer ''a'' ''b'' ''CHF'' 30 (balances (sv_ledger ?s))"
    "\<exists>x. lg_confirmed (sv_ledger ?s') = (lg_confirmed (sv_ledger ?s))(''t1'' \<mapsto> x)"
    by (simp_all add: q)
  from g(3) obtain x where x: "lg_confirmed (sv_ledger ?s') ''t1'' = Some x" by auto
  from g(1) have "ledger_inv (sv_ledger ?s')" by (simp add: good_def service_inv_def service_ok_def engine_ready_def)
  with x have id: "tx_ID (lg_heap (sv_ledger ?s') x) = ''t1''" by (auto simp: ledger_inv_iff)
  show thesis
    by (rule that [of "lg_heap (sv_ledger ?s') x"]) (use x id g(2) b in \<open>simp_all add: GetTransaction_def transfer_def Let_def\<close>)
qed

section \<open>Properties of the service\<close>



text \<open>
  C5. Nothing durable is lost and no money is made: between any two states of a server's life the
  receipts of the first are a prefix of the receipts of the second, every confirmed transaction
  stays confirmed with all its fields (a missing receipt identifier may be filled in), and for
  every currency the sum of all balances is the initial one (modulo 2^64; exactly, and with no
  negative balance, when the initial balances are non-negative and their sum fits in 63 bits).
\<close>

theorem service_history_and_money:
  assumes "fresh_service P rv policies vs s0" and "service_reach (memoryDeps P J js) rv s0 s"
    and "service_reach (memoryDeps P J js) rv s s'" and "ed25519_correct P" and "hashes_sized P"
  shows "(\<exists>new. ms_receipts (sv_receipts s') = ms_receipts (sv_receipts s) @ new) \<and>
    (\<forall>i tx. GetTransaction i (sv_ledger s) = Some tx \<longrightarrow> (\<exists>tx'. GetTransaction i (sv_ledger s') = Some tx' \<and>
       (tx' = tx \<or> tx_ReceiptID tx = '''' \<and> tx' = tx\<lparr>tx_ReceiptID := tx_ReceiptID tx'\<rparr>))) \<and>
    supplyW c (sv_ledger s') = supplyW c (NewLedger vs) \<and>
    (solvent c (NewLedger vs) \<and> supplyZ c (NewLedger vs) < 2 ^ 63 \<longrightarrow>
       solvent c (sv_ledger s') \<and> supplyZ c (sv_ledger s') = supplyZ c (NewLedger vs))"
proof -
  from memsvc.service_reach_good [OF assms(2) fresh_service_inv(1) [OF assms(1)]] assms(4,5)
  have g1: "mem_good P J js rv policies s0 s" by simp
  then have i1: "mem_inv P J js rv policies s" by (simp add: good_def)
  from memsvc.service_reach_good [OF assms(3) i1] assms(4,5) have g2: "mem_good P J js rv policies s s'" by simp
  from good_trans [OF g1 g2] have "ledger_reach (NewLedger vs) (sv_ledger s')"
    using fresh_service_inv(2) [OF assms(1)] by (simp add: good_def advances_def)
  from reach_conserves [OF this ledger_inv_New, of c]
  have money: "supplyW c (sv_ledger s') = supplyW c (NewLedger vs) \<and>
    (solvent c (NewLedger vs) \<and> supplyZ c (NewLedger vs) < 2 ^ 63 \<longrightarrow>
       solvent c (sv_ledger s') \<and> supplyZ c (sv_ledger s') = supplyZ c (NewLedger vs))" by blast
  from i1 g2 have rdy: "engine_ready (sv_engine s)" "engine_ready (sv_engine s')"
    by (simp_all add: good_def service_inv_def service_ok_def)
  from g2 have kp: "ledger_keeps (sv_ledger s) (sv_ledger s')" and new: "\<exists>new. ms_receipts (sv_receipts s') = ms_receipts (sv_receipts s) @ new"
    by (simp_all add: good_def advances_def)
  have "\<exists>tx'. GetTransaction i (sv_ledger s') = Some tx' \<and>
      (tx' = tx \<or> tx_ReceiptID tx = '''' \<and> tx' = tx\<lparr>tx_ReceiptID := tx_ReceiptID tx'\<rparr>)"
    if t: "GetTransaction i (sv_ledger s) = Some tx" for i tx
  proof -
    from t obtain r where "lg_confirmed (sv_ledger s) i = Some r" "tx = lg_heap (sv_ledger s) r"
      by (auto simp: GetTransaction_ready [OF rdy(1)])
    with kp have "lg_confirmed (sv_ledger s') i = Some r" "tx_kept tx (lg_heap (sv_ledger s') r)"
      by (auto simp: ledger_keeps_def)
    then show ?thesis by (auto simp: GetTransaction_ready [OF rdy(2)] tx_kept_def)
  qed
  with new money show ?thesis by blast
qed

theorem service_history_and_money_witness:
  "\<exists>tx tx'. GetTransaction ''t1'' (sv_ledger (svc_run svc_settle (svc_start ''''))) = Some tx
     \<and> GetTransaction ''t1'' (sv_ledger (svc_run svc_settle (svc_run svc_settle (svc_start '''')))) = Some tx'
     \<and> tx_ID tx' = ''t1'' \<and> supplyZ ''CHF'' (sv_ledger (svc_run svc_settle (svc_run svc_settle (svc_start '''')))) = 150"
proof -
  let ?s1 = "svc_run svc_settle (svc_start '''')"
  have r: "service_reach svc_D svc_rv (svc_start '''') ?s1" by (rule svc_reach [OF service_refl])
  have r2: "service_reach svc_D svc_rv ?s1 (svc_run svc_settle ?s1)" by (rule svc_reach [OF service_refl])
  have z: "supplyZ ''CHF'' (NewLedger svc_vs) = 150" "solvent ''CHF'' (NewLedger svc_vs)"
    by (auto simp: supplyZ_def solvent_def total_def NewLedger_def chf_validator_def balance_of_def ran_def split: if_splits)
  obtain tx where t: "GetTransaction ''t1'' (sv_ledger ?s1) = Some tx" "tx_ID tx = ''t1''" by (rule svc_settled)
  note h = service_history_and_money [OF svc_fresh r r2 svc_prims_correct, of "''CHF''"]
  from h t(1) obtain tx' where t': "GetTransaction ''t1'' (sv_ledger (svc_run svc_settle ?s1)) = Some tx'"
    "tx' = tx \<or> tx_ReceiptID tx = '''' \<and> tx' = tx\<lparr>tx_ReceiptID := tx_ReceiptID tx'\<rparr>" by blast
  then have "tx_ID tx' = ''t1''" using t(2) by (metis Transaction.select_convs(1) Transaction.surjective Transaction.update_convs(9))
  with h z t(1) t'(1) show ?thesis by auto
qed

text \<open>
  C3. A settlement request moves money exactly when it should: on a server in any reachable
  state, if the request is complete, its transaction identifier is not on the ledger, its path is
  within the corridor of its policy and the ledger accepts the transfer, then the balances
  afterwards are those of that one transfer and the transaction is confirmed under its identifier;
  in every other case, whatever the reason, no balance changes and no transaction is confirmed.
\<close>

theorem handleSettle_exact:
  assumes "fresh_service P rv policies vs s0" and "service_reach (memoryDeps P J js) rv s0 s"
    and "ed25519_correct P" and "hashes_sized P"
    and "handleSettle (memoryDeps P J js) env (Some req) s = (resp, s')"
  shows "let i = requestTxID env (sreq_TransactionID req) in
    if moves_money (memoryDeps P J js) env req s
    then balances (sv_ledger s') =
           transfer (sreq_From req) (sreq_To req) (sreq_Currency req) (sreq_Amount req) (balances (sv_ledger s))
         \<and> GetTransaction i (sv_ledger s) = None \<and> (\<exists>tx. GetTransaction i (sv_ledger s') = Some tx \<and> tx_Status tx = TxConfirmed)
         \<and> dom (lg_confirmed (sv_ledger s')) = insert i (dom (lg_confirmed (sv_ledger s)))
    else balances (sv_ledger s') = balances (sv_ledger s)
         \<and> lg_confirmed (sv_ledger s') = lg_confirmed (sv_ledger s)"
proof -
  from service_reach_inv [OF assms(1-4)] have inv: "mem_inv P J js rv policies s" .
  let ?i = "requestTxID env (sreq_TransactionID req)"
  from memsvc.handleSettle_good [OF inv _ _ assms(5)] assms(3,4)
  have g: "mem_good P J js rv policies s s'"
    and e: "if moves_money (memoryDeps P J js) env req s
     then balances (sv_ledger s') = transfer (sreq_From req) (sreq_To req) (sreq_Currency req) (sreq_Amount req) (balances (sv_ledger s))
       \<and> (\<exists>r. lg_confirmed (sv_ledger s') = (lg_confirmed (sv_ledger s))(?i \<mapsto> r))
     else same_funds (sv_ledger s) (sv_ledger s') \<and> lg_confirmed (sv_ledger s') = lg_confirmed (sv_ledger s)" by simp_all
  show ?thesis
  proof (cases "moves_money (memoryDeps P J js) env req s")
    case True
    with e obtain r where r: "lg_confirmed (sv_ledger s') = (lg_confirmed (sv_ledger s))(?i \<mapsto> r)" by auto
    from g have "ledger_linked policies (ms_receipts (sv_receipts s')) (sv_ledger s')"
      by (simp add: good_def service_inv_def service_ok_def)
    from ledger_linked_tx [OF this, of ?i r] r have "tx_Status (lg_heap (sv_ledger s') r) = TxConfirmed"
      by (simp add: settled_tx_def)
    moreover from True have "GetTransaction ?i (sv_ledger s) = None" by (simp add: moves_money_def)
    ultimately show ?thesis using True e r by (simp add: Let_def GetTransaction_def)
  next
    case False
    with e show ?thesis by (simp add: Let_def same_funds_balances)
  qed
qed

theorem handleSettle_exact_witness:
  "\<exists>resp s'. handleSettle svc_D svc_env (Some svc_settle) (svc_start '''') = (resp, s')
     \<and> moves_money svc_D svc_env svc_settle (svc_start '''')
     \<and> balances (sv_ledger s') = transfer ''a'' ''b'' ''CHF'' 30 (balances (sv_ledger (svc_start '''')))"
proof -
  obtain resp s' where r: "handleSettle svc_D svc_env (Some svc_settle) (svc_start '''') = (resp, s')" by fastforce
  have q: "sreq_From svc_settle = ''a''" "sreq_To svc_settle = ''b''" "sreq_Currency svc_settle = ''CHF''" "sreq_Amount svc_settle = 30"
    by (simp_all add: svc_settle_def)
  from handleSettle_exact [OF svc_fresh service_refl svc_prims_correct r] svc_moves r show ?thesis
    by (simp add: Let_def q)
qed

text \<open>
  C4. Retries are safe: once a transaction is on the ledger of a server, then after any further
  life of the server a complete settlement request with its identifier never moves money again; a
  request with another digest is refused as a conflict and changes nothing but the audit trail;
  and a retry of the same request for a transaction that has its receipt is answered with
  exactly that receipt, marked idempotent, again changing nothing but the audit trail.
\<close>

theorem settlement_retry_safe:
  assumes "fresh_service P rv policies vs s0" and "service_reach (memoryDeps P J js) rv s0 s"
    and "GetTransaction i (sv_ledger s) = Some tx" and "service_reach (memoryDeps P J js) rv s s1"
    and "ed25519_correct P" and "hashes_sized P"
    and "settle_complete (memoryDeps P J js) env req" and "requestTxID env (sreq_TransactionID req) = i"
    and "handleSettle (memoryDeps P J js) env (Some req) s1 = (resp, s2)"
  shows "balances (sv_ledger s2) = balances (sv_ledger s1) \<and>
    (if canonicalSettleRequestDigest (memoryDeps P J js) req i \<noteq> Some (tx_RequestDigest tx)
     then resp = RError 409 ''TX_CONFLICT'' \<and> same_service s1 s2
     else if tx_ReceiptID tx \<noteq> ''''
     then same_service s1 s2 \<and>
       (\<exists>q. Memory_GetByID (tx_ReceiptID tx) (sv_receipts s1) = Inr (Some q) \<and> rcpt_TransactionID q = i \<and>
         resp = RSettle 200 \<lparr>sr_Consensus = Some (confirmedConsensus i),
           sr_Compliance = Some \<lparr>res_Compliant = True, res_Receipt = Some q, res_Violation = None\<rparr>,
           sr_ReceiptPersisted = Some True, sr_PersistenceWarning = '''', sr_Idempotent = True, sr_Code = '''', sr_Error = None\<rparr>)
     else True)"
proof -
  let ?D = "memoryDeps P J js"
  from service_reach_inv [OF assms(1,2,5,6)] have inv: "mem_inv P J js rv policies s" .
  from memsvc.service_reach_good [OF assms(4) inv] assms(5,6) have g: "mem_good P J js rv policies s s1" by simp
  then have inv1: "mem_inv P J js rv policies s1" by (simp add: good_def)
  then have rdy1: "engine_ready (sv_engine s1)" and lk: "ledger_linked policies (ms_receipts (sv_receipts s1)) (sv_ledger s1)"
    and mi: "memory_inv (sv_receipts s1)" by (simp_all add: service_inv_def service_ok_def)
  from inv have rdy: "engine_ready (sv_engine s)" by (simp add: service_inv_def service_ok_def)
  from assms(3) obtain r where r: "lg_confirmed (sv_ledger s) i = Some r" "tx = lg_heap (sv_ledger s) r"
    by (auto simp: GetTransaction_ready [OF rdy])
  from g have "ledger_keeps (sv_ledger s) (sv_ledger s1)" by (simp add: good_def advances_def)
  with r have r1: "lg_confirmed (sv_ledger s1) i = Some r" and kp: "tx_kept tx (lg_heap (sv_ledger s1) r)"
    by (auto simp: ledger_keeps_def)
  let ?tx = "lg_heap (sv_ledger s1) r"
  from r1 have gt: "GetTransaction i (sv_ledger s1) = Some ?tx" by (simp add: GetTransaction_def)
  from lk r1 have st: "settled_tx policies (ms_receipts (sv_receipts s1)) ?tx" by (simp add: ledger_linked_def)
  from r1 rdy1 have id: "tx_ID ?tx = i" by (auto simp: engine_ready_def ledger_inv_iff)
  from kp have dg: "tx_RequestDigest ?tx = tx_RequestDigest tx" and rc: "tx_ReceiptID tx \<noteq> '''' \<Longrightarrow> tx_ReceiptID ?tx = tx_ReceiptID tx"
    by (auto simp: tx_kept_def)
  from assms(7,8) obtain d where d: "canonicalSettleRequestDigest ?D req i = Some d" by (auto simp: settle_complete_def)
  from assms(7) have wf: "\<not> (sreq_From req = '''' \<or> sreq_To req = '''' \<or> sreq_Amount req \<le>s 0 \<or> sreq_Currency req = '''')"
    "sreq_PolicyID req \<noteq> ''''" "sreq_RawPath req \<noteq> None" by (simp_all add: settle_complete_def)
  have ex: "handleExistingSettlement ?D env ?tx req d None s1 = (resp, s2)"
    using assms(9) wf gt d by (simp add: handleSettle_def Let_def requestTxID_def [symmetric] assms(8))
  have bal: "balances (sv_ledger s2) = balances (sv_ledger s1)"
    using memsvc.existing_good [OF inv1 _ gt ex] assms(5) by (simp add: same_funds_balances)
  have mt: "settleRequestMatchesTransaction ?tx req d \<longleftrightarrow> d = tx_RequestDigest tx"
    using st dg by (auto simp: settleRequestMatchesTransaction_def settled_tx_def)
  have vl: "validateLegacySettlementPath ?D (sv_extractor s1) ?tx req None = Inr None"
    using st by (simp add: validateLegacySettlementPath_def settled_tx_def)
  show ?thesis
  proof (cases "d = tx_RequestDigest tx")
    case False
    with ex mt have "resp = RError 409 ''TX_CONFLICT''" "same_service s1 s2"
      by (auto simp: handleExistingSettlement_def Let_def)
    with bal d False show ?thesis by simp
  next
    case same: True
    show ?thesis
    proof (cases "tx_ReceiptID tx = ''''")
      case False
      show ?thesis
      proof (rule memsvc.settlementGuard_cases [OF inv1, of i])
        fix e assume "settlementGuard ?D i s1 = Inl (Inl e)"
        moreover have "\<exists>x. Memory_GetByID (tx_ReceiptID tx) (sv_receipts s1) = Inr (Some x)"
        proof -
          from st rc [OF False] False obtain q where q: "q \<in> set (ms_receipts (sv_receipts s1))" "rcpt_ID q = tx_ReceiptID tx"
            by (auto simp: settled_tx_def receipt_for_def)
          with memsvc.receipt_by_id [OF mi q(1)] show ?thesis by (simp add: MemoryStoreOps_def Memory_GetByID_def)
        qed
        ultimately show ?thesis
          using gt st rc [OF False] False by (auto simp: settlementGuard_def settled_tx_def loadLedgerReceipt_def MemoryStoreOps_def)
      next
        fix r' q assume q: "settlementGuard ?D i s1 = Inl (Inr q)" "lg_confirmed (sv_ledger s1) i = Some r'"
          "q \<in> set (ms_receipts (sv_receipts s1))" "receipt_for (lg_heap (sv_ledger s1) r') q"
        with r1 have rf: "receipt_for ?tx q" by simp
        have "Memory_GetByID (tx_ReceiptID tx) (sv_receipts s1) = Inr (Some q)"
          using memsvc.receipt_by_id [OF mi q(3)] rf rc [OF False]
          by (simp add: MemoryStoreOps_def Memory_GetByID_def receipt_for_def)
        moreover have "rcpt_TransactionID q = i" using rf id by (simp add: receipt_for_def)
        moreover from ex same mt vl st id q(1)
        have "same_service s1 s2 \<and> resp = RSettle 200 \<lparr>sr_Consensus = Some (confirmedConsensus i),
           sr_Compliance = Some \<lparr>res_Compliant = True, res_Receipt = Some q, res_Violation = None\<rparr>,
           sr_ReceiptPersisted = Some True, sr_PersistenceWarning = '''', sr_Idempotent = True, sr_Code = '''', sr_Error = None\<rparr>"
          by (auto simp: handleExistingSettlement_def Let_def settled_tx_def ensureSettlementReceipt_def)
        ultimately show ?thesis using bal d same False by simp
      next
        fix r' assume "lg_confirmed (sv_ledger s1) i = Some r'" "tx_ReceiptID (lg_heap (sv_ledger s1) r') = ''''"
        with r1 rc [OF False] False show ?thesis by simp
      qed
    qed (use bal d same in simp)
  qed
qed

theorem settlement_retry_safe_witness:
  "\<exists>resp s2. handleSettle svc_D svc_env (Some (svc_settle\<lparr>sreq_To := ''c''\<rparr>)) (svc_run svc_settle (svc_start '''')) = (resp, s2)
     \<and> balances (sv_ledger s2) ''a'' ''CHF'' = 70 \<and> balances (sv_ledger s2) ''b'' ''CHF'' = 80"
proof -
  let ?s1 = "svc_run svc_settle (svc_start '''')" and ?q = "svc_settle\<lparr>sreq_To := ''c''\<rparr>"
  have r: "service_reach svc_D svc_rv (svc_start '''') ?s1" by (rule svc_reach [OF service_refl])
  have c: "settle_complete svc_D svc_env ?q" "requestTxID svc_env (sreq_TransactionID ?q) = ''t1''"
    by (simp_all add: settle_complete_def svc_settle_def requestTxID_def canonicalSettleRequestDigest_def svc_js_def Let_def
        eu_policy_def demo_policy_def word_sle_eq)
  obtain resp s2 where run: "handleSettle svc_D svc_env (Some ?q) ?s1 = (resp, s2)" by fastforce
  show ?thesis
  proof (rule svc_settled)
    fix tx
    assume t: "GetTransaction ''t1'' (sv_ledger ?s1) = Some tx" "balances (sv_ledger ?s1) ''a'' ''CHF'' = 70"
      "balances (sv_ledger ?s1) ''b'' ''CHF'' = 80"
    from settlement_retry_safe [OF svc_fresh r t(1) service_refl svc_prims_correct c run] t(2,3) run show ?thesis by auto
  qed
qed


definition svc_check :: CheckRequest where
  "svc_check = \<lparr>creq_TransactionID = ''c1'', creq_PolicyID = pol_ID eu_policy, creq_RawPath = [1]\<rparr>"

lemma svc_checked:
  "\<exists>q s'. handleCheck svc_D svc_env (Some svc_check) (svc_start t) =
     (RPolicyResult \<lparr>res_Compliant = True, res_Receipt = Some q, res_Violation = None\<rparr>, s') \<and> rcpt_SeqNo q = 1"
  by (simp add: handleCheck_def svc_check_def svc_start_def NewServer_def Let_def demo_engine_def NewConsensusEngine_def
      GetTransaction_def NewLedger_def NewChecker_def eu_policy_def demo_policy_def BuildSCIONPath_def svc_ext_def MockPathExtractor_def
      Checker_Check_def CheckHopsCompliant_def ch_hop_def eu_hop_def issueReceipt_def IssueAndAppend_def buildReceiptLocked_def
      defaultProofs_def WithProofProvider_def NewGeneratorWithKeys_def PlaceholderProofProvider_def toy_codec_def marshalForSigning_def
      PrivateKeySize_def toy_priv_def MemoryStoreOps_def Memory_Append_def NewMemoryStore_def unsignedReceipt_def)



definition svc_check_post :: Request where
  "svc_check_post = \<lparr>rq_Path = ''/api/check'', rq_Authorization = '''', rq_AdminToken = '''', rq_Call = PostCheck (Some svc_check)\<rparr>"


text \<open>
  C8. The API is closed to callers without credentials: with a bearer token configured, a
  request to any path under /api whose Authorization header is not exactly that token is
  answered 401 and changes nothing at all; and whatever the configuration, the oracle's public key
  can only change through the rotation endpoint, called with a configured and correctly
  presented admin token (and the bearer token, where one is configured).
\<close>

theorem Handler_requires_credentials:
  "(sv_apiToken s \<noteq> '''' \<and> (rq_Path req = ''/api'' \<or> hasPrefix (rq_Path req) ''/api/'') \<and>
      rq_Authorization req \<noteq> ''Bearer '' @ sv_apiToken s \<longrightarrow> Handler D env req s = (RError 401 ''UNAUTHORIZED'', s)) \<and>
   (g_publicKey (sv_generator (snd (Handler D env req s))) \<noteq> g_publicKey (sv_generator s) \<longrightarrow>
      rq_Call req = PostRotateKey \<and> sv_adminToken s \<noteq> '''' \<and> rq_AdminToken req = sv_adminToken s \<and>
      (sv_apiToken s = '''' \<or> rq_Authorization req = ''Bearer '' @ sv_apiToken s))"
proof (intro conjI impI)
  have cut: "rq_Authorization req = ''Bearer '' @ sv_apiToken s" if "cutPrefix (rq_Authorization req) ''Bearer '' = (sv_apiToken s, True)"
  proof -
    from that have h: "hasPrefix (rq_Authorization req) ''Bearer ''"
      and d: "drop (length ''Bearer '') (rq_Authorization req) = sv_apiToken s"
      unfolding cutPrefix_def by (simp_all split: if_splits)
    from h have t: "take (length ''Bearer '') (rq_Authorization req) = ''Bearer ''" unfolding hasPrefix_def .
    show ?thesis
      using append_take_drop_id [of "length ''Bearer ''" "rq_Authorization req"] unfolding t d by simp
  qed
  {
    assume "sv_apiToken s \<noteq> '''' \<and> (rq_Path req = ''/api'' \<or> hasPrefix (rq_Path req) ''/api/'') \<and>
      rq_Authorization req \<noteq> ''Bearer '' @ sv_apiToken s"
    with cut show "Handler D env req s = (RError 401 ''UNAUTHORIZED'', s)"
      by (auto simp: Handler_def recoveryMiddleware_def bearerAuthMiddleware_def split: prod.split)
  }
  assume ch: "g_publicKey (sv_generator (snd (Handler D env req s))) \<noteq> g_publicKey (sv_generator s)"
  then have "snd (Handler D env req s) \<noteq> s" by auto
  then have ro: "snd (Handler D env req s) = snd (routes D env req s)"
    and au: "sv_apiToken s = '''' \<or> (rq_Path req \<noteq> ''/api'' \<and> \<not> hasPrefix (rq_Path req) ''/api/'') \<or>
      rq_Authorization req = ''Bearer '' @ sv_apiToken s"
    using cut by (auto simp: Handler_def recoveryMiddleware_def bearerAuthMiddleware_def split: prod.splits if_splits)
  from ch ro show rk: "rq_Call req = PostRotateKey" using routes_key [of req D env s] by auto
  from ch ro rk have p: "rq_Path req = ''/api/rotate-key''" and adm: "isAdminRequest (rq_AdminToken req) s"
    by (auto simp: routes_def callPath_def handleRotateKey_def split: if_splits)
  from adm show "sv_adminToken s \<noteq> ''''" "rq_AdminToken req = sv_adminToken s"
    by (auto simp: isAdminRequest_def split: if_splits)
  from au p show "sv_apiToken s = '''' \<or> rq_Authorization req = ''Bearer '' @ sv_apiToken s"
    by (auto simp: hasPrefix_def)
qed

theorem Handler_requires_credentials_witness:
  "Handler svc_D svc_env (svc_post svc_settle) (svc_start ''secret'') = (RError 401 ''UNAUTHORIZED'', svc_start ''secret'')"
proof -
  have "sv_apiToken (svc_start ''secret'') = ''secret''" by (simp add: svc_start_def NewServer_def)
  moreover have "rq_Path (svc_post svc_settle) = ''/api/settle''" "rq_Authorization (svc_post svc_settle) = ''''"
    by (simp_all add: svc_post_def)
  ultimately show ?thesis
    using Handler_requires_credentials [of "svc_start ''secret''" "svc_post svc_settle" svc_D svc_env] by (simp add: hasPrefix_def)
qed

section \<open>The range limit\<close>

text \<open>
  The limit of the verify-chain endpoint is computed with wrap-around: the full range of sequence
  numbers passes it and every receipt of the store is returned.
\<close>

lemma verify_chain_limit_overflow:
  "handleVerifyChain (memoryDeps P J js) (itoa 0) (itoa (2 ^ 64 - 1)) s =
     RVerifyChain \<lparr>vc_ChainLength = length (ms_receipts (sv_receipts s)), vc_OraclePublicKey = PublicKey (sv_generator s),
       vc_OraclePublicKeys = receiptPublicKeys (ms_receipts (sv_receipts s)) (PublicKey (sv_generator s)),
       vc_Receipts = ms_receipts (sv_receipts s)\<rparr>"
proof -
  let ?m = "word_of_nat (2 ^ 64 - 1) :: uint64"
  have "unat ?m = 2 ^ 64 - 1" by (simp add: unat_of_nat)
  then have top: "x \<le> ?m" for x
    using unsigned_less [of x, where 'a = nat] by (simp add: word_le_nat_alt)
  have r: "st_ListRange MemoryStoreOps 0 ?m st = Inr (ms_receipts st)" for st
    using top by (simp add: MemoryStoreOps_def Memory_ListRange_def)
  have p: "parseSeq (itoa 0) = Some (Inr 0)" "parseSeq (itoa (2 ^ 64 - 1)) = Some (Inr ?m)"
    by (simp_all add: parseSeq_def parseUint_itoa)
  have w: "?m - 0 + 1 = 0" by simp
  show ?thesis unfolding handleVerifyChain_def p using r w by (simp add: Let_def maxRange_def)
qed

section \<open>The command line client against the service\<close>


abbreviation svc_client :: "Typed ClientJson" where
  "svc_client \<equiv> typedClient (\<lambda>_. Some [1]) (\<lambda>_. None) svc_prims"

abbreviation svc_net :: "(unit, Typed, nat \<times> (MemoryStore, MemoryViolationStore) Server) Net" where
  "svc_net \<equiv> jurispathNet (\<lambda>_. Inr ()) (\<lambda>_. None) (\<lambda>_ _. None) svc_D typedServer (\<lambda>_. svc_env)"

lemma svc_spec: "rawPathFromSpec (cj_marshalHops svc_client) ''1-ff00:0:110,2-ff00:0:210'' = Inr [1]"
  using rawPathFromSpec_Join [OF _ help_hops_written, of "cj_marshalHops svc_client" "[1]"] by (simp add: help_hops_def typedClient_def)

lemma svc_transported: "transported (cj_settle svc_client) (sj_settle typedServer) req"
  by (simp add: transported_def typedClient_def typedServer_def)



abbreviation svc_detour :: SettleRequest where
  "svc_detour \<equiv> settle_request ''t2'' ''a'' ''b'' 30 ''CHF'' (pol_ID eu_policy) [2]"

lemma svc_blocked:
  "\<exists>sr pr v s'. handleSettle svc_D svc_env (Some svc_detour) (svc_start t) = (RSettle 422 sr, s') \<and> sr_Compliance sr = Some pr \<and> res_Violation pr = Some v"
  by (simp add: handleSettle_def settle_request_def svc_start_def NewServer_def Let_def demo_engine_def NewConsensusEngine_def
      canonicalSettleRequestDigest_def svc_js_def
      GetTransaction_def NewLedger_def NewChecker_def eu_policy_def demo_policy_def BuildSCIONPath_def svc_ext_def MockPathExtractor_def
      Checker_Check_def CheckHopsCompliant_def x_hop_def word_sle_eq Record_def recordBegin_def NewDetector_def
      MemoryViolationOps_def MemoryViolation_Append_def)


end
